(* ===== verification/Prelude.thy ===== *)
theory Prelude
  imports Main "HOL-Library.Word" "HOL-Library.Char_ord" "HOL-Library.List_Lexorder"
begin

text \<open>
  Shared vocabulary of the development: the machine integer types, the error values, the
  result of a fallible operation with its sequencing, and the generic lemmas the component
  theories share.
\<close>

section \<open>Machine integers and byte strings\<close>

type_synonym u8 = "8 word"
type_synonym u16 = "16 word"
type_synonym u32 = "32 word"
type_synonym u64 = "64 word"

text \<open>An \<open>i64\<close> is the same 64-bit pattern read with \<^const>\<open>sint\<close>.\<close>

type_synonym i64 = "64 word"

type_synonym bytes = "u8 list"

text \<open>
  A Rust \<open>String\<close> is its UTF-8 bytes, an HOL \<^typ>\<open>string\<close> is a list of 8-bit characters:
  \<open>length\<close> counts bytes on both sides.
\<close>

definition as_bytes :: "string \<Rightarrow> bytes" where
  "as_bytes s = map of_char s"

definition of_bytes :: "bytes \<Rightarrow> string" where
  "of_bytes bs = map (\<lambda>b. char_of (unat b)) bs"

abbreviation u64_max :: nat where
  "u64_max \<equiv> 18446744073709551615"

text \<open>A fact about the bytes of a range, checked one by one.\<close>

lemma byte_range_cases:
  fixes c :: u8
  assumes all: "list_all (\<lambda>n. P (word_of_nat n :: u8)) [lo..<hi]"
    and c: "lo \<le> unat c" "unat c < hi"
  shows "P c"
proof -
  from all c have "P (word_of_nat (unat c))"
    unfolding list_all_iff by (auto simp only: set_upt atLeastLessThan_iff)
  then show ?thesis by simp
qed

section \<open>Errors\<close>

text \<open>
  An error of the S3 client (\<open>SdkError\<close>): network failures, and errors the service answered with,
  by code, HTTP status and whether the operation's error is its \<open>NotFound\<close> variant.
\<close>

datatype sdk_error =
    TimeoutError
  | DispatchFailure
  | ResponseError
  | ConstructionFailure
  | ServiceError "string option" u16 bool

text \<open>
  The code reports every failure as an \<open>anyhow::Error\<close>. One constructor per place that
  raises one; the text added by \<open>context\<close> is not kept.
\<close>

datatype error =
    \<comment> \<open>part\_zip.rs\<close>
    SymlinkNotSupported string
  | EmptyZipEntryPath
  | UnsafeZipEntryPath string
  | EmptyZipEntryName
  | BackslashInZipName string
  | ZipNameTooLong
  | ZipExtraTooLong
  | OpenFailed string
  | UnexpectedEofReading string nat
  | UnexpectedEof
  | ReadFailed
  | WalkFailed
  | ZipNameNotUtf8
  | UnsupportedZipMethod u16
  | InvalidZip64ExtraLength nat
  | Zip64SizesMissing
  | UnexpectedEofZipData string
  | CrcMismatch string u32 u32
  | ZipSizeMismatch string
  | UnexpectedZipSignature u32
    \<comment> \<open>file system\<close>
  | NotADirectory "string list"
  | IsADirectory "string list"
    \<comment> \<open>storage.rs, manifest.rs, gc.rs, gc/lock.rs\<close>
  | S3Failure sdk_error
  | BodyReadFailed
  | NoUploadId string
  | ChunkSizeTooLarge
  | ReaderTaskFailed string
  | ManifestExists string
  | DecodeFailed
  | InvalidBase64 string
  | LockLost
  | LockUnavailable
    \<comment> \<open>clickhouse.rs\<close>
  | ClickhouseNotFound
  | ClickhouseLocalFailed string
  | HttpFailed
  | UnexpectedHashType
  | InvalidPartHash string
  | AttachFailed string
    \<comment> \<open>snapshots.rs\<close>
  | FileReadFailed string
  | RemoveFailed string
  | PartDirMissing string
  | StagedSizeDiffers string
  | CrossDeviceLink string
  | LinkFailed string
  | UploadSizeMismatch string u64 u64
  | NoShardIdentity
  | NoReplicaIdentity
  | PartsDisappeared nat
  | NotStaged string
  | BlobSizeMismatch string u64 u64
  | MissingBlobSize string
  | ShardMismatch string
  | ReplicaMismatch string
  | NoPartsForTable string string
    \<comment> \<open>main.rs, upload.rs\<close>
  | InvalidDuration string
  | MissingOption string
  | InvalidTableFilter string
  | OutputNotEmpty

section \<open>Results\<close>

type_synonym 'a result = "error + 'a"

text \<open>The \<open>?\<close> operator on a pure result.\<close>

definition bind_r :: "'e + 'a \<Rightarrow> ('a \<Rightarrow> 'e + 'b) \<Rightarrow> 'e + 'b" where
  "bind_r r f = (case r of Inl e \<Rightarrow> Inl e | Inr x \<Rightarrow> f x)"

lemma bind_r_simps [simp]:
  "bind_r (Inl e) f = Inl e"
  "bind_r (Inr x) f = f x"
  by (simp_all add: bind_r_def)

lemma bind_r_Inr_iff:
  "bind_r r f = Inr y \<longleftrightarrow> (\<exists>x. r = Inr x \<and> f x = Inr y)"
  by (cases r) auto

lemma bind_r_Inl_iff:
  "bind_r r f = Inl e \<longleftrightarrow> r = Inl e \<or> (\<exists>x. r = Inr x \<and> f x = Inl e)"
  by (cases r) auto

lemma bind_r_split:
  "P (bind_r r f) \<longleftrightarrow> (\<forall>e. r = Inl e \<longrightarrow> P (Inl e)) \<and> (\<forall>x. r = Inr x \<longrightarrow> P (f x))"
  by (cases r) auto

lemma bind_r_cong [fundef_cong]:
  "r = r' \<Longrightarrow> (\<And>x. r' = Inr x \<Longrightarrow> f x = g x) \<Longrightarrow> bind_r r f = bind_r r' g"
  by (cases r') auto

text \<open>\<open>iter().map(f).collect::<Result<Vec<_>>>()\<close>: the first error wins.\<close>

fun map_r :: "('a \<Rightarrow> 'e + 'b) \<Rightarrow> 'a list \<Rightarrow> 'e + 'b list" where
  "map_r f [] = Inr []"
| "map_r f (x # xs) = bind_r (f x) (\<lambda>y. bind_r (map_r f xs) (\<lambda>ys. Inr (y # ys)))"

lemma map_r_Inr_length: "map_r f xs = Inr ys \<Longrightarrow> length ys = length xs"
  by (induction xs arbitrary: ys) (auto simp: bind_r_Inr_iff)

lemma map_r_all_Inr: "(\<And>x. x \<in> set xs \<Longrightarrow> f x = Inr (g x)) \<Longrightarrow> map_r f xs = Inr (map g xs)"
  by (induction xs) auto

text \<open>A \<open>for\<close> loop whose body may fail, over a state.\<close>

fun fold_r :: "('s \<Rightarrow> 'a \<Rightarrow> 'e + 's) \<Rightarrow> 's \<Rightarrow> 'a list \<Rightarrow> 'e + 's" where
  "fold_r f s [] = Inr s"
| "fold_r f s (x # xs) = bind_r (f s x) (\<lambda>s'. fold_r f s' xs)"

lemma fold_r_append: "fold_r f s (xs @ ys) = bind_r (fold_r f s xs) (\<lambda>s'. fold_r f s' ys)"
proof (induction xs arbitrary: s)
  case (Cons x xs)
  then show ?case by (cases "f s x") simp_all
qed simp

section \<open>Generic list lemmas\<close>

lemma take_append_le: "n \<le> length a \<Longrightarrow> take n (a @ b) = take n a"
  by simp

lemma append_eq_length_split:
  "a @ b = c @ d \<Longrightarrow> length a = length c \<Longrightarrow> a = c \<and> b = d"
  by simp

lemma as_bytes_append [simp]: "as_bytes (a @ b) = as_bytes a @ as_bytes b"
  by (simp add: as_bytes_def)

lemma length_as_bytes [simp]: "length (as_bytes s) = length s"
  by (simp add: as_bytes_def)

lemma of_bytes_as_bytes [simp]: "of_bytes (as_bytes s) = s"
proof -
  have "char_of (unat (of_char c :: u8)) = c" for c :: char
  proof -
    have "unat (of_char c :: u8) = of_char c"
    proof -
      have lt: "(of_char c :: nat) < 256" by simp
      have "(of_char c :: u8) = of_nat (of_char c)" by (simp only: of_nat_of_char)
      then have "unat (of_char c :: u8) = (of_char c :: nat) mod 2 ^ 8"
        by (simp add: unat_of_nat)
      with lt show ?thesis by simp
    qed
    then show ?thesis by simp
  qed
  then show ?thesis by (simp add: of_bytes_def as_bytes_def comp_def map_idI)
qed

end
