(* ===== verification/Byte_Stream.thy ===== *)
theory Byte_Stream
  imports Prelude
begin

text \<open>
  The streaming reader of \<open>src/part_zip.rs\<close> and its fixed-width integers.

  A reader is the list of chunks the transport will deliver, and whether it then fails (an I/O
  error) instead of ending. One \<open>read(buf)\<close> returns a prefix of the first chunk, as a socket
  does. \<open>parses\<close> says what a parser does on the bytes a writer produced, whatever the chunks;
  \<open>chunk_blind\<close> that it never depends on the chunks. The locale \<open>fixed_codec\<close> is the contract
  between the \<open>write_uN\<close> and \<open>read_uN\<close> pairs and the record formats built on them.
\<close>

type_synonym reader = "bytes list \<times> bool"
type_synonym 'a parser = "reader \<Rightarrow> ('a \<times> reader) result"

definition pending :: "reader \<Rightarrow> bytes" where
  "pending r = concat (fst r)"

section \<open>Reading\<close>

fun read_some :: "nat \<Rightarrow> reader \<Rightarrow> (bytes \<times> reader) result" where
  "read_some n ([], fails) = (if fails then Inl ReadFailed else Inr ([], [], fails))"
| "read_some n ([] # cs, fails) = read_some n (cs, fails)"
| "read_some n ((b # bs) # cs, fails) =
     (if length (b # bs) \<le> n then Inr (b # bs, cs, fails)
      else Inr (take n (b # bs), drop n (b # bs) # cs, fails))"

lemma read_some_split:
  "read_some n r = Inr (b, r') \<Longrightarrow> pending r = b @ pending r' \<and> length b \<le> n \<and> snd r' = snd r"
  by (induction n r arbitrary: b r' rule: read_some.induct)
     (auto simp: pending_def split: if_splits)

lemma read_some_eof: "read_some n r = Inr ([], r') \<Longrightarrow> 0 < n \<Longrightarrow> pending r = []"
  by (induction n r arbitrary: r' rule: read_some.induct)
     (auto simp: pending_def split: if_splits)

lemma read_some_Inr:
  "read_some n r = Inr (b, r') \<Longrightarrow>
     pending r = b @ pending r' \<and> length b \<le> n \<and> snd r' = snd r \<and>
     (0 < n \<longrightarrow> b = [] \<longrightarrow> pending r = [])"
  using read_some_split read_some_eof by blast

lemma read_some_pending:
  "pending r \<noteq> [] \<Longrightarrow> \<exists>b r'. read_some n r = Inr (b, r')"
  by (induction n r rule: read_some.induct) (auto simp: pending_def)

lemma read_some_empty:
  "pending r = [] \<Longrightarrow> read_some n r = (if snd r then Inl ReadFailed else Inr ([], [], snd r))"
  by (induction n r rule: read_some.induct) (auto simp: pending_def)

text \<open>\<open>Read::read_exact\<close>.\<close>

function read_exact :: "nat \<Rightarrow> bytes parser" where
  "read_exact n r =
     (if n = 0 then Inr ([], r)
      else bind_r (read_some n r) (\<lambda>(b, r').
        if b = [] then Inl UnexpectedEof
        else bind_r (read_exact (n - length b) r') (\<lambda>(b', r''). Inr (b @ b', r''))))"
  by pat_completeness auto
termination
  by (relation "measure fst") auto

declare read_exact.simps [simp del]

lemma read_exact_0 [simp]: "read_exact 0 r = Inr ([], r)"
  by (simp add: read_exact.simps)

lemma read_exact_Inr:
  "read_exact n r = Inr (a, r') \<Longrightarrow> pending r = a @ pending r' \<and> length a = n \<and> snd r' = snd r"
proof (induction n r arbitrary: a r' rule: read_exact.induct)
  case (1 n r)
  show ?case
  proof (cases "n = 0")
    case True
    with "1.prems" show ?thesis by auto
  next
    case False
    with "1.prems" obtain b r1 b' where
      rs: "read_some n r = Inr (b, r1)" and b: "b \<noteq> []"
      and re: "read_exact (n - length b) r1 = Inr (b', r')" and a: "a = b @ b'"
      by (auto simp: read_exact.simps [of n r] bind_r_Inr_iff split: if_splits)
    have "pending r1 = b' @ pending r' \<and> length b' = n - length b \<and> snd r' = snd r1"
      using "1.IH" [OF False rs refl b re] .
    with read_some_Inr [OF rs] a show ?thesis by auto
  qed
qed

lemma read_exact_ok:
  "n \<le> length (pending r) \<Longrightarrow> \<exists>r'. read_exact n r = Inr (take n (pending r), r')"
proof (induction n r rule: read_exact.induct)
  case (1 n r)
  show ?case
  proof (cases "n = 0")
    case False
    with "1.prems" have "pending r \<noteq> []" by auto
    from read_some_pending [OF this] obtain b r1 where rs: "read_some n r = Inr (b, r1)" by blast
    note s = read_some_Inr [OF rs]
    with False \<open>pending r \<noteq> []\<close> have b: "b \<noteq> []" by auto
    have "n - length b \<le> length (pending r1)" using s "1.prems" by simp
    from "1.IH" [OF False rs refl b this] obtain r2 where
      r2: "read_exact (n - length b) r1 = Inr (take (n - length b) (pending r1), r2)" by blast
    show ?thesis
      using False rs b s r2 by (auto simp: read_exact.simps [of n r])
  qed simp
qed

lemma read_exact_short:
  "length (pending r) < n \<Longrightarrow> read_exact n r = Inl (if snd r then ReadFailed else UnexpectedEof)"
proof (induction n r rule: read_exact.induct)
  case (1 n r)
  then have n: "n \<noteq> 0" by auto
  show ?case
  proof (cases "pending r = []")
    case True
    with n show ?thesis by (simp add: read_exact.simps [of n r] read_some_empty)
  next
    case False
    from read_some_pending [OF this] obtain b r1 where rs: "read_some n r = Inr (b, r1)" by blast
    note s = read_some_Inr [OF rs]
    with n False have b: "b \<noteq> []" by auto
    have "length (pending r1) < n - length b" using s "1.prems" by auto
    from "1.IH" [OF n rs refl b this] s n rs b show ?thesis
      by (simp add: read_exact.simps [of n r])
  qed
qed

section \<open>Parsers\<close>

definition preturn :: "'a \<Rightarrow> 'a parser" where
  "preturn x r = Inr (x, r)"

definition pfail :: "error \<Rightarrow> 'a parser" where
  "pfail e r = Inl e"

definition pbind :: "'a parser \<Rightarrow> ('a \<Rightarrow> 'b parser) \<Rightarrow> 'b parser" where
  "pbind f g r = bind_r (f r) (\<lambda>(x, r'). g x r')"

text \<open>On the bytes \<open>bs\<close>, followed by anything, the parser yields \<open>v\<close> and consumes them all.\<close>

definition parses :: "'a parser \<Rightarrow> bytes \<Rightarrow> 'a \<Rightarrow> bool" where
  "parses f bs v \<longleftrightarrow>
     (\<forall>r rest. pending r = bs @ rest \<longrightarrow>
        (\<exists>r'. f r = Inr (v, r') \<and> pending r' = rest \<and> snd r' = snd r))"

lemma parsesD:
  assumes "parses f bs v" and "pending r = bs @ rest"
  obtains r' where "f r = Inr (v, r')" and "pending r' = rest" and "snd r' = snd r"
  using assms unfolding parses_def by blast

lemma parses_return: "parses (preturn x) [] x"
  by (simp add: parses_def preturn_def)

lemma parses_bind:
  assumes "parses f as x" and "parses (g x) bs y"
  shows "parses (pbind f g) (as @ bs) y"
  using assms by (fastforce simp: parses_def pbind_def)

lemma parses_read_exact: "parses (read_exact (length bs)) bs bs"
  unfolding parses_def
proof (intro allI impI)
  fix r rest assume p: "pending r = bs @ rest"
  then have "length bs \<le> length (pending r)" by simp
  from read_exact_ok [OF this] p obtain r' where r': "read_exact (length bs) r = Inr (bs, r')"
    by auto
  with read_exact_Inr [OF r'] p
  show "\<exists>r'. read_exact (length bs) r = Inr (bs, r') \<and> pending r' = rest \<and> snd r' = snd r"
    by auto
qed

text \<open>On the bytes \<open>bs\<close>, followed by anything, the parser fails with \<open>e\<close>.\<close>

definition fails_on :: "'a parser \<Rightarrow> bytes \<Rightarrow> error \<Rightarrow> bool" where
  "fails_on f bs e \<longleftrightarrow> (\<forall>r rest. pending r = bs @ rest \<longrightarrow> f r = Inl e)"

lemma fails_on_bind:
  assumes "parses f as x" and "fails_on (g x) bs e"
  shows "fails_on (pbind f g) (as @ bs) e"
  unfolding fails_on_def
proof (intro allI impI)
  fix r rest assume "pending r = (as @ bs) @ rest"
  then have p: "pending r = as @ (bs @ rest)" by simp
  obtain r' where r': "f r = Inr (x, r')" "pending r' = bs @ rest"
    by (rule parsesD [OF assms(1) p])
  from assms(2) r'(2) have "g x r' = Inl e" unfolding fails_on_def by blast
  with r'(1) show "pbind f g r = Inl e" by (simp add: pbind_def)
qed

text \<open>A parser that consumes exactly \<open>n\<close> bytes when it succeeds.\<close>

definition consumes :: "'a parser \<Rightarrow> nat \<Rightarrow> bool" where
  "consumes f n \<longleftrightarrow>
     (\<forall>r v r'. f r = Inr (v, r') \<longrightarrow>
        length (pending r) = n + length (pending r') \<and> snd r' = snd r)"

text \<open>A parser that consumes at least \<open>n\<close> bytes when it succeeds.\<close>

definition shrinks :: "'a parser \<Rightarrow> nat \<Rightarrow> bool" where
  "shrinks f n \<longleftrightarrow> (\<forall>r v r'. f r = Inr (v, r') \<longrightarrow> n + length (pending r') \<le> length (pending r))"

lemma consumes_read_exact: "consumes (read_exact n) n"
  using read_exact_Inr by (fastforce simp: consumes_def)

lemma shrinks_return [intro]: "shrinks (preturn x) 0"
  by (simp add: shrinks_def preturn_def)

lemma shrinks_fail [intro]: "shrinks (pfail e) n"
  by (simp add: shrinks_def pfail_def)

lemma shrinks_bind:
  "shrinks f m \<Longrightarrow> (\<And>x. shrinks (g x) n) \<Longrightarrow> shrinks (pbind f g) n"
  unfolding shrinks_def pbind_def
  by (fastforce simp: bind_r_Inr_iff dest: order_trans [rotated])

lemma shrinks_bind0:
  "shrinks f 0 \<Longrightarrow> (\<And>x. shrinks (g x) 0) \<Longrightarrow> shrinks (pbind f g) 0"
  by (rule shrinks_bind)

lemma shrinks_if: "shrinks f n \<Longrightarrow> shrinks g n \<Longrightarrow> shrinks (if b then f else g) n"
  by simp

lemma shrinksD:
  "shrinks f n \<Longrightarrow> f r = Inr (v, r') \<Longrightarrow> n + length (pending r') \<le> length (pending r)"
  unfolding shrinks_def by blast

lemma consumes_shrinks: "consumes f n \<Longrightarrow> shrinks f 0"
  by (auto simp: consumes_def shrinks_def)

section \<open>Little-endian integers\<close>

fun le_bytes :: "nat \<Rightarrow> nat \<Rightarrow> bytes" where
  "le_bytes 0 v = []"
| "le_bytes (Suc k) v = word_of_nat v # le_bytes k (v div 256)"

fun le_val :: "bytes \<Rightarrow> nat" where
  "le_val [] = 0"
| "le_val (b # bs) = unat b + 256 * le_val bs"

lemma length_le_bytes [simp]: "length (le_bytes k v) = k"
  by (induction k arbitrary: v) auto

lemma le_val_le_bytes: "le_val (le_bytes k v) = v mod 256 ^ k"
proof (induction k arbitrary: v)
  case (Suc k)
  have "unat (word_of_nat v :: u8) = v mod 256" by (simp add: unat_of_nat)
  with Suc show ?case by (simp add: mod_mult2_eq)
qed simp

definition write_u16 :: "u16 \<Rightarrow> bytes" where
  "write_u16 v = le_bytes 2 (unat v)"

definition write_u32 :: "u32 \<Rightarrow> bytes" where
  "write_u32 v = le_bytes 4 (unat v)"

definition write_u64 :: "u64 \<Rightarrow> bytes" where
  "write_u64 v = le_bytes 8 (unat v)"

definition read_u16 :: "u16 parser" where
  "read_u16 = pbind (read_exact 2) (\<lambda>b. preturn (word_of_nat (le_val b)))"

definition read_u32 :: "u32 parser" where
  "read_u32 = pbind (read_exact 4) (\<lambda>b. preturn (word_of_nat (le_val b)))"

definition read_u64 :: "u64 parser" where
  "read_u64 = pbind (read_exact 8) (\<lambda>b. preturn (word_of_nat (le_val b)))"

text \<open>At the end of the stream (even in the middle of the four bytes) there is no signature.\<close>

definition read_u32_opt :: "u32 option parser" where
  "read_u32_opt r =
     (case read_exact 4 r of
        Inr (b, r') \<Rightarrow> Inr (Some (word_of_nat (le_val b)), r')
      | Inl e \<Rightarrow> if e = UnexpectedEof then Inr (None, [], snd r) else Inl e)"

section \<open>The codec contract\<close>

locale fixed_codec =
  fixes put :: "'v \<Rightarrow> bytes"
    and get :: "'v parser"
    and width :: nat
  assumes put_length: "length (put v) = width"
    and get_put: "parses get (put v) v"
    and get_consumes: "consumes get width"
    and get_short: "length (pending r) < width \<Longrightarrow> \<exists>e. get r = Inl e"
begin

lemma put_inj: "put v = put w \<Longrightarrow> v = w"
proof -
  assume eq: "put v = put w"
  have p: "pending ([put v], False) = put v @ []" by (simp add: pending_def)
  then have q: "pending ([put v], False) = put w @ []" by (simp add: eq)
  obtain r1 where "get ([put v], False) = Inr (v, r1)" by (rule parsesD [OF get_put p])
  moreover obtain r2 where "get ([put v], False) = Inr (w, r2)" by (rule parsesD [OF get_put q])
  ultimately show "v = w" by simp
qed

lemma get_bind:
  "parses (g v) bs y \<Longrightarrow> parses (pbind get g) (put v @ bs) y"
  by (rule parses_bind [OF get_put])

lemma get_bind_fails:
  "fails_on (g v) bs e \<Longrightarrow> fails_on (pbind get g) (put v @ bs) e"
  by (rule fails_on_bind [OF get_put])

lemma get_shrinks: "shrinks get 0"
  by (rule consumes_shrinks [OF get_consumes])

end

lemma le_val_unat:
  fixes w :: "'a::len word"
  assumes "LENGTH('a) = 8 * k"
  shows "word_of_nat (le_val (le_bytes k (unat w))) = w"
proof -
  have "unat w < 2 ^ LENGTH('a)" by (rule unsigned_less)
  also have "(2 :: nat) ^ LENGTH('a) = 256 ^ k" by (simp add: assms power_mult)
  finally show ?thesis by (simp add: le_val_le_bytes)
qed

lemma parses_le:
  fixes w :: "'a::len word"
  assumes "LENGTH('a) = 8 * k"
  shows "parses (pbind (read_exact k) (\<lambda>b. preturn (word_of_nat (le_val b)))) (le_bytes k (unat w)) w"
proof -
  have "parses (read_exact k) (le_bytes k (unat w)) (le_bytes k (unat w))"
    using parses_read_exact [of "le_bytes k (unat w)"] by simp
  from parses_bind [where g = "\<lambda>b. preturn (word_of_nat (le_val b) :: 'a word)", OF this parses_return]
  show ?thesis by (simp add: le_val_unat [OF assms])
qed

lemma consumes_le: "consumes (pbind (read_exact k) (\<lambda>b. preturn (g b))) k"
  unfolding consumes_def pbind_def preturn_def
  by (fastforce simp: bind_r_Inr_iff dest: read_exact_Inr)

lemma short_le:
  "length (pending r) < k \<Longrightarrow> \<exists>e. pbind (read_exact k) g r = Inl e"
  by (simp add: pbind_def read_exact_short)

interpretation c16: fixed_codec write_u16 read_u16 2
  by unfold_locales
    (simp_all add: write_u16_def read_u16_def parses_le consumes_le short_le)

interpretation c32: fixed_codec write_u32 read_u32 4
  by unfold_locales
    (simp_all add: write_u32_def read_u32_def parses_le consumes_le short_le)

interpretation c64: fixed_codec write_u64 read_u64 8
  by unfold_locales
    (simp_all add: write_u64_def read_u64_def parses_le consumes_le short_le)

lemma read_u32_opt_parses: "parses read_u32_opt (write_u32 v) (Some v)"
  unfolding parses_def
proof (intro allI impI)
  fix r rest assume p: "pending r = write_u32 v @ rest"
  obtain r' where "read_u32 r = Inr (v, r')" "pending r' = rest" "snd r' = snd r"
    by (rule parsesD [OF c32.get_put p])
  then show "\<exists>r'. read_u32_opt r = Inr (Some v, r') \<and> pending r' = rest \<and> snd r' = snd r"
    by (auto simp: read_u32_def read_u32_opt_def pbind_def preturn_def bind_r_Inr_iff)
qed

lemma read_u32_opt_eof:
  "length (pending r) < 4 \<Longrightarrow> \<not> snd r \<Longrightarrow> read_u32_opt r = Inr (None, [], False)"
  by (simp add: read_u32_opt_def read_exact_short)

lemma read_u32_opt_Some:
  "read_u32_opt r = Inr (Some v, r') \<Longrightarrow>
     length (pending r) = 4 + length (pending r') \<and> snd r' = snd r"
  by (auto simp: read_u32_opt_def split: sum.splits if_splits dest: read_exact_Inr)

section \<open>Parsers do not see the chunks\<close>

definition same_stream :: "reader \<Rightarrow> reader \<Rightarrow> bool" where
  "same_stream r s \<longleftrightarrow> pending r = pending s \<and> snd r = snd s"

fun same_result :: "('a \<times> reader) result \<Rightarrow> ('a \<times> reader) result \<Rightarrow> bool" where
  "same_result (Inr (v, r)) (Inr (w, s)) \<longleftrightarrow> v = w \<and> same_stream r s"
| "same_result (Inl e) (Inl e') \<longleftrightarrow> e = e'"
| "same_result _ _ \<longleftrightarrow> False"

definition chunk_blind :: "'a parser \<Rightarrow> bool" where
  "chunk_blind f \<longleftrightarrow> (\<forall>r s. same_stream r s \<longrightarrow> same_result (f r) (f s))"

lemma chunk_blindD: "chunk_blind f \<Longrightarrow> same_stream r s \<Longrightarrow> same_result (f r) (f s)"
  unfolding chunk_blind_def by blast

lemma same_result_InrD:
  "same_result (Inr (v, r)) y \<Longrightarrow> \<exists>s. y = Inr (v, s) \<and> same_stream r s"
  by (cases y) auto

lemma same_result_InlD: "same_result (Inl e) y \<Longrightarrow> y = Inl e"
  by (cases y) auto

lemma chunk_blind_return: "chunk_blind (preturn x)"
  by (simp add: chunk_blind_def preturn_def)

lemma chunk_blind_fail: "chunk_blind (pfail e)"
  by (simp add: chunk_blind_def pfail_def)

lemma chunk_blind_bind:
  assumes "chunk_blind f" and "\<And>x. chunk_blind (g x)"
  shows "chunk_blind (pbind f g)"
  unfolding chunk_blind_def
proof (intro allI impI)
  fix r s assume rs: "same_stream r s"
  then have fr: "same_result (f r) (f s)" by (rule chunk_blindD [OF assms(1)])
  show "same_result (pbind f g r) (pbind f g s)"
  proof (cases "f r")
    case (Inl e)
    with fr show ?thesis by (auto simp: pbind_def dest: same_result_InlD)
  next
    case (Inr p)
    obtain v r' where p: "p = (v, r')" by (cases p)
    with fr Inr obtain s' where "f s = Inr (v, s')" "same_stream r' s'"
      by (auto dest: same_result_InrD)
    with Inr p chunk_blindD [OF assms(2) [of v]] show ?thesis by (simp add: pbind_def)
  qed
qed

lemma chunk_blind_read_exact: "chunk_blind (read_exact n)"
  unfolding chunk_blind_def
proof (intro allI impI)
  fix r s assume rs: "same_stream r s"
  show "same_result (read_exact n r) (read_exact n s)"
  proof (cases "n \<le> length (pending r)")
    case True
    with rs obtain r' s' where e: "read_exact n r = Inr (take n (pending r), r')"
      "read_exact n s = Inr (take n (pending r), s')"
      using read_exact_ok [of n r] read_exact_ok [of n s] by (auto simp: same_stream_def)
    with read_exact_Inr [OF e(1)] read_exact_Inr [OF e(2)] rs have "same_stream r' s'"
      unfolding same_stream_def by (metis same_append_eq)
    with e show ?thesis by simp
  next
    case False
    with rs show ?thesis by (simp add: same_stream_def read_exact_short)
  qed
qed

lemma chunk_blind_ints: "chunk_blind read_u16" "chunk_blind read_u32" "chunk_blind read_u64"
  unfolding read_u16_def read_u32_def read_u64_def
  by (intro chunk_blind_bind chunk_blind_read_exact chunk_blind_return)+

lemma chunk_blind_u32_opt: "chunk_blind read_u32_opt"
  unfolding chunk_blind_def
proof (intro allI impI)
  fix r s assume rs: "same_stream r s"
  then have "same_result (read_exact 4 r) (read_exact 4 s)"
    by (rule chunk_blindD [OF chunk_blind_read_exact])
  with rs show "same_result (read_u32_opt r) (read_u32_opt s)"
    by (cases "read_exact 4 r"; cases "read_exact 4 s")
       (auto simp: read_u32_opt_def same_stream_def pending_def)
qed

lemmas chunk_blind_intros =
  chunk_blind_return chunk_blind_fail chunk_blind_bind chunk_blind_read_exact
  chunk_blind_ints chunk_blind_u32_opt

end
