(* ===== verification/Rust_Std.thy ===== *)
theory Rust_Std
  imports Prelude
begin

text \<open>
  What the code uses of the Rust standard library on strings and paths: \<open>split\<close>, \<open>join\<close>,
  \<open>strip\_prefix\<close>, \<open>strip\_suffix\<close>, UTF-8 validation and lossy conversion, and
  \<open>Path::components\<close> (Unix rules). Strings are their UTF-8 bytes.
\<close>

section \<open>Splitting and joining\<close>

text \<open>\<open>str::split(c)\<close>: always at least one piece.\<close>

fun split_on :: "char \<Rightarrow> string \<Rightarrow> string list" where
  "split_on c [] = [[]]"
| "split_on c (x # xs) =
     (if x = c then [] # split_on c xs
      else (case split_on c xs of [] \<Rightarrow> [[x]] | p # ps \<Rightarrow> (x # p) # ps))"

fun join_on :: "char \<Rightarrow> string list \<Rightarrow> string" where
  "join_on c [] = []"
| "join_on c [p] = p"
| "join_on c (p # q # ps) = p @ c # join_on c (q # ps)"

lemma split_on_nonempty [simp]: "split_on c s \<noteq> []"
  by (induction s) (auto split: list.splits)

lemma split_on_no_sep: "c \<notin> set s \<Longrightarrow> split_on c s = [s]"
  by (induction s) auto

lemma split_on_append_sep:
  "c \<notin> set a \<Longrightarrow> split_on c (a @ c # b) = a # split_on c b"
  by (induction a) auto

lemma split_on_join_on:
  "ps \<noteq> [] \<Longrightarrow> (\<And>p. p \<in> set ps \<Longrightarrow> c \<notin> set p) \<Longrightarrow> split_on c (join_on c ps) = ps"
  by (induction c ps rule: join_on.induct) (auto simp: split_on_no_sep split_on_append_sep)

lemma join_on_split_on [simp]: "join_on c (split_on c s) = s"
proof (induction s)
  case (Cons x xs)
  obtain p ps where sp: "split_on c xs = p # ps"
    by (cases "split_on c xs") (auto simp: split_on_nonempty)
  show ?case
  proof (cases "x = c")
    case True
    then show ?thesis using Cons sp by simp
  next
    case False
    then show ?thesis using Cons sp by (cases ps) auto
  qed
qed simp

lemma split_on_no_seps: "p \<in> set (split_on c s) \<Longrightarrow> c \<notin> set p"
  by (induction s arbitrary: p) (auto split: list.splits if_splits)

section \<open>Prefixes and suffixes\<close>

fun strip_prefix :: "string \<Rightarrow> string \<Rightarrow> string option" where
  "strip_prefix [] s = Some s"
| "strip_prefix (x # xs) [] = None"
| "strip_prefix (x # xs) (y # ys) = (if x = y then strip_prefix xs ys else None)"

definition strip_suffix :: "string \<Rightarrow> string \<Rightarrow> string option" where
  "strip_suffix suf s = map_option rev (strip_prefix (rev suf) (rev s))"

lemma strip_prefix_append [simp]: "strip_prefix p (p @ s) = Some s"
  by (induction p) auto

lemma strip_prefix_Some: "strip_prefix p s = Some r \<longleftrightarrow> s = p @ r"
  by (induction p s rule: strip_prefix.induct) auto

lemma strip_prefix_None: "strip_prefix p s = None \<longleftrightarrow> (\<nexists>r. s = p @ r)"
  by (induction p s rule: strip_prefix.induct) auto

lemma strip_suffix_append [simp]: "strip_suffix q (s @ q) = Some s"
  by (simp add: strip_suffix_def)

lemma strip_suffix_Some: "strip_suffix q s = Some r \<longleftrightarrow> s = r @ q"
  by (auto simp: strip_suffix_def strip_prefix_Some rev_swap)

definition starts_with :: "string \<Rightarrow> string \<Rightarrow> bool" where
  "starts_with p s = (take (length p) s = p)"

lemma starts_with_iff: "starts_with p s \<longleftrightarrow> (\<exists>r. s = p @ r)"
proof
  assume "starts_with p s"
  then have "s = p @ drop (length p) s"
    by (metis append_take_drop_id starts_with_def)
  then show "\<exists>r. s = p @ r" ..
next
  assume "\<exists>r. s = p @ r"
  then show "starts_with p s" by (auto simp: starts_with_def)
qed

section \<open>UTF-8\<close>

abbreviation utf8_cont :: "nat \<Rightarrow> bool" where
  "utf8_cont b \<equiv> 128 \<le> b \<and> b \<le> 191"

text \<open>How many continuation bytes a lead byte asks for; \<open>None\<close> for a byte that cannot lead.\<close>

definition utf8_width :: "nat \<Rightarrow> nat option" where
  "utf8_width b =
     (if b < 128 then Some 1
      else if 194 \<le> b \<and> b \<le> 223 then Some 2
      else if 224 \<le> b \<and> b \<le> 239 then Some 3
      else if 240 \<le> b \<and> b \<le> 244 then Some 4
      else None)"

definition utf8_second :: "nat \<Rightarrow> nat \<Rightarrow> bool" where
  "utf8_second lead b =
     (if lead = 224 then 160 \<le> b \<and> b \<le> 191
      else if lead = 237 then 128 \<le> b \<and> b \<le> 159
      else if lead = 240 then 144 \<le> b \<and> b \<le> 191
      else if lead = 244 then 128 \<le> b \<and> b \<le> 143
      else utf8_cont b)"

definition utf8_at :: "nat list \<Rightarrow> nat \<Rightarrow> nat" where
  "utf8_at bs i = (if i < length bs then bs ! i else 0)"

text \<open>
  The next chunk of a byte string: its length, and whether it is a well-formed scalar value or
  a maximal ill-formed prefix (one replacement character in the lossy conversion).
\<close>

definition utf8_step :: "nat list \<Rightarrow> nat \<times> bool" where
  "utf8_step bs =
     (let b0 = utf8_at bs 0; b1 = utf8_at bs 1; b2 = utf8_at bs 2; b3 = utf8_at bs 3 in
      case utf8_width b0 of
        None \<Rightarrow> (1, False)
      | Some w \<Rightarrow>
          if w = 1 then (1, True)
          else if \<not> utf8_second b0 b1 then (1, False)
          else if w = 2 then (2, True)
          else if \<not> utf8_cont b2 then (2, False)
          else if w = 3 then (3, True)
          else if \<not> utf8_cont b3 then (3, False)
          else (4, True))"

lemma utf8_step_pos: "0 < fst (utf8_step bs)"
  by (auto simp: utf8_step_def Let_def split: option.splits)

function utf8_valid_bytes :: "nat list \<Rightarrow> bool" where
  "utf8_valid_bytes bs =
     (if bs = [] then True
      else snd (utf8_step bs) \<and> utf8_valid_bytes (drop (fst (utf8_step bs)) bs))"
  by pat_completeness auto
termination
  by (relation "measure length") (auto simp: utf8_step_pos)

function utf8_lossy_bytes :: "nat list \<Rightarrow> nat list" where
  "utf8_lossy_bytes bs =
     (if bs = [] then []
      else (if snd (utf8_step bs) then take (fst (utf8_step bs)) bs else [239, 191, 189])
           @ utf8_lossy_bytes (drop (fst (utf8_step bs)) bs))"
  by pat_completeness auto
termination
  by (relation "measure length") (auto simp: utf8_step_pos)

declare utf8_valid_bytes.simps [simp del] utf8_lossy_bytes.simps [simp del]

definition utf8_valid :: "string \<Rightarrow> bool" where
  "utf8_valid s = utf8_valid_bytes (map of_char s)"

definition to_string_lossy :: "string \<Rightarrow> string" where
  "to_string_lossy s = map char_of (utf8_lossy_bytes (map of_char s))"

text \<open>\<open>String::from\_utf8\<close>.\<close>

definition from_utf8 :: "bytes \<Rightarrow> string option" where
  "from_utf8 bs = (if utf8_valid (of_bytes bs) then Some (of_bytes bs) else None)"

lemma utf8_valid_Nil [simp]: "utf8_valid []"
  by (simp add: utf8_valid_def utf8_valid_bytes.simps)

lemma utf8_lossy_id: "utf8_valid_bytes bs \<Longrightarrow> utf8_lossy_bytes bs = bs"
proof (induction bs rule: utf8_valid_bytes.induct)
  case (1 bs)
  show ?case
  proof (cases "bs = []")
    case True
    then show ?thesis by (simp add: utf8_lossy_bytes.simps)
  next
    case False
    with "1.prems" have ok: "snd (utf8_step bs)"
      and "utf8_valid_bytes (drop (fst (utf8_step bs)) bs)"
      by (simp_all add: utf8_valid_bytes.simps [of bs])
    with "1.IH" False have "utf8_lossy_bytes (drop (fst (utf8_step bs)) bs) = drop (fst (utf8_step bs)) bs"
      by blast
    then show ?thesis
      using False ok by (simp add: utf8_lossy_bytes.simps [of bs])
  qed
qed

lemma to_string_lossy_id: "utf8_valid s \<Longrightarrow> to_string_lossy s = s"
  by (simp add: utf8_valid_def to_string_lossy_def utf8_lossy_id comp_def)

text \<open>A well-formed first chunk fits in the bytes before a separator that is ASCII.\<close>

lemma utf8_second_zero [simp]: "\<not> utf8_second b 0"
  by (simp add: utf8_second_def)

lemma utf8_step_append:
  assumes "bs \<noteq> []" and "snd (utf8_step bs)"
  shows "utf8_step (bs @ cs) = utf8_step bs \<and> fst (utf8_step bs) \<le> length bs"
proof -
  let ?n = "length bs"
  have at: "i < ?n \<Longrightarrow> utf8_at (bs @ cs) i = utf8_at bs i" for i
    by (simp add: utf8_at_def nth_append)
  have z: "utf8_at bs i = 0" if "?n \<le> i" for i
    using that by (simp add: utf8_at_def)
  obtain w where w: "utf8_width (utf8_at bs 0) = Some w"
    using assms(2) by (cases "utf8_width (utf8_at bs 0)") (simp_all add: utf8_step_def)
  have a0: "utf8_at (bs @ cs) 0 = utf8_at bs 0"
    using assms(1) by (simp add: utf8_at_def nth_append)
  have w14: "w = 1 \<or> w = 2 \<or> w = 3 \<or> w = 4"
    using w by (auto simp: utf8_width_def split: if_splits)
  have st: "utf8_step bs = (w, True)"
    using assms(2) w w14 by (simp add: utf8_step_def Let_def split: if_splits)
  have len: "w \<le> ?n"
  proof (rule ccontr)
    assume "\<not> w \<le> ?n"
    moreover have "1 \<le> ?n" using assms(1) by (cases bs) auto
    ultimately have "w \<noteq> 1" and "utf8_at bs (w - 1) = 0"
      by (linarith, intro z, linarith)
    then show False using st w w14 by (auto simp: utf8_step_def Let_def split: if_splits)
  qed
  have "utf8_at (bs @ cs) i = utf8_at bs i" if "i < w" for i
    using that len at by simp
  then have "utf8_step (bs @ cs) = (w, True)"
    using st w w14 a0 by (auto simp: utf8_step_def Let_def split: if_splits)
  with st len show ?thesis by simp
qed

lemma utf8_valid_bytes_append:
  "utf8_valid_bytes as \<Longrightarrow> utf8_valid_bytes bs \<Longrightarrow> utf8_valid_bytes (as @ bs)"
proof (induction as rule: utf8_valid_bytes.induct)
  case (1 as)
  show ?case
  proof (cases "as = []")
    case True
    with "1.prems" show ?thesis by simp
  next
    case False
    with "1.prems" have ok: "snd (utf8_step as)"
      and rest: "utf8_valid_bytes (drop (fst (utf8_step as)) as)"
      by (simp_all add: utf8_valid_bytes.simps [of as])
    from utf8_step_append [OF False ok]
    have st: "utf8_step (as @ bs) = utf8_step as" "fst (utf8_step as) \<le> length as"
      by auto
    have "utf8_valid_bytes (drop (fst (utf8_step as)) as @ bs)"
      using "1.IH" [OF False rest "1.prems"(2)] .
    then show ?thesis
      using False ok st by (subst utf8_valid_bytes.simps) simp
  qed
qed

lemma utf8_valid_append: "utf8_valid a \<Longrightarrow> utf8_valid b \<Longrightarrow> utf8_valid (a @ b)"
  by (simp add: utf8_valid_def utf8_valid_bytes_append)

lemma utf8_valid_ascii: "(of_char c :: nat) < 128 \<Longrightarrow> utf8_valid [c]"
  by (simp add: utf8_valid_def utf8_valid_bytes.simps utf8_step_def utf8_at_def utf8_width_def)

lemma utf8_valid_join:
  "(of_char c :: nat) < 128 \<Longrightarrow> (\<And>p. p \<in> set ps \<Longrightarrow> utf8_valid p) \<Longrightarrow> utf8_valid (join_on c ps)"
proof (induction c ps rule: join_on.induct)
  case (3 c p q ps)
  then have "utf8_valid (join_on c (q # ps))" by simp
  with 3 have "utf8_valid (p @ [c] @ join_on c (q # ps))"
    by (intro utf8_valid_append utf8_valid_ascii) auto
  then show ?case by simp
qed auto

section \<open>Paths\<close>

datatype component = RootDir | CurDir | ParentDir | Normal string

text \<open>
  \<open>Path::components\<close> on Unix: repeated separators and inner \<open>.\<close> vanish, a leading \<open>.\<close> stays.
\<close>

definition inner_components :: "string list \<Rightarrow> component list" where
  "inner_components segs =
     map (\<lambda>s. if s = ''..'' then ParentDir else Normal s)
       (filter (\<lambda>s. s \<noteq> [] \<and> s \<noteq> ''.'') segs)"

definition components :: "string \<Rightarrow> component list" where
  "components p =
     (case split_on CHR ''/'' p of
        [] \<Rightarrow> []
      | s # ss \<Rightarrow>
          (if s = [] \<and> ss \<noteq> [] then [RootDir]
           else if s = ''.'' then [CurDir]
           else inner_components [s])
          @ inner_components ss)"

definition good_name :: "string \<Rightarrow> bool" where
  "good_name s \<longleftrightarrow> s \<noteq> [] \<and> s \<noteq> ''.'' \<and> s \<noteq> ''..'' \<and> CHR ''/'' \<notin> set s"

lemma inner_components_good:
  "(\<And>s. s \<in> set ss \<Longrightarrow> good_name s) \<Longrightarrow> inner_components ss = map Normal ss"
  by (induction ss) (auto simp: inner_components_def good_name_def)

lemma components_join:
  assumes "ss \<noteq> []" and "\<And>s. s \<in> set ss \<Longrightarrow> good_name s"
  shows "components (join_on CHR ''/'' ss) = map Normal ss"
proof -
  have sp: "split_on CHR ''/'' (join_on CHR ''/'' ss) = ss"
    using assms by (intro split_on_join_on) (auto simp: good_name_def)
  obtain s rest where ss: "ss = s # rest" using assms(1) by (cases ss) auto
  have g: "good_name s" "\<And>t. t \<in> set rest \<Longrightarrow> good_name t"
    using assms(2) ss by auto
  then have i: "inner_components rest = map Normal rest"
    by (intro inner_components_good) auto
  from g(1) have "inner_components [s] = [Normal s]"
    by (simp add: inner_components_def good_name_def)
  with i g(1) show ?thesis
    by (simp add: components_def sp [unfolded ss] ss good_name_def)
qed

lemma components_Normal_good: "Normal s \<in> set (components p) \<Longrightarrow> good_name s"
proof -
  assume a: "Normal s \<in> set (components p)"
  have inner: "good_name s" if "Normal s \<in> set (inner_components ss)"
    "set ss \<subseteq> set (split_on CHR ''/'' p)" for ss
    using that split_on_no_seps [of s "CHR ''/''" p]
    by (auto simp: inner_components_def good_name_def split: if_splits)
  obtain t ts where sp: "split_on CHR ''/'' p = t # ts"
    by (cases "split_on CHR ''/'' p") auto
  show ?thesis
    using a inner [of "[t]"] inner [of ts] sp
    by (auto simp: components_def split: if_splits)
qed

text \<open>\<open>PathBuf: Ord\<close> compares component by component.\<close>

instantiation component :: linorder
begin

fun component_key :: "component \<Rightarrow> nat \<times> string" where
  "component_key RootDir = (0, [])"
| "component_key CurDir = (1, [])"
| "component_key ParentDir = (2, [])"
| "component_key (Normal s) = (3, s)"

definition less_eq_component :: "component \<Rightarrow> component \<Rightarrow> bool" where
  "less_eq_component a b \<longleftrightarrow>
     fst (component_key a) < fst (component_key b) \<or>
     (fst (component_key a) = fst (component_key b) \<and> snd (component_key a) \<le> snd (component_key b))"

definition less_component :: "component \<Rightarrow> component \<Rightarrow> bool" where
  "less_component a b \<longleftrightarrow> a \<le> b \<and> \<not> b \<le> a"

instance
proof
  fix a b c :: component
  show "(a < b) = (a \<le> b \<and> \<not> b \<le> a)" by (simp add: less_component_def)
  show "a \<le> a" by (simp add: less_eq_component_def)
  show "a \<le> b \<Longrightarrow> b \<le> c \<Longrightarrow> a \<le> c" by (auto simp: less_eq_component_def)
  show "a \<le> b \<Longrightarrow> b \<le> a \<Longrightarrow> a = b"
    by (cases a; cases b) (auto simp: less_eq_component_def)
  show "a \<le> b \<or> b \<le> a" by (auto simp: less_eq_component_def)
qed

end

end
