(* ===== verification/File_System.thy ===== *)
theory File_System
  imports Rust_Std "HOL-Library.Sublist"
begin

text \<open>
  The part of \<open>std::fs\<close> the code uses: \<open>create\_dir\_all\<close>, \<open>File::create\<close>, \<open>write\_all\<close> on a
  file just created, \<open>Path::join\<close>. A file system maps absolute paths (lists of names, no
  symbolic links) to nodes. An operation returns the file system it leaves also when it fails:
  a failed extraction keeps what it wrote. What the operating system may refuse (permissions,
  names too long, a full disk) is the parameter \<open>os\<close>.
\<close>

datatype fnode = FFile bytes | FDir

type_synonym path = "string list"
type_synonym fs = "path \<Rightarrow> fnode option"
type_synonym 'a fs_op = "fs \<Rightarrow> fs \<times> 'a result"

record os =
  refuse_create :: "path \<Rightarrow> bool"
  refuse_write :: "path \<Rightarrow> nat \<Rightarrow> bool"

section \<open>Sequencing\<close>

definition fs_return :: "'a \<Rightarrow> 'a fs_op" where
  "fs_return x s = (s, Inr x)"

definition fs_lift :: "'a result \<Rightarrow> 'a fs_op" where
  "fs_lift r s = (s, r)"

definition fs_bind :: "'a fs_op \<Rightarrow> ('a \<Rightarrow> 'b fs_op) \<Rightarrow> 'b fs_op" where
  "fs_bind m f s = (case m s of (s', Inl e) \<Rightarrow> (s', Inl e) | (s', Inr x) \<Rightarrow> f x s')"

lemma fs_bind_Inr: "m s = (s', Inr x) \<Longrightarrow> fs_bind m f s = f x s'"
  by (simp add: fs_bind_def)

lemma fs_bind_Inl: "m s = (s', Inl e) \<Longrightarrow> fs_bind m f s = (s', Inl e)"
  by (simp add: fs_bind_def)

lemma fs_bind_lift [simp]:
  "fs_bind (fs_lift (Inr x)) f = f x"
  "fs_bind (fs_lift (Inl e)) f = fs_lift (Inl e)"
  by (auto simp: fs_bind_def fs_lift_def)

lemma fs_bind_cong [fundef_cong]:
  "m s = m' s' \<Longrightarrow> s = s' \<Longrightarrow> (\<And>t x. m' s' = (t, Inr x) \<Longrightarrow> f x t = g x t) \<Longrightarrow>
     fs_bind m f s = fs_bind m' g s'"
  by (auto simp: fs_bind_def split: sum.splits prod.splits)

section \<open>Operations\<close>

text \<open>\<open>Path::join\<close> followed by the resolution of \<open>.\<close> and \<open>..\<close>; an absolute path replaces.\<close>

fun step_path :: "path \<Rightarrow> component \<Rightarrow> path" where
  "step_path d RootDir = []"
| "step_path d CurDir = d"
| "step_path d ParentDir = butlast d"
| "step_path d (Normal s) = d @ [s]"

definition join_path :: "path \<Rightarrow> string \<Rightarrow> path" where
  "join_path d rel = foldl step_path d (components rel)"

text \<open>A path whose last segment is \<open>.\<close> names a directory that must already be there.\<close>

definition dot_tail :: "string \<Rightarrow> bool" where
  "dot_tail rel \<longleftrightarrow> last (split_on CHR ''/'' rel) = ''.''"

definition mkdir_one :: "os \<Rightarrow> path \<Rightarrow> unit fs_op" where
  "mkdir_one os p s =
     (case s p of
        Some FDir \<Rightarrow> (s, Inr ())
      | Some (FFile _) \<Rightarrow> (s, Inl (NotADirectory p))
      | None \<Rightarrow> if refuse_create os p then (s, Inl (OpenFailed (join_on CHR ''/'' p)))
                else (s(p \<mapsto> FDir), Inr ()))"

fun mkdirs :: "os \<Rightarrow> path \<Rightarrow> path \<Rightarrow> unit fs_op" where
  "mkdirs os p [] = mkdir_one os p"
| "mkdirs os p (n # ns) = fs_bind (mkdir_one os p) (\<lambda>_. mkdirs os (p @ [n]) ns)"

definition create_dir_all :: "os \<Rightarrow> path \<Rightarrow> unit fs_op" where
  "create_dir_all os p = mkdirs os [] p"

text \<open>\<open>create\_dir\_all(d.join(rel))\<close>.\<close>

definition create_dir_join :: "os \<Rightarrow> path \<Rightarrow> string \<Rightarrow> unit fs_op" where
  "create_dir_join os d rel s =
     (let p = join_path d rel in
      if \<not> dot_tail rel then create_dir_all os p s
      else if s p = Some FDir then (s, Inr ())
      else fs_bind (create_dir_all os (butlast p)) (\<lambda>_. fs_lift (Inl (NotADirectory p))) s)"

text \<open>\<open>File::create\<close>: truncates an existing file.\<close>

definition file_create :: "os \<Rightarrow> path \<Rightarrow> unit fs_op" where
  "file_create os p s =
     (if p = [] \<or> s p = Some FDir then (s, Inl (IsADirectory p))
      else if s (butlast p) \<noteq> Some FDir then (s, Inl (NotADirectory (butlast p)))
      else if refuse_create os p then (s, Inl (OpenFailed (join_on CHR ''/'' p)))
      else (s(p \<mapsto> FFile []), Inr ()))"

text \<open>\<open>write\_all\<close> on the handle of the file just created at \<open>p\<close>, \<open>old\<close> being its contents.\<close>

definition file_append :: "os \<Rightarrow> path \<Rightarrow> bytes \<Rightarrow> bytes \<Rightarrow> unit fs_op" where
  "file_append os p old new s =
     (if refuse_write os p (length old + length new) then (s, Inl ReadFailed)
      else (s(p \<mapsto> FFile (old @ new)), Inr ()))"

section \<open>Locality\<close>

text \<open>\<open>d\<close> and its ancestors are directories.\<close>

definition dir_chain :: "path \<Rightarrow> fs \<Rightarrow> bool" where
  "dir_chain d s \<longleftrightarrow> (\<forall>q. prefix q d \<longrightarrow> s q = Some FDir)"

text \<open>An operation that, when \<open>d\<close> is there, changes nothing outside \<open>d\<close> and keeps \<open>d\<close>.\<close>

definition stays_in :: "path \<Rightarrow> 'a fs_op \<Rightarrow> bool" where
  "stays_in d m \<longleftrightarrow>
     (\<forall>s. dir_chain d s \<longrightarrow>
        dir_chain d (fst (m s)) \<and> (\<forall>p. \<not> prefix d p \<longrightarrow> fst (m s) p = s p))"

named_theorems stays_intros \<open>operations that stay in a directory\<close>

lemma stays_in_return [stays_intros]: "stays_in d (fs_return x)"
  by (simp add: stays_in_def fs_return_def)

lemma stays_in_lift [stays_intros]: "stays_in d (fs_lift r)"
  by (simp add: stays_in_def fs_lift_def)

lemma stays_inD:
  assumes "stays_in d m" and "dir_chain d s" and "m s = (s', r)"
  shows "dir_chain d s'" and "\<not> prefix d p \<Longrightarrow> s' p = s p"
  using assms unfolding stays_in_def by (metis fst_conv)+

lemma stays_inI:
  "(\<And>s s' r. dir_chain d s \<Longrightarrow> m s = (s', r) \<Longrightarrow>
      dir_chain d s' \<and> (\<forall>p. \<not> prefix d p \<longrightarrow> s' p = s p)) \<Longrightarrow> stays_in d m"
  unfolding stays_in_def by (metis prod.collapse)

lemma stays_in_bind [stays_intros]:
  assumes "stays_in d m" and "\<And>x. stays_in d (f x)"
  shows "stays_in d (fs_bind m f)"
proof (rule stays_inI)
  fix s s' r assume c: "dir_chain d s" and r: "fs_bind m f s = (s', r)"
  obtain t a where m: "m s = (t, a)" by fastforce
  note first = stays_inD [OF assms(1) c m]
  show "dir_chain d s' \<and> (\<forall>p. \<not> prefix d p \<longrightarrow> s' p = s p)"
  proof (cases a)
    case (Inl e)
    with r m have "s' = t" by (simp add: fs_bind_def)
    with first show ?thesis by blast
  next
    case (Inr x)
    with r m have "f x t = (s', r)" by (simp add: fs_bind_def)
    from stays_inD [OF assms(2) first(1) this] first(2) show ?thesis by metis
  qed
qed

lemma stays_in_mkdir_one: "prefix d p \<or> prefix p d \<Longrightarrow> stays_in d (mkdir_one os p)"
  by (rule stays_inI)
     (auto simp: mkdir_one_def dir_chain_def split: option.splits fnode.splits if_splits)

lemma stays_in_mkdirs: "prefix d p \<or> prefix p d \<and> prefix d (p @ ns) \<Longrightarrow> stays_in d (mkdirs os p ns)"
proof (induction ns arbitrary: p)
  case Nil
  then show ?case by (auto intro: stays_in_mkdir_one)
next
  case (Cons n ns)
  have d': "prefix d (p @ n # ns)" using Cons.prems by (auto simp: prefix_def)
  have "prefix d (p @ [n]) \<or> prefix (p @ [n]) d"
    using d' prefix_same_cases [of d "p @ n # ns" "p @ [n]"] by (simp add: prefix_def)
  then have "stays_in d (mkdirs os (p @ [n]) ns)"
    using d' by (intro Cons.IH) auto
  moreover have "stays_in d (mkdir_one os p)"
    using Cons.prems by (intro stays_in_mkdir_one) auto
  ultimately show ?case by (auto intro!: stays_intros)
qed

lemma stays_in_create_dir_all: "prefix d p \<Longrightarrow> stays_in d (create_dir_all os p)"
  by (auto simp: create_dir_all_def intro: stays_in_mkdirs)

lemma stays_in_create_dir_all_parent:
  "prefix d p \<Longrightarrow> stays_in d (create_dir_all os (butlast p))"
proof (cases "p = d")
  case True
  have "stays_in d (mkdirs os q ns)" if "prefix (q @ ns) d" for q ns
    using that
  proof (induction ns arbitrary: q)
    case (Cons n ns)
    have "prefix q d" using Cons.prems by (auto simp: prefix_def)
    moreover have "stays_in d (mkdirs os (q @ [n]) ns)" by (rule Cons.IH) (use Cons.prems in simp)
    ultimately show ?case by (auto intro!: stays_intros intro: stays_in_mkdir_one)
  qed (auto intro: stays_in_mkdir_one)
  moreover have "prefix (butlast d) d" by (rule prefixeq_butlast)
  ultimately show ?thesis using True by (simp add: create_dir_all_def)
next
  case False
  assume "prefix d p"
  with False have "prefix d (butlast p)"
    by (metis append_butlast_last_id butlast.simps(1) prefix_Nil prefix_snoc)
  then show ?thesis by (rule stays_in_create_dir_all)
qed

lemma stays_in_file_create: "prefix d p \<Longrightarrow> stays_in d (file_create os p)"
  by (rule stays_inI)
     (auto simp: file_create_def dir_chain_def dest: prefix_order.antisym split: if_splits)

lemma stays_in_file_append: "strict_prefix d p \<Longrightarrow> stays_in d (file_append os p old new)"
  by (rule stays_inI)
     (auto simp: file_append_def dir_chain_def dest: prefix_order.antisym split: if_splits)

lemma step_path_prefix:
  "prefix d p \<Longrightarrow> c \<noteq> ParentDir \<Longrightarrow> c \<noteq> RootDir \<Longrightarrow> prefix d (step_path p c)"
  by (cases c) auto

lemma join_path_under:
  "\<not> list_ex (\<lambda>c. c = ParentDir \<or> c = RootDir) (components rel) \<Longrightarrow> prefix d (join_path d rel)"
proof -
  have "\<not> list_ex (\<lambda>c. c = ParentDir \<or> c = RootDir) cs \<Longrightarrow> prefix d p \<Longrightarrow>
          prefix d (foldl step_path p cs)" for cs p
    by (induction cs arbitrary: p) (auto intro: step_path_prefix)
  then show "\<not> list_ex (\<lambda>c. c = ParentDir \<or> c = RootDir) (components rel) \<Longrightarrow> ?thesis"
    by (simp add: join_path_def)
qed

lemma stays_in_create_dir_join:
  assumes "prefix d (join_path d rel)"
  shows "stays_in d (create_dir_join os d rel)"
proof -
  note a = stays_in_create_dir_all [OF assms, of os]
  have "stays_in d (fs_bind (create_dir_all os (butlast (join_path d rel)))
          (\<lambda>_. fs_lift (Inl (NotADirectory (join_path d rel))) :: unit fs_op))"
    by (intro stays_intros stays_in_create_dir_all_parent assms)
  with a show ?thesis
    by (auto simp: stays_in_def create_dir_join_def Let_def)
qed

section \<open>What \<open>create\_dir\_all\<close> makes\<close>

text \<open>No ancestor of \<open>p\<close> (nor \<open>p\<close>) is a file.\<close>

definition no_file_above :: "path \<Rightarrow> fs \<Rightarrow> bool" where
  "no_file_above p s \<longleftrightarrow> (\<forall>q c. prefix q p \<longrightarrow> s q \<noteq> Some (FFile c))"

definition with_dirs :: "path \<Rightarrow> fs \<Rightarrow> fs" where
  "with_dirs p s = (\<lambda>q. if prefix q p then Some FDir else s q)"

lemma mkdirs_ok:
  assumes "\<And>q. prefix p q \<Longrightarrow> prefix q (p @ ns) \<Longrightarrow> \<not> refuse_create os q"
    and "\<And>q c. prefix p q \<Longrightarrow> prefix q (p @ ns) \<Longrightarrow> s q \<noteq> Some (FFile c)"
  shows "mkdirs os p ns s =
           ((\<lambda>q. if prefix p q \<and> prefix q (p @ ns) then Some FDir else s q), Inr ())"
  using assms
proof (induction ns arbitrary: p s)
  case Nil
  then have "mkdir_one os p s = (s(p \<mapsto> FDir), Inr ())"
    by (cases "s p") (auto simp: mkdir_one_def fun_upd_idem split: fnode.splits)
  then show ?case by (auto simp: fun_eq_iff dest: prefix_order.antisym)
next
  case (Cons n ns)
  have one: "mkdir_one os p s = (s(p \<mapsto> FDir), Inr ())"
    using Cons.prems [of p]
    by (cases "s p") (auto simp: mkdir_one_def fun_upd_idem split: fnode.splits)
  have rest: "mkdirs os (p @ [n]) ns (s(p \<mapsto> FDir)) =
      ((\<lambda>q. if prefix (p @ [n]) q \<and> prefix q ((p @ [n]) @ ns) then Some FDir
            else (s(p \<mapsto> FDir)) q), Inr ())"
  proof (rule Cons.IH)
    fix q assume q: "prefix (p @ [n]) q" "prefix q ((p @ [n]) @ ns)"
    then have pq: "prefix p q" "prefix q (p @ n # ns)" by (auto dest: append_prefixD)
    from Cons.prems(1) [OF pq] show "\<not> refuse_create os q" .
    fix c
    from Cons.prems(2) [OF pq] show "(s(p \<mapsto> FDir)) q \<noteq> Some (FFile c)" by simp
  qed
  have "prefix p q \<and> prefix q (p @ n # ns) \<longleftrightarrow>
        q = p \<or> prefix (p @ [n]) q \<and> prefix q (p @ n # ns)" for q
    by (auto simp: prefix_def Cons_eq_append_conv)
  then show ?case
    by (auto simp: fs_bind_Inr [where m = "mkdir_one os p" and s = s, OF one] rest fun_eq_iff)
qed

lemma create_dir_all_ok:
  assumes "\<And>q. prefix q p \<Longrightarrow> \<not> refuse_create os q" and "no_file_above p s"
  shows "create_dir_all os p s = (with_dirs p s, Inr ())"
  using mkdirs_ok [of "[]" p os s] assms
  by (simp add: create_dir_all_def with_dirs_def no_file_above_def)

lemma create_dir_all_Inr:
  "create_dir_all os p s = (s', Inr ()) \<Longrightarrow> s' = with_dirs p s"
proof -
  have "mkdirs os q ns s = (s', Inr ()) \<Longrightarrow>
          s' = (\<lambda>r. if prefix q r \<and> prefix r (q @ ns) then Some FDir else s r)" for q ns s
  proof (induction ns arbitrary: q s)
    case Nil
    then have "s' = s(q \<mapsto> FDir)"
      by (auto simp: mkdir_one_def fun_upd_idem split: option.splits fnode.splits if_splits)
    then show ?case by (auto simp: fun_eq_iff dest: prefix_order.antisym)
  next
    case (Cons n ns)
    from Cons.prems obtain t where t: "mkdir_one os q s = (t, Inr ())"
      and r: "mkdirs os (q @ [n]) ns t = (s', Inr ())"
      by (auto simp: fs_bind_def split: prod.splits sum.splits)
    from t have t': "t = s(q \<mapsto> FDir)"
      by (auto simp: mkdir_one_def fun_upd_idem split: option.splits fnode.splits if_splits)
    have "prefix q r \<and> prefix r (q @ n # ns) \<longleftrightarrow>
        r = q \<or> prefix (q @ [n]) r \<and> prefix r (q @ n # ns)" for r
      by (auto simp: prefix_def Cons_eq_append_conv)
    with Cons.IH [OF r] t' show ?case by (auto simp: fun_eq_iff)
  qed
  from this [of "[]"] show "create_dir_all os p s = (s', Inr ()) \<Longrightarrow> ?thesis"
    by (simp add: create_dir_all_def with_dirs_def)
qed

lemma create_dir_all_changes:
  "create_dir_all os p s = (s', r) \<Longrightarrow> s' q \<noteq> s q \<Longrightarrow> prefix q p \<and> s q = None \<and> s' q = Some FDir"
proof -
  have "mkdirs os k ns s = (s', r) \<Longrightarrow> s' q \<noteq> s q \<Longrightarrow>
          prefix q (k @ ns) \<and> s q = None \<and> s' q = Some FDir" for k ns s
  proof (induction ns arbitrary: k s)
    case Nil
    then show ?case
      by (auto simp: mkdir_one_def split: option.splits fnode.splits if_splits)
  next
    case (Cons n ns)
    obtain t a where t: "mkdir_one os k s = (t, a)" by fastforce
    have one: "t q' \<noteq> s q' \<Longrightarrow> q' = k \<and> s k = None \<and> t k = Some FDir" for q'
      using t by (auto simp: mkdir_one_def split: option.splits fnode.splits if_splits)
    show ?case
    proof (cases a)
      case (Inl e)
      with Cons.prems t have "s' = t" by (simp add: fs_bind_def)
      with one Cons.prems(2) show ?thesis by (auto simp: prefix_def)
    next
      case (Inr u)
      with Cons.prems(1) t have rest: "mkdirs os (k @ [n]) ns t = (s', r)"
        by (simp add: fs_bind_def)
      show ?thesis
      proof (cases "s' q = t q")
        case True
        with one Cons.prems(2) show ?thesis by (auto simp: prefix_def)
      next
        case False
        with Cons.IH [OF rest] one [of q] show ?thesis by (cases "t q = s q") auto
      qed
    qed
  qed
  from this [of "[]"] show "create_dir_all os p s = (s', r) \<Longrightarrow> s' q \<noteq> s q \<Longrightarrow> ?thesis"
    by (simp add: create_dir_all_def)
qed

end
