(* ===== verification/Part_Zip.thy ===== *)
theory Part_Zip
  imports Byte_Stream File_System
begin

text \<open>
  \<open>src/part_zip.rs\<close>: the streaming writer and reader of stored ZIP archives. The writer emits
  one local entry per file, then a central directory; the reader walks the local entries of a
  stream it cannot seek in and stops at the first other signature.

  Parameters: \<open>crc\<close> is the checksum of the crate \<open>crc32fast\<close> on the bytes fed to a hasher, and
  \<open>content\<close> gives what \<open>File::open\<close> and \<open>read\<close> find under a path. Lengths are \<^typ>\<open>u64\<close> where
  the code adds them up.
\<close>

unbundle bit_operations_syntax

section \<open>Constants\<close>

definition ZIP_LOCAL_FILE_HEADER_SIG :: u32 where "ZIP_LOCAL_FILE_HEADER_SIG = 0x04034b50"
definition ZIP_DATA_DESCRIPTOR_SIG :: u32 where "ZIP_DATA_DESCRIPTOR_SIG = 0x08074b50"
definition ZIP_CENTRAL_DIRECTORY_FILE_HEADER_SIG :: u32 where
  "ZIP_CENTRAL_DIRECTORY_FILE_HEADER_SIG = 0x02014b50"
definition ZIP_END_OF_CENTRAL_DIR_SIG :: u32 where "ZIP_END_OF_CENTRAL_DIR_SIG = 0x06054b50"
definition ZIP64_END_OF_CENTRAL_DIR_SIG :: u32 where
  "ZIP64_END_OF_CENTRAL_DIR_SIG = 0x06064b50"
definition ZIP64_END_OF_CENTRAL_DIR_LOCATOR_SIG :: u32 where
  "ZIP64_END_OF_CENTRAL_DIR_LOCATOR_SIG = 0x07064b50"
definition ZIP_VERSION_ZIP64 :: u16 where "ZIP_VERSION_ZIP64 = 45"
definition ZIP_FLAG_DATA_DESCRIPTOR :: u16 where "ZIP_FLAG_DATA_DESCRIPTOR = push_bit 3 1"
definition ZIP_METHOD_STORED :: u16 where "ZIP_METHOD_STORED = 0"
definition ZIP64_EXTRA_ID :: u16 where "ZIP64_EXTRA_ID = 1"

abbreviation u32_max64 :: u64 where "u32_max64 \<equiv> 0xFFFFFFFF"

lemmas zip_sig_defs =
  ZIP_LOCAL_FILE_HEADER_SIG_def ZIP_DATA_DESCRIPTOR_SIG_def
  ZIP_CENTRAL_DIRECTORY_FILE_HEADER_SIG_def ZIP_END_OF_CENTRAL_DIR_SIG_def
  ZIP64_END_OF_CENTRAL_DIR_SIG_def ZIP64_END_OF_CENTRAL_DIR_LOCATOR_SIG_def

section \<open>Names\<close>

definition validate_rel_path :: "string \<Rightarrow> unit result" where
  "validate_rel_path p =
     (if p = [] then Inl EmptyZipEntryPath
      else if list_ex (\<lambda>c. c = ParentDir \<or> c = RootDir) (components p)
      then Inl (UnsafeZipEntryPath p)
      else Inr ())"

fun normal_names :: "component list \<Rightarrow> string list" where
  "normal_names [] = []"
| "normal_names (Normal s # cs) = s # normal_names cs"
| "normal_names (_ # cs) = normal_names cs"

definition path_to_zip_name :: "string \<Rightarrow> string result" where
  "path_to_zip_name p =
     bind_r (validate_rel_path p) (\<lambda>_.
       let s = join_on CHR ''/'' (map to_string_lossy (normal_names (components p))) in
       if s = [] then Inl EmptyZipEntryName
       else if CHR 0x5C \<in> set s then Inl (BackslashInZipName s)
       else Inr s)"

section \<open>Collecting the files of a directory\<close>

record zip_file_entry =
  abs_path :: string
  rel_path :: string
  file_size :: u64

text \<open>A directory as the walk finds it; \<open>TBroken\<close> is an entry the walk cannot read.\<close>

datatype dir_tree =
    TFile bytes
  | TDir "(string \<times> dir_tree) list"
  | TSymlink
  | TOther
  | TBroken

fun walk :: "string list \<Rightarrow> dir_tree \<Rightarrow> (string list \<times> dir_tree) list" where
  "walk p (TDir es) = (p, TDir es) # concat (map (\<lambda>(n, t). walk (p @ [n]) t) es)"
| "walk p t = [(p, t)]"

fun collect_entry :: "string \<Rightarrow> string list \<times> dir_tree \<Rightarrow> zip_file_entry list result" where
  "collect_entry dir (p, TBroken) = Inl WalkFailed"
| "collect_entry dir (p, TSymlink) = Inl (SymlinkNotSupported (join_on CHR ''/'' (dir # p)))"
| "collect_entry dir (p, TFile c) =
     (let rel = join_on CHR ''/'' p in
      bind_r (validate_rel_path rel) (\<lambda>_.
        Inr [\<lparr>abs_path = join_on CHR ''/'' (dir # p), rel_path = rel,
              file_size = word_of_nat (length c)\<rparr>]))"
| "collect_entry dir (p, TDir es) = Inr []"
| "collect_entry dir (p, TOther) = Inr []"

definition collect_files :: "string \<Rightarrow> dir_tree \<Rightarrow> zip_file_entry list result" where
  "collect_files dir t =
     bind_r (map_r (collect_entry dir) (walk [] t)) (\<lambda>ess.
       Inr (sort_key (\<lambda>f. components (rel_path f)) (concat ess)))"

section \<open>The size estimate\<close>

definition entry_estimate :: "zip_file_entry \<Rightarrow> u64" where
  "entry_estimate f =
     (let name_len = (case path_to_zip_name (rel_path f) of Inl _ \<Rightarrow> 0
                      | Inr s \<Rightarrow> word_of_nat (length s));
          zip64 = u32_max64 < file_size f;
          extra_local = (if zip64 then 4 + 16 else 0);
          extra_central = (if zip64 then 4 + 24 else 0)
      in (30 + name_len + extra_local) + file_size f + (if zip64 then 24 else 16)
         + (46 + name_len + extra_central))"

definition estimate_zip_size :: "zip_file_entry list \<Rightarrow> u64" where
  "estimate_zip_size files =
     foldl (\<lambda>total f. total + entry_estimate f) 0 files + 22
     + (if 65535 < length files then 56 + 20 else 0)"

section \<open>The writer\<close>

definition build_zip64_extra_local :: "u64 \<Rightarrow> u64 \<Rightarrow> bytes" where
  "build_zip64_extra_local compressed uncompressed =
     write_u16 ZIP64_EXTRA_ID @ write_u16 16 @ write_u64 uncompressed @ write_u64 compressed"

definition build_zip64_extra_central :: "u64 \<Rightarrow> u64 \<Rightarrow> u64 \<Rightarrow> bytes" where
  "build_zip64_extra_central compressed uncompressed offset =
     write_u16 ZIP64_EXTRA_ID @ write_u16 24 @ write_u64 uncompressed @ write_u64 compressed
     @ write_u64 offset"

text \<open>\<open>usize::try_into::<u16>\<close>.\<close>

definition try_u16 :: "error \<Rightarrow> nat \<Rightarrow> u16 result" where
  "try_u16 e n = (if n \<le> 65535 then Inr (word_of_nat n) else Inl e)"

text \<open>The local header after its signature: what \<open>read_local_header\<close> reads.\<close>

definition local_sizes :: "bool \<Rightarrow> u64 \<Rightarrow> bytes" where
  "local_sizes needs_zip64 sz =
     (if needs_zip64 then write_u32 0xFFFFFFFF @ write_u32 0xFFFFFFFF
      else write_u32 (ucast sz) @ write_u32 (ucast sz))"

definition local_header_fields :: "bool \<Rightarrow> u64 \<Rightarrow> u16 \<Rightarrow> u16 \<Rightarrow> bytes \<Rightarrow> bytes \<Rightarrow> bytes" where
  "local_header_fields needs_zip64 sz name_len extra_len name extra =
     write_u16 ZIP_VERSION_ZIP64 @ write_u16 ZIP_FLAG_DATA_DESCRIPTOR
     @ write_u16 ZIP_METHOD_STORED @ write_u16 0 @ write_u16 0 @ write_u32 0
     @ local_sizes needs_zip64 sz
     @ write_u16 name_len @ write_u16 extra_len @ name @ extra"

text \<open>\<open>read\<close> of a regular file with a buffer of \<open>buf\<close> bytes, until \<open>remaining\<close> bytes are copied.\<close>

function stream_file :: "string \<Rightarrow> nat \<Rightarrow> nat \<Rightarrow> bytes \<Rightarrow> bytes result" where
  "stream_file path buf remaining rest =
     (if remaining = 0 then Inr []
      else let chunk = take (min buf remaining) rest in
        if chunk = [] then Inl (UnexpectedEofReading path remaining)
        else bind_r (stream_file path buf (remaining - length chunk) (drop (length chunk) rest))
               (\<lambda>more. Inr (chunk @ more)))"
  by pat_completeness auto
termination
  by (relation "measure (\<lambda>(p, b, remaining, r). remaining)") auto

declare stream_file.simps [simp del]

definition data_descriptor :: "bool \<Rightarrow> u32 \<Rightarrow> u64 \<Rightarrow> bytes" where
  "data_descriptor needs_zip64 crc32 sz =
     write_u32 ZIP_DATA_DESCRIPTOR_SIG @ write_u32 crc32
     @ (if needs_zip64 then write_u64 sz @ write_u64 sz
        else write_u32 (ucast sz) @ write_u32 (ucast sz))"

record central_entry =
  ce_name :: bytes
  ce_crc32 :: u32
  ce_size :: u64
  ce_offset :: u64
  ce_zip64 :: bool

record zip_writer =
  zw_out :: bytes
  zw_offset :: u64
  zw_central :: "central_entry list"

definition write_entry ::
  "(bytes \<Rightarrow> u32) \<Rightarrow> (string \<Rightarrow> bytes option) \<Rightarrow> zip_writer \<Rightarrow> zip_file_entry \<Rightarrow> zip_writer result"
where
  "write_entry crc content w f =
     bind_r (path_to_zip_name (rel_path f)) (\<lambda>name.
     let name_bytes = as_bytes name;
         sz = file_size f;
         needs_zip64 = (u32_max64 < sz \<or> u32_max64 < zw_offset w);
         local_extra = (if needs_zip64 then build_zip64_extra_local sz sz else [])
     in
     bind_r (try_u16 ZipNameTooLong (length name_bytes)) (\<lambda>name_len.
     bind_r (try_u16 ZipExtraTooLong (length local_extra)) (\<lambda>extra_len.
     case content (abs_path f) of None \<Rightarrow> Inl (OpenFailed (abs_path f))
     | Some c \<Rightarrow>
     bind_r (stream_file (abs_path f) 4194304 (unat sz) c) (\<lambda>data.
     let crc32 = crc data in
     Inr \<lparr>zw_out = zw_out w @ write_u32 ZIP_LOCAL_FILE_HEADER_SIG
            @ local_header_fields needs_zip64 sz name_len extra_len name_bytes local_extra
            @ data @ data_descriptor needs_zip64 crc32 sz,
          zw_offset = zw_offset w
            + (30 + word_of_nat (length name_bytes) + word_of_nat (length local_extra))
            + word_of_nat (length data) + (if needs_zip64 then 24 else 16),
          zw_central = zw_central w @
            [\<lparr>ce_name = name_bytes, ce_crc32 = crc32, ce_size = sz,
              ce_offset = zw_offset w, ce_zip64 = needs_zip64\<rparr>]\<rparr>))))"

definition write_central :: "bytes \<times> u64 \<Rightarrow> central_entry \<Rightarrow> (bytes \<times> u64) result" where
  "write_central w c =
     (let needs_zip64 = (ce_zip64 c \<or> u32_max64 < ce_offset c);
          central_extra = (if needs_zip64
            then build_zip64_extra_central (ce_size c) (ce_size c) (ce_offset c) else [])
      in
      bind_r (try_u16 ZipNameTooLong (length (ce_name c))) (\<lambda>name_len.
      bind_r (try_u16 ZipExtraTooLong (length central_extra)) (\<lambda>extra_len.
      Inr (fst w
           @ write_u32 ZIP_CENTRAL_DIRECTORY_FILE_HEADER_SIG
           @ write_u16 ZIP_VERSION_ZIP64 @ write_u16 ZIP_VERSION_ZIP64
           @ write_u16 ZIP_FLAG_DATA_DESCRIPTOR @ write_u16 ZIP_METHOD_STORED
           @ write_u16 0 @ write_u16 0 @ write_u32 (ce_crc32 c)
           @ local_sizes needs_zip64 (ce_size c)
           @ write_u16 name_len @ write_u16 extra_len
           @ write_u16 0 @ write_u16 0 @ write_u16 0 @ write_u32 0
           @ (if needs_zip64 then write_u32 0xFFFFFFFF else write_u32 (ucast (ce_offset c)))
           @ ce_name c @ central_extra,
           snd w + (46 + word_of_nat (length (ce_name c)) + word_of_nat (length central_extra))))))"

definition write_eocd :: "u64 \<Rightarrow> u64 \<Rightarrow> u64 \<Rightarrow> bytes \<times> u64" where
  "write_eocd file_count central_dir_offset central_dir_size =
     (let needs_zip64_eocd = (65535 < file_count \<or> u32_max64 < central_dir_offset
                              \<or> u32_max64 < central_dir_size);
          zip64_records =
            write_u32 ZIP64_END_OF_CENTRAL_DIR_SIG @ write_u64 44
            @ write_u16 ZIP_VERSION_ZIP64 @ write_u16 ZIP_VERSION_ZIP64
            @ write_u32 0 @ write_u32 0 @ write_u64 file_count @ write_u64 file_count
            @ write_u64 central_dir_size @ write_u64 central_dir_offset
            @ write_u32 ZIP64_END_OF_CENTRAL_DIR_LOCATOR_SIG @ write_u32 0
            @ write_u64 (central_dir_offset + central_dir_size) @ write_u32 1
      in ((if needs_zip64_eocd then zip64_records else [])
          @ write_u32 ZIP_END_OF_CENTRAL_DIR_SIG @ write_u16 0 @ write_u16 0
          @ (if needs_zip64_eocd
             then write_u16 0xFFFF @ write_u16 0xFFFF @ write_u32 0xFFFFFFFF @ write_u32 0xFFFFFFFF
             else write_u16 (ucast file_count) @ write_u16 (ucast file_count)
                  @ write_u32 (ucast central_dir_size) @ write_u32 (ucast central_dir_offset))
          @ write_u16 0,
          (if needs_zip64_eocd then 56 + 20 else 0) + 22))"

definition write_zip ::
  "(bytes \<Rightarrow> u32) \<Rightarrow> (string \<Rightarrow> bytes option) \<Rightarrow> zip_file_entry list \<Rightarrow> (bytes \<times> u64) result"
where
  "write_zip crc content files =
     bind_r (fold_r (write_entry crc content) \<lparr>zw_out = [], zw_offset = 0, zw_central = []\<rparr> files)
       (\<lambda>w.
        let central_dir_offset = zw_offset w in
        bind_r (fold_r write_central (zw_out w, zw_offset w) (zw_central w)) (\<lambda>(out, offset).
          let central_dir_size = offset - central_dir_offset;
              (tail, len) = write_eocd (word_of_nat (length (zw_central w)))
                              central_dir_offset central_dir_size
          in Inr (out @ tail, offset + len)))"

section \<open>The reader\<close>

text \<open>The scan of the extra field; a field that overruns the buffer ends it.\<close>

function parse_zip64_sizes_from_extra :: "bytes \<Rightarrow> (u64 \<times> u64) result" where
  "parse_zip64_sizes_from_extra extra =
     (if length extra < 4 then Inl Zip64SizesMissing
      else
        let fid = le_val (take 2 extra);
            len = le_val (take 2 (drop 2 extra));
            rest = drop 4 extra
        in
        if length rest < len then Inl Zip64SizesMissing
        else if fid = unat ZIP64_EXTRA_ID then
          (if len < 16 then Inl (InvalidZip64ExtraLength len)
           else Inr (word_of_nat (le_val (take 8 (drop 8 rest))),
                     word_of_nat (le_val (take 8 rest))))
        else parse_zip64_sizes_from_extra (drop len rest))"
  by pat_completeness auto
termination
  by (relation "measure length") auto

declare parse_zip64_sizes_from_extra.simps [simp del]

record local_header =
  lh_name :: string
  lh_crc32 :: u32
  lh_compressed :: u64
  lh_uncompressed :: u64
  lh_zip64 :: bool
  lh_flags :: u16

definition decode_sizes :: "u32 \<Rightarrow> u32 \<Rightarrow> bytes \<Rightarrow> (bool \<times> u64 \<times> u64) result" where
  "decode_sizes csize usize extra =
     (if csize = 0xFFFFFFFF \<or> usize = 0xFFFFFFFF
      then bind_r (parse_zip64_sizes_from_extra extra) (\<lambda>(c, u). Inr (True, c, u))
      else Inr (False, ucast csize, ucast usize))"

definition plift :: "'a result \<Rightarrow> 'a parser" where
  "plift x r = bind_r x (\<lambda>v. Inr (v, r))"

text \<open>The body of the arm \<open>ZIP\_LOCAL\_FILE\_HEADER\_SIG\<close> up to the zip64 sizes.\<close>

definition check_local_header ::
  "u16 \<Rightarrow> u16 \<Rightarrow> u32 \<Rightarrow> u32 \<Rightarrow> u32 \<Rightarrow> string \<Rightarrow> bytes \<Rightarrow> local_header parser"
where
  "check_local_header flags zmethod header_crc32 csize usize name extra =
     (if zmethod \<noteq> ZIP_METHOD_STORED then pfail (UnsupportedZipMethod zmethod)
      else pbind (plift (decode_sizes csize usize extra)) (\<lambda>(zip64, c, u).
        preturn \<lparr>lh_name = name, lh_crc32 = header_crc32, lh_compressed = c,
                 lh_uncompressed = u, lh_zip64 = zip64, lh_flags = flags\<rparr>))"

definition read_local_header :: "local_header parser" where
  "read_local_header =
     pbind read_u16 (\<lambda>version_needed.
     pbind read_u16 (\<lambda>flags.
     pbind read_u16 (\<lambda>zmethod.
     pbind read_u16 (\<lambda>mod_time.
     pbind read_u16 (\<lambda>mod_date.
     pbind read_u32 (\<lambda>header_crc32.
     pbind read_u32 (\<lambda>csize.
     pbind read_u32 (\<lambda>usize.
     pbind read_u16 (\<lambda>name_len.
     pbind read_u16 (\<lambda>extra_len.
     pbind (read_exact (unat name_len)) (\<lambda>name_bytes.
     case from_utf8 name_bytes of
       None \<Rightarrow> pfail ZipNameNotUtf8
     | Some name \<Rightarrow>
         pbind (read_exact (unat extra_len)) (\<lambda>extra.
           check_local_header flags zmethod header_crc32 csize usize name extra))))))))))))"

definition read_dd_sizes :: "bool \<Rightarrow> u32 \<Rightarrow> (u32 \<times> u64 \<times> u64) parser" where
  "read_dd_sizes zip64 crc32 =
     (if zip64 then
        pbind read_u64 (\<lambda>csize. pbind read_u64 (\<lambda>usize. preturn (crc32, csize, usize)))
      else
        pbind read_u32 (\<lambda>csize. pbind read_u32 (\<lambda>usize.
          preturn (crc32, ucast csize, ucast usize))))"

definition read_data_descriptor :: "bool \<Rightarrow> (u32 \<times> u64 \<times> u64) parser" where
  "read_data_descriptor zip64 =
     pbind read_u32 (\<lambda>first.
       if first = ZIP_DATA_DESCRIPTOR_SIG then pbind read_u32 (\<lambda>crc32. read_dd_sizes zip64 crc32)
       else read_dd_sizes zip64 first)"

text \<open>
  The copy loop: the file at \<open>p\<close> holds \<open>acc\<close>, which is also what the hasher has seen. Returns
  the reader and the hashed bytes.
\<close>

function copy_data ::
  "os \<Rightarrow> string \<Rightarrow> path \<Rightarrow> nat \<Rightarrow> bytes \<Rightarrow> reader \<Rightarrow> (bytes \<times> reader) fs_op"
where
  "copy_data os name p remaining acc r =
     (if remaining = 0 then fs_return (acc, r)
      else fs_bind (fs_lift (read_some (min 1048576 remaining) r)) (\<lambda>(chunk, r').
        if chunk = [] then fs_lift (Inl (UnexpectedEofZipData name))
        else fs_bind (file_append os p acc chunk) (\<lambda>_.
          copy_data os name p (remaining - length chunk) (acc @ chunk) r')))"
  by pat_completeness auto
termination
  by (relation "measure (\<lambda>(os, name, p, remaining, acc, r). remaining)") auto

declare copy_data.simps [simp del]

definition trim_end_slashes :: "string \<Rightarrow> string" where
  "trim_end_slashes s = rev (dropWhile (\<lambda>c. c = CHR ''/'') (rev s))"

definition ends_with_slash :: "string \<Rightarrow> bool" where
  "ends_with_slash s \<longleftrightarrow> s \<noteq> [] \<and> last s = CHR ''/''"

definition finish_entry ::
  "(bytes \<Rightarrow> u32) \<Rightarrow> local_header \<Rightarrow> bytes \<Rightarrow> reader \<Rightarrow> reader result"
where
  "finish_entry crc h data r =
     (let has_dd = (lh_flags h AND ZIP_FLAG_DATA_DESCRIPTOR \<noteq> 0) in
      bind_r (if has_dd then read_data_descriptor (lh_zip64 h) r
              else Inr ((lh_crc32 h, lh_compressed h, lh_uncompressed h), r))
        (\<lambda>((crc32, dd_csize, dd_usize), r').
          if crc32 \<noteq> crc data then Inl (CrcMismatch (lh_name h) crc32 (crc data))
          else if dd_csize \<noteq> lh_compressed h \<or> dd_usize \<noteq> lh_uncompressed h
          then Inl (ZipSizeMismatch (lh_name h))
          else Inr r'))"

text \<open>The rest of the arm: the names, the copy and the checks after it.\<close>

definition extract_entry ::
  "os \<Rightarrow> (bytes \<Rightarrow> u32) \<Rightarrow> path \<Rightarrow> local_header \<Rightarrow> reader \<Rightarrow> reader fs_op"
where
  "extract_entry os crc dest_dir h r =
     (let name = lh_name h in
      if ends_with_slash name then
        let rel = trim_end_slashes name in
        fs_bind (fs_lift (validate_rel_path rel)) (\<lambda>_.
        fs_bind (create_dir_join os dest_dir rel) (\<lambda>_.
        fs_return r))
      else
        fs_bind (fs_lift (validate_rel_path name)) (\<lambda>_.
        let out_path = join_path dest_dir name in
        fs_bind (create_dir_all os (butlast out_path)) (\<lambda>_.
        fs_bind (if dot_tail name then fs_lift (Inl (IsADirectory out_path))
                 else file_create os out_path) (\<lambda>_.
        fs_bind (copy_data os name out_path (unat (lh_compressed h)) [] r) (\<lambda>(data, r').
        fs_lift (finish_entry crc h data r'))))))"

definition zip_end_sigs :: "u32 list" where
  "zip_end_sigs =
     [ZIP_CENTRAL_DIRECTORY_FILE_HEADER_SIG, ZIP_END_OF_CENTRAL_DIR_SIG,
      ZIP64_END_OF_CENTRAL_DIR_SIG, ZIP64_END_OF_CENTRAL_DIR_LOCATOR_SIG]"

subsection \<open>Every entry consumes input\<close>

lemma shrinks_plift [intro]: "shrinks (plift x) 0"
  by (auto simp: shrinks_def plift_def bind_r_Inr_iff)

lemma shrinks_read_exact [intro]: "shrinks (read_exact n) 0"
  by (rule consumes_shrinks [OF consumes_read_exact])

lemmas shrinks_intros =
  shrinks_return shrinks_fail shrinks_bind0 shrinks_if shrinks_plift shrinks_read_exact
  c16.get_shrinks c32.get_shrinks c64.get_shrinks

lemma shrinks_read_local_header: "shrinks read_local_header 0"
  unfolding read_local_header_def check_local_header_def
  by (intro shrinks_intros | simp split: option.split prod.split | intro conjI impI allI)+

lemma shrinks_data_descriptor: "shrinks (read_data_descriptor z) 0"
  unfolding read_data_descriptor_def read_dd_sizes_def
  by (intro shrinks_intros)+

lemma fs_bind_InrE:
  assumes "fs_bind m f s = (s', Inr y)"
  obtains t x where "m s = (t, Inr x)" and "f x t = (s', Inr y)"
  using assms by (auto simp: fs_bind_def split: prod.splits sum.splits)

lemma copy_data_0 [simp]: "copy_data os name p 0 acc r = fs_return (acc, r)"
  by (simp add: copy_data.simps)

lemma copy_data_shrinks:
  "copy_data os name p n acc r s = (s', Inr (data, r')) \<Longrightarrow>
     length (pending r') \<le> length (pending r) \<and> snd r' = snd r"
proof (induction os name p n acc r arbitrary: s rule: copy_data.induct)
  case (1 os name p n acc r)
  show ?case
  proof (cases "n = 0")
    case True
    with "1.prems" show ?thesis by (simp add: fs_return_def)
  next
    case False
    with "1.prems" obtain b r1 where rs: "read_some (min 1048576 n) r = Inr (b, r1)"
      by (cases "read_some (min 1048576 n) r")
         (auto simp: copy_data.simps [of os name p n] fs_bind_def fs_lift_def split: prod.splits)
    have b: "b \<noteq> []"
      using "1.prems" False rs
      by (auto simp: copy_data.simps [of os name p n] fs_bind_def fs_lift_def)
    from "1.prems" False rs b obtain t where
      "copy_data os name p (n - length b) (acc @ b) r1 t = (s', Inr (data, r'))"
      by (auto simp: copy_data.simps [of os name p n] elim: fs_bind_InrE)
    from "1.IH" [OF False b this] read_some_Inr [OF rs] show ?thesis by auto
  qed
qed

lemma extract_entry_shrinks:
  "extract_entry os crc d h r s = (s', Inr r') \<Longrightarrow> length (pending r') \<le> length (pending r)"
proof (cases "ends_with_slash (lh_name h)")
  case True
  assume "extract_entry os crc d h r s = (s', Inr r')"
  with True show ?thesis
    by (auto simp: extract_entry_def Let_def fs_return_def elim!: fs_bind_InrE)
next
  case False
  assume "extract_entry os crc d h r s = (s', Inr r')"
  with False obtain t u data r1 where
    c: "copy_data os (lh_name h) (join_path d (lh_name h)) (unat (lh_compressed h)) [] r t
          = (u, Inr (data, r1))" and f: "finish_entry crc h data r1 = Inr r'"
    by (auto simp: extract_entry_def Let_def fs_lift_def elim!: fs_bind_InrE)
  from f have "length (pending r') \<le> length (pending r1)"
    by (auto simp: finish_entry_def Let_def bind_r_Inr_iff split: if_splits
             dest: shrinksD [OF shrinks_data_descriptor])
  with copy_data_shrinks [OF c] show ?thesis by simp
qed

subsection \<open>The loop\<close>

function extract_loop ::
  "os \<Rightarrow> (bytes \<Rightarrow> u32) \<Rightarrow> path \<Rightarrow> reader \<Rightarrow> unit fs_op"
where
  "extract_loop os crc dest_dir r s =
     (case read_u32_opt r of
        Inl e \<Rightarrow> (s, Inl e)
      | Inr (None, r') \<Rightarrow> (s, Inr ())
      | Inr (Some sig, r') \<Rightarrow>
          if sig = ZIP_LOCAL_FILE_HEADER_SIG then
            (case read_local_header r' of
               Inl e \<Rightarrow> (s, Inl e)
             | Inr (h, r'') \<Rightarrow>
                 (case extract_entry os crc dest_dir h r'' s of
                    (s', Inl e) \<Rightarrow> (s', Inl e)
                  | (s', Inr r3) \<Rightarrow> extract_loop os crc dest_dir r3 s'))
          else if sig \<in> set zip_end_sigs then (s, Inr ())
          else (s, Inl (UnexpectedZipSignature sig)))"
  by pat_completeness auto
termination
  by (relation "measure (\<lambda>(os, crc, d, r, s). length (pending r))")
     (simp, drule sym [where t = "extract_entry _ _ _ _ _ _"], hypsubst,
      drule read_u32_opt_Some, drule shrinksD [OF shrinks_read_local_header],
      drule extract_entry_shrinks, simp)

declare extract_loop.simps [simp del]

definition extract_zip ::
  "os \<Rightarrow> (bytes \<Rightarrow> u32) \<Rightarrow> reader \<Rightarrow> path \<Rightarrow> unit fs_op"
where
  "extract_zip os crc reader dest_dir =
     fs_bind (create_dir_all os dest_dir) (\<lambda>_. extract_loop os crc dest_dir reader)"

end
