(* ===== verification/Part_Zip_Props.thy ===== *)
theory Part_Zip_Props
  imports Part_Zip
begin

text \<open>
  Theorems about \<open>Part_Zip\<close>: extraction stays in its directory, does not see how the stream is
  chunked, and undoes the writer; the size estimate against the size written.
\<close>

section \<open>Confinement\<close>

lemma validate_rel_path_ok:
  "validate_rel_path p = Inr u \<longleftrightarrow>
     p \<noteq> [] \<and> \<not> list_ex (\<lambda>c. c = ParentDir \<or> c = RootDir) (components p)"
  by (simp add: validate_rel_path_def)

lemma stays_in_validated:
  assumes "validate_rel_path p = Inr () \<Longrightarrow> stays_in d m"
  shows "stays_in d (fs_bind (fs_lift (validate_rel_path p)) (\<lambda>_. m))"
  using assms by (cases "validate_rel_path p") (auto intro: stays_intros)

lemma stays_in_copy_data:
  "strict_prefix d p \<Longrightarrow> stays_in d (copy_data os name p n acc r)"
proof (induction os name p n acc r rule: copy_data.induct)
  case (1 os name p n acc r)
  show ?case
  proof (cases "n = 0")
    case False
    show ?thesis
    proof (cases "read_some (min 1048576 n) r")
      case (Inl e)
      with False show ?thesis by (simp add: copy_data.simps [of os name p n] stays_in_lift)
    next
      case (Inr br)
      obtain b r1 where br: "br = (b, r1)" by (cases br)
      show ?thesis
      proof (cases "b = []")
        case True
        with False Inr br show ?thesis
          by (simp add: copy_data.simps [of os name p n] stays_in_lift)
      next
        case nonempty: False
        have "stays_in d (copy_data os name p (n - length b) (acc @ b) r1)"
          using "1.IH" [OF False nonempty "1.prems"] .
        then have "stays_in d (fs_bind (file_append os p acc b)
            (\<lambda>_. copy_data os name p (n - length b) (acc @ b) r1))"
          using "1.prems" by (intro stays_intros stays_in_file_append)
        with False Inr br nonempty show ?thesis by (simp add: copy_data.simps [of os name p n])
      qed
    qed
  qed (simp add: stays_in_return)
qed

lemma stays_in_if_pure:
  "stays_in d f \<Longrightarrow> stays_in d g \<Longrightarrow> stays_in d (if b then f else g)"
  by simp

text \<open>When the resolved path is \<open>d\<close> itself, \<open>File::create\<close> fails: it is a directory.\<close>

lemma stays_in_create_and_copy:
  assumes "prefix d p"
  shows "stays_in d (fs_bind (if b then fs_lift (Inl e) else file_create os p) (\<lambda>_.
           fs_bind (copy_data os name p n [] r) (\<lambda>(data, r'). fs_lift (g data r'))))"
proof (cases "p = d")
  case False
  with assms have "strict_prefix d p" by (simp add: strict_prefix_def)
  then have c: "stays_in d (fs_bind (copy_data os name p n [] r) (\<lambda>(data, r'). fs_lift (g data r')))"
    by (intro stays_in_bind stays_in_copy_data) (auto simp: case_prod_beta intro: stays_in_lift)
  have "stays_in d (if b then fs_lift (Inl e) else file_create os p)"
    using assms by (intro stays_in_if_pure stays_in_lift stays_in_file_create)
  then show ?thesis by (rule stays_in_bind) (rule c)
next
  case True
  show ?thesis
  proof (rule stays_inI)
    fix s s' res
    assume c: "dir_chain d s"
      and m: "fs_bind (if b then fs_lift (Inl e) else file_create os p) (\<lambda>_.
           fs_bind (copy_data os name p n [] r) (\<lambda>(data, r'). fs_lift (g data r'))) s = (s', res)"
    from c True have "s p = Some FDir" by (simp add: dir_chain_def)
    with m have "s' = s"
      by (auto simp: fs_bind_def fs_lift_def file_create_def split: if_splits)
    with c show "dir_chain d s' \<and> (\<forall>p. \<not> prefix d p \<longrightarrow> s' p = s p)" by simp
  qed
qed

lemma stays_in_extract_entry: "stays_in d (extract_entry os crc d h r)"
proof (cases "ends_with_slash (lh_name h)")
  case True
  let ?rel = "trim_end_slashes (lh_name h)"
  have "stays_in d (fs_bind (fs_lift (validate_rel_path ?rel)) (\<lambda>_.
          fs_bind (create_dir_join os d ?rel) (\<lambda>_. fs_return r)))"
  proof (rule stays_in_validated)
    assume "validate_rel_path ?rel = Inr ()"
    then have "prefix d (join_path d ?rel)"
      unfolding validate_rel_path_ok by (intro join_path_under) auto
    then show "stays_in d (fs_bind (create_dir_join os d ?rel) (\<lambda>_. fs_return r))"
      by (intro stays_intros stays_in_create_dir_join)
  qed
  with True show ?thesis by (simp add: extract_entry_def Let_def)
next
  case False
  let ?p = "join_path d (lh_name h)"
  show ?thesis
    unfolding extract_entry_def Let_def if_not_P [OF False]
  proof (rule stays_in_validated)
    assume "validate_rel_path (lh_name h) = Inr ()"
    then have u: "prefix d ?p"
      unfolding validate_rel_path_ok by (intro join_path_under) auto
    show "stays_in d (fs_bind (create_dir_all os (butlast ?p)) (\<lambda>_.
            fs_bind (if dot_tail (lh_name h) then fs_lift (Inl (IsADirectory ?p))
                     else file_create os ?p) (\<lambda>_.
            fs_bind (copy_data os (lh_name h) ?p (unat (lh_compressed h)) [] r)
              (\<lambda>(data, r'). fs_lift (finish_entry crc h data r')))))"
      by (rule stays_in_bind [OF stays_in_create_dir_all_parent [OF u]
            stays_in_create_and_copy [OF u]])
  qed
qed

lemma stays_in_extract_loop: "stays_in d (extract_loop os crc d r)"
proof (rule stays_inI)
  fix s s' res
  assume "dir_chain d s" and "extract_loop os crc d r s = (s', res)"
  then show "dir_chain d s' \<and> (\<forall>p. \<not> prefix d p \<longrightarrow> s' p = s p)"
  proof (induction os crc d r s rule: extract_loop.induct)
    case (1 os crc d r s)
    note l = extract_loop.simps [of os crc d r s]
    show ?case
    proof (cases "\<exists>sig r' h r'' s2 r3. read_u32_opt r = Inr (Some sig, r')
        \<and> sig = ZIP_LOCAL_FILE_HEADER_SIG \<and> read_local_header r' = Inr (h, r'')
        \<and> extract_entry os crc d h r'' s = (s2, Inr r3)")
      case True
      then obtain sig r' h r'' s2 r3 where
        a: "read_u32_opt r = Inr (Some sig, r')" "sig = ZIP_LOCAL_FILE_HEADER_SIG"
           "read_local_header r' = Inr (h, r'')" "extract_entry os crc d h r'' s = (s2, Inr r3)"
        by blast
      from stays_inD [OF stays_in_extract_entry "1.prems"(1) a(4)]
      have s2: "dir_chain d s2" "\<And>p. \<not> prefix d p \<Longrightarrow> s2 p = s p" by blast+
      have "extract_loop os crc d r3 s2 = (s', res)" using "1.prems"(2) a l by simp
      from "1.IH" [OF a(1) refl refl a(2,3) refl a(4) [symmetric] refl s2(1) this] s2(2)
      show ?thesis by metis
    next
      case False
      then have "s' = s \<or> (\<exists>h r'' e. extract_entry os crc d h r'' s = (s', Inl e))"
        using "1.prems"(2) l
        by (auto split: sum.splits option.splits if_splits prod.splits)
      then show ?thesis
        using "1.prems"(1) stays_inD [OF stays_in_extract_entry "1.prems"(1)] by metis
    qed
  qed
qed

lemma create_dir_all_chain:
  "create_dir_all os p s = (s', Inr ()) \<Longrightarrow> dir_chain p s'"
  by (drule create_dir_all_Inr) (simp add: dir_chain_def with_dirs_def)

lemma extract_zip_outside:
  assumes "extract_zip os crc r d s = (s', res)" and "\<not> prefix d p"
  shows "s' p = s p \<or> strict_prefix p d \<and> s p = None \<and> s' p = Some FDir"
proof -
  obtain t a where c: "create_dir_all os d s = (t, a)" by fastforce
  have tp: "t p = s p \<or> strict_prefix p d \<and> s p = None \<and> t p = Some FDir"
    using create_dir_all_changes [OF c, of p] assms(2) by (auto simp: strict_prefix_def)
  show ?thesis
  proof (cases a)
    case (Inl e)
    with c assms(1) have "s' = t" by (simp add: extract_zip_def fs_bind_def)
    with tp show ?thesis by simp
  next
    case (Inr u)
    with c assms(1) have "extract_loop os crc d r t = (s', res)"
      by (simp add: extract_zip_def fs_bind_def)
    from stays_inD(2) [OF stays_in_extract_loop _ this assms(2)]
      create_dir_all_chain [of os d s t] c Inr
    have "s' p = t p" by simp
    with tp show ?thesis by simp
  qed
qed

section \<open>The copy loop in closed form\<close>

definition permits :: "os \<Rightarrow> bool" where
  "permits os \<longleftrightarrow> (\<forall>p. \<not> refuse_create os p) \<and> (\<forall>p n. \<not> refuse_write os p n)"

definition allow_all :: os where
  "allow_all = \<lparr>refuse_create = \<lambda>_. False, refuse_write = \<lambda>_ _. False\<rparr>"

lemma permits_allow_all [simp]: "permits allow_all"
  by (simp add: permits_def allow_all_def)

lemma file_append_ok:
  "permits os \<Longrightarrow> file_append os p old new s = (s(p \<mapsto> FFile (old @ new)), Inr ())"
  by (simp add: file_append_def permits_def)

lemma copy_data_step:
  assumes "n \<noteq> 0" and "read_some (min 1048576 n) r = Inr (b, r1)" and "b \<noteq> []" and "permits os"
  shows "copy_data os name p n acc r s =
           copy_data os name p (n - length b) (acc @ b) r1 (s(p \<mapsto> FFile (acc @ b)))"
  using assms
  by (simp add: copy_data.simps [of os name p n]
      fs_bind_Inr [where m = "file_append os p acc b" and s = s, OF file_append_ok])

lemma copy_data_enough:
  "permits os \<Longrightarrow> s p = Some (FFile acc) \<Longrightarrow> n \<le> length (pending r) \<Longrightarrow>
     \<exists>r'. copy_data os name p n acc r s
            = (s(p \<mapsto> FFile (acc @ take n (pending r))), Inr (acc @ take n (pending r), r'))
          \<and> pending r' = drop n (pending r) \<and> snd r' = snd r"
proof (induction os name p n acc r arbitrary: s rule: copy_data.induct)
  case (1 os name p n acc r)
  show ?case
  proof (cases "n = 0")
    case True
    with "1.prems" show ?thesis
      by (intro exI [of _ r]) (auto simp: fs_return_def fun_eq_iff)
  next
    case False
    with "1.prems" have pe: "pending r \<noteq> []" by auto
    from read_some_pending [OF this] obtain b r1 where
      rs: "read_some (min 1048576 n) r = Inr (b, r1)" by blast
    note i = read_some_Inr [OF rs]
    with pe False have b: "b \<noteq> []" by auto
    have "n - length b \<le> length (pending r1)" using i "1.prems"(3) by auto
    define s1 where "s1 = s(p \<mapsto> FFile (acc @ b))"
    then have s1: "s1 p = Some (FFile (acc @ b))" "\<And>v. s1(p \<mapsto> v) = s(p \<mapsto> v)" by simp_all
    from "1.IH" [where s = s1, OF False b "1.prems"(1) s1(1) \<open>n - length b \<le> length (pending r1)\<close>]
    obtain r' where r': "copy_data os name p (n - length b) (acc @ b) r1 s1
        = (s(p \<mapsto> FFile ((acc @ b) @ take (n - length b) (pending r1))),
           Inr ((acc @ b) @ take (n - length b) (pending r1), r'))"
      "pending r' = drop (n - length b) (pending r1)" "snd r' = snd r1"
      unfolding s1(2) by blast
    have "length b \<le> n" using i by simp
    with i have "take n (pending r) = b @ take (n - length b) (pending r1)"
      "drop n (pending r) = drop (n - length b) (pending r1)" by simp_all
    with r' i show ?thesis
      by (intro exI [of _ r']) (simp add: copy_data_step [OF False rs b "1.prems"(1)] s1_def [symmetric] fun_eq_iff)
  qed
qed

lemma copy_data_short:
  "permits os \<Longrightarrow> s p = Some (FFile acc) \<Longrightarrow> length (pending r) < n \<Longrightarrow>
     copy_data os name p n acc r s
       = (s(p \<mapsto> FFile (acc @ pending r)),
          Inl (if snd r then ReadFailed else UnexpectedEofZipData name))"
proof (induction os name p n acc r arbitrary: s rule: copy_data.induct)
  case (1 os name p n acc r)
  then have n: "n \<noteq> 0" by auto
  show ?case
  proof (cases "pending r = []")
    case True
    with n "1.prems" show ?thesis
      by (auto simp: copy_data.simps [of os name p n] read_some_empty fs_lift_def fun_eq_iff)
  next
    case False
    from read_some_pending [OF this] obtain b r1 where
      rs: "read_some (min 1048576 n) r = Inr (b, r1)" by blast
    note i = read_some_Inr [OF rs]
    with False n have b: "b \<noteq> []" by auto
    have "length (pending r1) < n - length b" using i "1.prems"(3) by auto
    define s1 where "s1 = s(p \<mapsto> FFile (acc @ b))"
    then have s1: "s1 p = Some (FFile (acc @ b))" "\<And>v. s1(p \<mapsto> v) = s(p \<mapsto> v)" by simp_all
    from "1.IH" [where s = s1, OF n b "1.prems"(1) s1(1) \<open>length (pending r1) < n - length b\<close>] i
    show ?thesis by (simp add: copy_data_step [OF n rs b "1.prems"(1)] s1_def [symmetric] s1(2))
  qed
qed

section \<open>Extraction does not see the chunks\<close>

lemma file_create_result:
  "file_create os p s = (t, Inr u) \<Longrightarrow> t = s(p \<mapsto> FFile [])"
  by (auto simp: file_create_def split: if_splits)

lemma copy_data_blind:
  assumes "permits os" and "same_stream r r2" and "s p = Some (FFile acc)"
  shows "fst (copy_data os name p n acc r s) = fst (copy_data os name p n acc r2 s)
       \<and> same_result (snd (copy_data os name p n acc r s)) (snd (copy_data os name p n acc r2 s))"
proof (cases "n \<le> length (pending r)")
  case True
  from assms(2) have e: "pending r2 = pending r" "snd r2 = snd r" by (simp_all add: same_stream_def)
  from copy_data_enough [of os s p acc n r name] copy_data_enough [of os s p acc n r2 name]
    True e assms(1,3)
  show ?thesis by (auto simp: same_stream_def)
next
  case False
  from assms(2) have e: "pending r2 = pending r" "snd r2 = snd r" by (simp_all add: same_stream_def)
  with False copy_data_short [of os s p acc r n name] copy_data_short [of os s p acc r2 n name] assms(1,3)
  show ?thesis by simp
qed

lemma chunk_blind_if: "chunk_blind f \<Longrightarrow> chunk_blind g \<Longrightarrow> chunk_blind (if b then f else g)"
  by simp

lemma chunk_blind_plift: "chunk_blind (plift x)"
  by (cases x) (auto simp: chunk_blind_def plift_def)

lemma chunk_blind_data_descriptor: "chunk_blind (read_data_descriptor z)"
  unfolding read_data_descriptor_def read_dd_sizes_def
  by (intro chunk_blind_intros chunk_blind_if)+

lemma chunk_blind_local_header: "chunk_blind read_local_header"
  unfolding read_local_header_def check_local_header_def
  by (intro chunk_blind_intros chunk_blind_if chunk_blind_plift
      | simp split: option.split prod.split | intro conjI impI allI)+

fun same_reader :: "reader result \<Rightarrow> reader result \<Rightarrow> bool" where
  "same_reader (Inr r) (Inr s) \<longleftrightarrow> same_stream r s"
| "same_reader (Inl e) (Inl e') \<longleftrightarrow> e = e'"
| "same_reader _ _ \<longleftrightarrow> False"

lemma finish_entry_blind:
  assumes "same_stream r s"
  shows "same_reader (finish_entry crc h data r) (finish_entry crc h data s)"
  using chunk_blindD [OF chunk_blind_data_descriptor assms, of "lh_zip64 h"] assms
  by (cases "read_data_descriptor (lh_zip64 h) r"; cases "read_data_descriptor (lh_zip64 h) s")
     (auto simp: finish_entry_def Let_def)

lemma extract_entry_blind:
  assumes "permits os" and rr: "same_stream r r2"
  shows "fst (extract_entry os crc d h r s) = fst (extract_entry os crc d h r2 s)
       \<and> same_reader (snd (extract_entry os crc d h r s)) (snd (extract_entry os crc d h r2 s))"
proof (cases "ends_with_slash (lh_name h)")
  case True
  then show ?thesis using rr
    by (cases "validate_rel_path (trim_end_slashes (lh_name h))")
       (auto simp: extract_entry_def Let_def fs_bind_def fs_lift_def fs_return_def
             split: prod.splits sum.splits)
next
  case False
  let ?p = "join_path d (lh_name h)"
  let ?fin = "\<lambda>r. fs_bind (copy_data os (lh_name h) ?p (unat (lh_compressed h)) [] r)
                (\<lambda>(data, r'). fs_lift (finish_entry crc h data r'))"
  have fin: "fst (?fin r t) = fst (?fin r2 t) \<and> same_reader (snd (?fin r t)) (snd (?fin r2 t))"
    if "t ?p = Some (FFile [])" for t
    using copy_data_blind [of os r r2 t ?p "[]" "lh_name h" "unat (lh_compressed h)"] assms that
    by (cases "copy_data os (lh_name h) ?p (unat (lh_compressed h)) [] r t";
        cases "copy_data os (lh_name h) ?p (unat (lh_compressed h)) [] r2 t")
       (auto simp: fs_bind_def fs_lift_def finish_entry_blind split: sum.splits prod.splits
             elim!: same_result.elims)
  have create: "fst (fs_bind (file_create os ?p) (\<lambda>_. ?fin r) t) = fst (fs_bind (file_create os ?p) (\<lambda>_. ?fin r2) t)
      \<and> same_reader (snd (fs_bind (file_create os ?p) (\<lambda>_. ?fin r) t))
                    (snd (fs_bind (file_create os ?p) (\<lambda>_. ?fin r2) t))" for t
  proof (cases "file_create os ?p t")
    case (Pair t' a)
    show ?thesis
    proof (cases a)
      case (Inl e)
      with Pair show ?thesis by (simp add: fs_bind_def)
    next
      case (Inr u)
      with Pair have "t' ?p = Some (FFile [])" by (auto dest: file_create_result)
      from fin [where t = t', OF this] Pair Inr show ?thesis by (simp add: fs_bind_Inr)
    qed
  qed
  show ?thesis
  proof (cases "validate_rel_path (lh_name h)")
    case (Inl e)
    with False show ?thesis by (simp add: extract_entry_def Let_def fs_lift_def)
  next
    case (Inr u)
    obtain t a where c: "create_dir_all os (butlast ?p) s = (t, a)" by fastforce
    show ?thesis
    proof (cases a)
      case (Inl e)
      with c Inr False show ?thesis
        by (simp add: extract_entry_def Let_def fs_bind_def fs_lift_def)
    next
      case a: (Inr v)
      have m: "fs_bind (create_dir_all os (butlast ?p)) f s = f v t" for f :: "unit \<Rightarrow> reader fs_op"
        using c a by (simp add: fs_bind_def)
      show ?thesis
        using create [of t] Inr False
        by (cases "dot_tail (lh_name h)")
           (simp_all add: extract_entry_def Let_def m fs_lift_def)
    qed
  qed
qed

lemma extract_loop_blind:
  assumes "permits os"
  shows "same_stream r r2 \<Longrightarrow> extract_loop os crc d r s = extract_loop os crc d r2 s"
  using assms
proof (induction os crc d r s arbitrary: r2 rule: extract_loop.induct)
  case (1 os crc d r s)
  note l = extract_loop.simps [of os crc d r s] extract_loop.simps [of os crc d r2 s]
  note o = chunk_blindD [OF chunk_blind_u32_opt "1.prems"(1)]
  show ?case
  proof (cases "read_u32_opt r")
    case (Inl e)
    with o l show ?thesis by (auto dest: same_result_InlD)
  next
    case (Inr v)
    obtain w r' where v: "v = (w, r')" by (cases v)
    with o Inr obtain q' where q: "read_u32_opt r2 = Inr (w, q')" "same_stream r' q'"
      by (auto dest: same_result_InrD)
    note h = chunk_blindD [OF chunk_blind_local_header q(2)]
    show ?thesis
    proof (cases "\<exists>h r''. w = Some ZIP_LOCAL_FILE_HEADER_SIG \<and> read_local_header r' = Inr (h, r'')")
      case False
      show ?thesis
      proof (cases "w = Some ZIP_LOCAL_FILE_HEADER_SIG")
        case True
        with False obtain e where "read_local_header r' = Inl e"
          by (cases "read_local_header r'") auto
        with h have "read_local_header q' = Inl e" by (auto dest: same_result_InlD)
        with True Inr v q l \<open>read_local_header r' = Inl e\<close> show ?thesis by simp
      next
        case False
        with Inr v q l show ?thesis by (cases w) simp_all
      qed
    next
      case True
      then obtain lh r'' where t: "w = Some ZIP_LOCAL_FILE_HEADER_SIG"
        "read_local_header r' = Inr (lh, r'')" by blast
      with h obtain q'' where q'': "read_local_header q' = Inr (lh, q'')" "same_stream r'' q''"
        by (auto dest: same_result_InrD)
      note e = extract_entry_blind [OF "1.prems"(2) q''(2), of crc d lh s]
      obtain s1 a where ea: "extract_entry os crc d lh r'' s = (s1, a)" by fastforce
      obtain b where eb: "extract_entry os crc d lh q'' s = (s1, b)"
        using e ea by (cases "extract_entry os crc d lh q'' s") auto
      show ?thesis
      proof (cases a)
        case (Inl x)
        with e ea eb have "b = Inl x" by (cases b) auto
        with Inl Inr v q l t q'' ea eb show ?thesis by simp
      next
        case a: (Inr r3)
        with e ea eb obtain q3 where b: "b = Inr q3" "same_stream r3 q3" by (cases b) auto
        have "extract_loop os crc d r3 s1 = extract_loop os crc d q3 s1"
          by (rule "1.IH") (use Inr v t ea a b "1.prems"(2) in auto)
        with a b Inr v q l t q'' ea eb show ?thesis by simp
      qed
    qed
  qed
qed

end
