(* ===== verification/Part_Zip_Roundtrip.thy ===== *)
theory Part_Zip_Roundtrip
  imports Part_Zip_Props
begin

text \<open>
  The reader of \<open>Part_Zip\<close> undoes its writer: what one entry of the archive parses to, what the
  loop installs for a list of entries, and the directory tree that comes back.
\<close>

section \<open>One header\<close>

lemma le_val_append_bytes [simp]: "length (write_u16 v) = 2" "length (write_u32 w) = 4"
  "length (write_u64 x) = 8"
  by (simp_all add: c16.put_length c32.put_length c64.put_length)

lemma le_val_write [simp]:
  "word_of_nat (le_val (write_u16 v)) = v"
  "word_of_nat (le_val (write_u64 x)) = x"
  by (simp_all add: write_u16_def write_u64_def le_val_unat)

lemma le_val_write_u16: "le_val (write_u16 v) = unat v"
proof -
  have "unat v < 2 ^ LENGTH(16)" by (rule unsigned_less)
  then show ?thesis by (simp add: write_u16_def le_val_le_bytes)
qed

lemma parse_zip64_local:
  "parse_zip64_sizes_from_extra (build_zip64_extra_local c u) = Inr (c, u)"
  by (subst parse_zip64_sizes_from_extra.simps)
     (simp add: build_zip64_extra_local_def le_val_write_u16 Let_def ZIP64_EXTRA_ID_def)

lemma length_build_zip64_extra_local [simp]: "length (build_zip64_extra_local c u) = 20"
  by (simp add: build_zip64_extra_local_def)

lemma length_build_zip64_extra_central [simp]: "length (build_zip64_extra_central c u w) = 28"
  by (simp add: build_zip64_extra_central_def)

text \<open>The header the writer emits for a file of \<open>sz\<close> bytes.\<close>

definition written_header :: "bool \<Rightarrow> u64 \<Rightarrow> bytes \<Rightarrow> bytes" where
  "written_header z sz nm =
     (let extra = (if z then build_zip64_extra_local sz sz else []) in
      local_header_fields z sz (word_of_nat (length nm)) (word_of_nat (length extra)) nm extra)"

text \<open>Without zip64 the sizes fit in 32 bits and are not the zip64 marker.\<close>

definition plain_size :: "u64 \<Rightarrow> bool" where
  "plain_size sz \<longleftrightarrow> sz < 0xFFFFFFFF"

lemma unat_ucast_u32_u64: "unat (ucast (w :: u32) :: u64) = unat w"
proof -
  have "unat w < 2 ^ LENGTH(32)" by (rule unsigned_less)
  then show ?thesis by (simp add: unsigned_ucast_eq take_bit_eq_mod)
qed

lemma ucast_u32_small:
  "plain_size sz \<Longrightarrow> ucast (ucast sz :: u32) = sz \<and> (ucast sz :: u32) \<noteq> 0xFFFFFFFF"
proof -
  assume "plain_size sz"
  then have "unat sz < 4294967295" by (simp add: plain_size_def word_less_nat_alt)
  then have s: "unat (ucast sz :: u32) = unat sz" by (simp add: unsigned_ucast_eq take_bit_eq_mod)
  then have "unat (ucast (ucast sz :: u32) :: u64) = unat sz"
    by (simp only: unat_ucast_u32_u64)
  with s \<open>unat sz < 4294967295\<close> show ?thesis by (auto simp: word_unat_eq_iff)
qed

lemma parses_exact_bind:
  "length bs = n \<Longrightarrow> parses (g bs) cs y \<Longrightarrow> parses (pbind (read_exact n) g) (bs @ cs) y"
  by (hypsubst, rule parses_bind [OF parses_read_exact])

lemma decode_sizes_written:
  assumes "z \<or> plain_size sz"
  shows "decode_sizes (if z then 0xFFFFFFFF else ucast sz) (if z then 0xFFFFFFFF else ucast sz)
           (if z then build_zip64_extra_local sz sz else []) = Inr (z, sz, sz)"
  using assms ucast_u32_small [of sz] by (auto simp: decode_sizes_def parse_zip64_local)

lemma parses_check_local_header:
  assumes "z \<or> plain_size sz"
  shows "parses (check_local_header ZIP_FLAG_DATA_DESCRIPTOR ZIP_METHOD_STORED 0
           (if z then 0xFFFFFFFF else ucast sz) (if z then 0xFFFFFFFF else ucast sz) name
           (if z then build_zip64_extra_local sz sz else [])) []
           \<lparr>lh_name = name, lh_crc32 = 0, lh_compressed = sz, lh_uncompressed = sz,
            lh_zip64 = z, lh_flags = ZIP_FLAG_DATA_DESCRIPTOR\<rparr>"
  unfolding check_local_header_def decode_sizes_written [OF assms]
  by (simp add: parses_def plift_def pbind_def preturn_def)

lemma local_sizes_split:
  "local_sizes z sz @ rest =
     write_u32 (if z then 0xFFFFFFFF else ucast sz)
     @ write_u32 (if z then 0xFFFFFFFF else ucast sz) @ rest"
  by (simp add: local_sizes_def)

lemma parses_written_header:
  assumes "z \<or> plain_size sz" and nm: "length nm \<le> 65535" and "from_utf8 nm = Some name"
  shows "parses read_local_header (written_header z sz nm)
           \<lparr>lh_name = name, lh_crc32 = 0, lh_compressed = sz, lh_uncompressed = sz,
            lh_zip64 = z, lh_flags = ZIP_FLAG_DATA_DESCRIPTOR\<rparr>"
proof -
  let ?extra = "if z then build_zip64_extra_local sz sz else []"
  have len: "unat (word_of_nat (length nm) :: u16) = length nm"
    using nm by (simp add: unat_of_nat)
  have len': "unat (word_of_nat (length ?extra) :: u16) = length ?extra"
    by (simp add: unat_of_nat)
  have last: "parses (pbind (read_exact (length ?extra))
      (\<lambda>extra. check_local_header ZIP_FLAG_DATA_DESCRIPTOR ZIP_METHOD_STORED 0
           (if z then 0xFFFFFFFF else ucast sz) (if z then 0xFFFFFFFF else ucast sz) name extra))
      (?extra @ [])
      \<lparr>lh_name = name, lh_crc32 = 0, lh_compressed = sz, lh_uncompressed = sz,
            lh_zip64 = z, lh_flags = ZIP_FLAG_DATA_DESCRIPTOR\<rparr>"
    by (rule parses_exact_bind [OF refl]) (rule parses_check_local_header [OF assms(1)])
  have names: "parses (pbind (read_exact (length nm)) (\<lambda>name_bytes.
      case from_utf8 name_bytes of None \<Rightarrow> pfail ZipNameNotUtf8
      | Some name \<Rightarrow> pbind (read_exact (length ?extra)) (\<lambda>extra.
          check_local_header ZIP_FLAG_DATA_DESCRIPTOR ZIP_METHOD_STORED 0
           (if z then 0xFFFFFFFF else ucast sz) (if z then 0xFFFFFFFF else ucast sz) name extra)))
      (nm @ ?extra)
      \<lparr>lh_name = name, lh_crc32 = 0, lh_compressed = sz, lh_uncompressed = sz,
            lh_zip64 = z, lh_flags = ZIP_FLAG_DATA_DESCRIPTOR\<rparr>"
    using last assms(3) by (intro parses_exact_bind) (simp_all del: if_split)
  show ?thesis
    unfolding written_header_def Let_def local_header_fields_def read_local_header_def
      local_sizes_split
    by (intro c16.get_bind c32.get_bind) (use names in \<open>simp only: len len'\<close>)
qed

text \<open>A size that is the zip64 marker itself, written without a zip64 field, is not readable.\<close>

lemma fails_marker_header:
  assumes nm: "length nm \<le> 65535" and name: "from_utf8 nm = Some name"
  shows "fails_on read_local_header (written_header False 0xFFFFFFFF nm) Zip64SizesMissing"
proof -
  have len: "unat (word_of_nat (length nm) :: u16) = length nm"
    using nm by (simp add: unat_of_nat)
  have check: "fails_on (pbind (read_exact 0) (\<lambda>extra.
      check_local_header ZIP_FLAG_DATA_DESCRIPTOR ZIP_METHOD_STORED 0
      0xFFFFFFFF 0xFFFFFFFF name extra)) [] Zip64SizesMissing"
    by (simp add: fails_on_def check_local_header_def pbind_def plift_def decode_sizes_def
        parse_zip64_sizes_from_extra.simps)
  have names: "fails_on (pbind (read_exact (length nm)) (\<lambda>name_bytes.
      case from_utf8 name_bytes of None \<Rightarrow> pfail ZipNameNotUtf8
      | Some name \<Rightarrow> pbind (read_exact 0) (\<lambda>extra.
          check_local_header ZIP_FLAG_DATA_DESCRIPTOR ZIP_METHOD_STORED 0
           0xFFFFFFFF 0xFFFFFFFF name extra)))
      (nm @ []) Zip64SizesMissing"
    by (rule fails_on_bind [OF parses_read_exact]) (simp add: name, rule check)
  have h: "written_header False 0xFFFFFFFF nm =
      write_u16 ZIP_VERSION_ZIP64 @ write_u16 ZIP_FLAG_DATA_DESCRIPTOR
      @ write_u16 ZIP_METHOD_STORED @ write_u16 0 @ write_u16 0 @ write_u32 0
      @ write_u32 0xFFFFFFFF @ write_u32 0xFFFFFFFF
      @ write_u16 (word_of_nat (length nm)) @ write_u16 0 @ (nm @ [])"
    by (simp add: written_header_def local_header_fields_def local_sizes_def)
  show ?thesis
    unfolding h read_local_header_def
    by (intro c16.get_bind_fails c32.get_bind_fails) (use names in \<open>simp only: len unsigned_0\<close>)
qed

lemma parses_data_descriptor:
  assumes "z \<or> plain_size sz"
  shows "parses (read_data_descriptor z) (data_descriptor z c sz) (c, sz, sz)"
proof (cases z)
  case True
  have "parses (pbind read_u64 (\<lambda>csize. pbind read_u64 (\<lambda>usize. preturn (c, csize, usize))))
          (write_u64 sz @ write_u64 sz @ []) (c, sz, sz)"
    by (intro c64.get_bind parses_return)
  with True show ?thesis
    unfolding data_descriptor_def read_data_descriptor_def
    by (intro c32.get_bind) (auto simp: read_dd_sizes_def intro!: c32.get_bind)
next
  case False
  with assms ucast_u32_small [of sz] have u: "ucast (ucast sz :: u32) = sz" by simp
  have "parses (pbind read_u32 (\<lambda>csize. pbind read_u32 (\<lambda>usize.
          preturn (c, ucast csize :: u64, ucast usize :: u64))))
          (write_u32 (ucast sz) @ write_u32 (ucast sz) @ [])
          (c, ucast (ucast sz :: u32), ucast (ucast sz :: u32))"
    by (intro c32.get_bind parses_return)
  with False u show ?thesis
    unfolding data_descriptor_def read_data_descriptor_def
    by (intro c32.get_bind) (auto simp: read_dd_sizes_def intro!: c32.get_bind)
qed

section \<open>One entry\<close>

text \<open>Installing a file: its parent directories, then the file.\<close>

definition install :: "path \<Rightarrow> path \<times> bytes \<Rightarrow> fs \<Rightarrow> fs" where
  "install dest e s =
     (with_dirs (dest @ butlast (fst e)) s)(dest @ fst e \<mapsto> FFile (snd e))"

definition installable :: "path \<Rightarrow> path \<Rightarrow> fs \<Rightarrow> bool" where
  "installable dest p s \<longleftrightarrow>
     p \<noteq> [] \<and> no_file_above (dest @ butlast p) s \<and> s (dest @ p) \<noteq> Some FDir"

definition good_path :: "path \<Rightarrow> bool" where
  "good_path p \<longleftrightarrow> p \<noteq> [] \<and> (\<forall>n \<in> set p. good_name n \<and> utf8_valid n)"

lemma list_ex_Normal: "\<not> list_ex (\<lambda>c. c = ParentDir \<or> c = RootDir) (map Normal p)"
  by (induction p) auto

lemma join_on_last:
  "p \<noteq> [] \<Longrightarrow> last p \<noteq> [] \<Longrightarrow> join_on c p \<noteq> [] \<and> last (join_on c p) = last (last p)"
  by (induction c p rule: join_on.induct) auto

lemma good_path_name:
  assumes "good_path p"
  shows "components (join_on CHR ''/'' p) = map Normal p"
    and "join_path dest (join_on CHR ''/'' p) = dest @ p"
    and "\<not> dot_tail (join_on CHR ''/'' p)"
    and "\<not> ends_with_slash (join_on CHR ''/'' p)"
    and "validate_rel_path (join_on CHR ''/'' p) = Inr ()"
proof -
  have ne: "p \<noteq> []" and good: "\<And>n. n \<in> set p \<Longrightarrow> good_name n"
    using assms by (auto simp: good_path_def)
  show c: "components (join_on CHR ''/'' p) = map Normal p"
    by (rule components_join [OF ne good])
  have "foldl step_path d (map Normal q) = d @ q" for d q
    by (induction q arbitrary: d) auto
  with c show "join_path dest (join_on CHR ''/'' p) = dest @ p" by (simp add: join_path_def)
  have sp: "split_on CHR ''/'' (join_on CHR ''/'' p) = p"
    using ne good by (intro split_on_join_on) (auto simp: good_name_def)
  have last: "good_name (last p)" using ne good by simp
  with sp show "\<not> dot_tail (join_on CHR ''/'' p)" by (simp add: dot_tail_def good_name_def)
  have l: "join_on CHR ''/'' p \<noteq> [] \<and> last (join_on CHR ''/'' p) = last (last p)"
    using ne last by (intro join_on_last) (auto simp: good_name_def)
  moreover have "last (last p) \<in> set (last p)" using last by (simp add: good_name_def)
  ultimately show "\<not> ends_with_slash (join_on CHR ''/'' p)"
    using last unfolding ends_with_slash_def good_name_def by metis
  show "validate_rel_path (join_on CHR ''/'' p) = Inr ()"
    using l c list_ex_Normal unfolding validate_rel_path_ok by simp
qed

lemma good_path_utf8: "good_path p \<Longrightarrow> utf8_valid (join_on CHR ''/'' p)"
  by (intro utf8_valid_join) (auto simp: good_path_def)

lemma normal_names_map [simp]: "normal_names (map Normal p) = p"
  by (induction p) auto

lemma good_path_zip_name:
  assumes "good_path p" and "path_to_zip_name (join_on CHR ''/'' p) = Inr s"
  shows "s = join_on CHR ''/'' p"
proof -
  have "map to_string_lossy p = p"
    using assms(1) by (auto simp: good_path_def to_string_lossy_id intro: map_idI)
  with assms show ?thesis
    by (simp add: path_to_zip_name_def good_path_name Let_def split: if_splits)
qed

lemma good_path_from_utf8:
  "good_path p \<Longrightarrow> from_utf8 (as_bytes (join_on CHR ''/'' p)) = Some (join_on CHR ''/'' p)"
  by (simp add: from_utf8_def good_path_utf8)

lemma flag_set [simp]: "ZIP_FLAG_DATA_DESCRIPTOR \<noteq> 0"
  by (simp add: ZIP_FLAG_DATA_DESCRIPTOR_def)

lemma finish_written:
  assumes "z \<or> plain_size sz" and "pending r = data_descriptor z (crc data) sz @ rest"
  obtains r' where
    "finish_entry crc \<lparr>lh_name = name, lh_crc32 = 0, lh_compressed = sz, lh_uncompressed = sz,
       lh_zip64 = z, lh_flags = ZIP_FLAG_DATA_DESCRIPTOR\<rparr> data r = Inr r'"
    and "pending r' = rest" and "snd r' = snd r"
proof -
  obtain r' where "read_data_descriptor z r = Inr ((crc data, sz, sz), r')"
    "pending r' = rest" "snd r' = snd r"
    by (rule parsesD [OF parses_data_descriptor [OF assms(1)] assms(2)])
  then show thesis by (intro that [of r']) (simp_all add: finish_entry_def)
qed

lemma extract_written:
  assumes os: "permits os" and z: "z \<or> plain_size sz" and p: "good_path p"
    and inst: "installable dest p s" and len: "unat sz = length data"
    and r: "pending r = data @ data_descriptor z (crc data) sz @ rest"
  obtains r' where
    "extract_entry os crc dest
       \<lparr>lh_name = join_on CHR ''/'' p, lh_crc32 = 0, lh_compressed = sz, lh_uncompressed = sz,
        lh_zip64 = z, lh_flags = ZIP_FLAG_DATA_DESCRIPTOR\<rparr> r s
       = (install dest (p, data) s, Inr r')"
    and "pending r' = rest" and "snd r' = snd r"
proof -
  let ?h = "\<lparr>lh_name = join_on CHR ''/'' p, lh_crc32 = 0, lh_compressed = sz,
    lh_uncompressed = sz, lh_zip64 = z, lh_flags = ZIP_FLAG_DATA_DESCRIPTOR\<rparr>"
  let ?q = "dest @ p"
  define s1 where "s1 = with_dirs (dest @ butlast p) s"
  have ne: "p \<noteq> []" and bl: "butlast ?q = dest @ butlast p"
    using p by (auto simp: good_path_def butlast_append)
  have mk: "create_dir_all os (butlast ?q) s = (s1, Inr ())"
    using inst os by (simp add: bl s1_def create_dir_all_ok installable_def permits_def)
  have "\<not> prefix ?q (dest @ butlast p)"
    using ne prefix_length_le [of p "butlast p"] by (cases p) auto
  then have "s1 ?q \<noteq> Some FDir" "s1 (butlast ?q) = Some FDir"
    using inst by (simp_all add: s1_def with_dirs_def installable_def bl)
  define s2 where "s2 = s1(?q \<mapsto> FFile [])"
  then have s2: "s2 ?q = Some (FFile [])" "\<And>v. s2(?q \<mapsto> v) = s1(?q \<mapsto> v)" by simp_all
  have cr: "file_create os ?q s1 = (s2, Inr ())"
    using os ne \<open>s1 ?q \<noteq> Some FDir\<close> \<open>s1 (butlast ?q) = Some FDir\<close>
    by (simp add: file_create_def permits_def s2_def)
  have "length data \<le> length (pending r)" using r by simp
  from copy_data_enough [of os s2 ?q "[]" "length data" r "join_on CHR ''/'' p", OF os s2(1) this]
  obtain r1 where cp: "copy_data os (join_on CHR ''/'' p) ?q (length data) [] r s2
      = (s1(?q \<mapsto> FFile data), Inr (data, r1))"
    and r1: "pending r1 = data_descriptor z (crc data) sz @ rest" "snd r1 = snd r"
    unfolding s2(2) r by auto
  obtain r' where fin: "finish_entry crc ?h data r1 = Inr r'" "pending r' = rest" "snd r' = snd r1"
    by (rule finish_written [where crc = crc and data = data, OF z r1(1)])
  have "extract_entry os crc dest ?h r s = (s1(?q \<mapsto> FFile data), Inr r')"
    using good_path_name [OF p] fin(1) cp
    by (simp add: extract_entry_def Let_def len fs_lift_def
        fs_bind_Inr [where m = "create_dir_all os (butlast ?q)" and s = s, OF mk]
        fs_bind_Inr [where m = "file_create os ?q" and s = s1, OF cr]
        fs_bind_Inr [where m = "copy_data os (join_on CHR ''/'' p) ?q (length data) [] r"
          and s = s2, OF cp])
  with fin r1 show thesis by (intro that [of r']) (simp_all add: install_def s1_def)
qed

section \<open>The writer\<close>

text \<open>The bytes of one entry.\<close>

definition entry_bytes :: "(bytes \<Rightarrow> u32) \<Rightarrow> bool \<Rightarrow> u64 \<Rightarrow> bytes \<Rightarrow> bytes \<Rightarrow> bytes" where
  "entry_bytes crc z sz nm data =
     write_u32 ZIP_LOCAL_FILE_HEADER_SIG @ written_header z sz nm
     @ data @ data_descriptor z (crc data) sz"

lemma stream_file_take:
  "n \<le> length rest \<Longrightarrow> 0 < buf \<Longrightarrow> stream_file path buf n rest = Inr (take n rest)"
proof (induction path buf n rest rule: stream_file.induct)
  case (1 path buf n rest)
  show ?case
  proof (cases "n = 0")
    case True
    then show ?thesis by (simp add: stream_file.simps)
  next
    case False
    let ?c = "take (min buf n) rest"
    have c: "?c \<noteq> []" and lc: "length ?c = min buf n" using False "1.prems" by auto
    have le: "n - length ?c \<le> length (drop (length ?c) rest)" using "1.prems" by simp
    have "stream_file path buf (n - length ?c) (drop (length ?c) rest)
        = Inr (take (n - length ?c) (drop (length ?c) rest))"
      using "1.IH" [OF False refl c le "1.prems"(2)] .
    moreover have "?c @ take (n - length ?c) (drop (length ?c) rest) = take n rest"
      using lc by (metis append_take_drop_id le_add_diff_inverse min.cobounded2 min_def take_add)
    ultimately show ?thesis
      using False c by (simp add: stream_file.simps [of path buf n] Let_def)
  qed
qed

lemma stream_file_Inr:
  "stream_file path buf n rest = Inr d \<Longrightarrow> d = take n rest \<and> n \<le> length rest"
proof (induction path buf n rest arbitrary: d rule: stream_file.induct)
  case (1 path buf n rest)
  show ?case
  proof (cases "n = 0")
    case True
    with "1.prems" show ?thesis by (simp add: stream_file.simps)
  next
    case False
    let ?c = "take (min buf n) rest"
    from "1.prems" False obtain more where c: "?c \<noteq> []" and
      m: "stream_file path buf (n - length ?c) (drop (length ?c) rest) = Inr more" "d = ?c @ more"
      by (auto simp: stream_file.simps [of path buf n] Let_def bind_r_Inr_iff split: if_splits)
    from "1.IH" [OF False refl c m(1)]
    have i: "more = take (n - length ?c) (drop (length ?c) rest)"
      "n - length ?c \<le> length (drop (length ?c) rest)" by simp_all
    have "length ?c \<le> n" "length ?c \<le> length rest" by simp_all
    moreover have "take (length ?c) rest = ?c" by (simp add: min_def)
    ultimately have "d = take n rest"
      using m(2) i(1) by (metis le_add_diff_inverse take_add)
    moreover have "n \<le> length rest" using i(2) \<open>length ?c \<le> n\<close> \<open>length ?c \<le> length rest\<close> by simp
    ultimately show ?thesis by simp
  qed
qed

definition needs64 :: "zip_writer \<Rightarrow> zip_file_entry \<Rightarrow> bool" where
  "needs64 w f \<longleftrightarrow> u32_max64 < file_size f \<or> u32_max64 < zw_offset w"

lemma write_entry_Inr:
  assumes "write_entry crc content w f = Inr w'"
  obtains name c where
    "path_to_zip_name (rel_path f) = Inr name" and "length name \<le> 65535"
    and "content (abs_path f) = Some c" and "unat (file_size f) \<le> length c"
    and "zw_out w' = zw_out w
           @ entry_bytes crc (needs64 w f) (file_size f) (as_bytes name) (take (unat (file_size f)) c)"
    and "zw_offset w' = zw_offset w
           + (30 + word_of_nat (length name) + (if needs64 w f then 20 else 0))
           + file_size f + (if needs64 w f then 24 else 16)"
    and "zw_central w' = zw_central w @
           [\<lparr>ce_name = as_bytes name, ce_crc32 = crc (take (unat (file_size f)) c),
             ce_size = file_size f, ce_offset = zw_offset w, ce_zip64 = needs64 w f\<rparr>]"
  using assms
  by (auto simp: write_entry_def Let_def bind_r_Inr_iff try_u16_def needs64_def entry_bytes_def
        written_header_def dest!: stream_file_Inr split: if_splits option.splits
        intro!: that)

section \<open>A list of entries\<close>

definition archived :: "(string \<Rightarrow> bytes option) \<Rightarrow> zip_file_entry \<Rightarrow> path \<times> bytes \<Rightarrow> bool" where
  "archived content f e \<longleftrightarrow>
     good_path (fst e) \<and> rel_path f = join_on CHR ''/'' (fst e)
     \<and> content (abs_path f) = Some (snd e) \<and> unat (file_size f) = length (snd e)"

definition install_all :: "path \<Rightarrow> (path \<times> bytes) list \<Rightarrow> fs \<Rightarrow> fs" where
  "install_all dest es s = foldl (\<lambda>s e. install dest e s) s es"

fun installable_all :: "path \<Rightarrow> (path \<times> bytes) list \<Rightarrow> fs \<Rightarrow> bool" where
  "installable_all dest [] s = True"
| "installable_all dest (e # es) s =
     (installable dest (fst e) s \<and> installable_all dest es (install dest e s))"

lemma extract_loop_entry:
  assumes os: "permits os" and z: "z \<or> plain_size sz" and p: "good_path p"
    and inst: "installable dest p s" and len: "unat sz = length data"
    and nm: "length (join_on CHR ''/'' p) \<le> 65535"
    and r: "pending r = entry_bytes crc z sz (as_bytes (join_on CHR ''/'' p)) data @ rest"
  obtains r' where
    "extract_loop os crc dest r s = extract_loop os crc dest r' (install dest (p, data) s)"
    and "pending r' = rest" and "snd r' = snd r"
proof -
  let ?nm = "as_bytes (join_on CHR ''/'' p)"
  have r': "pending r = write_u32 ZIP_LOCAL_FILE_HEADER_SIG @
      (written_header z sz ?nm @ data @ data_descriptor z (crc data) sz @ rest)"
    using r by (simp add: entry_bytes_def)
  obtain r1 where r1: "read_u32_opt r = Inr (Some ZIP_LOCAL_FILE_HEADER_SIG, r1)"
    "pending r1 = written_header z sz ?nm @ data @ data_descriptor z (crc data) sz @ rest"
    "snd r1 = snd r"
    by (rule parsesD [OF read_u32_opt_parses r'])
  have hdr: "parses read_local_header (written_header z sz ?nm)
      \<lparr>lh_name = join_on CHR ''/'' p, lh_crc32 = 0, lh_compressed = sz, lh_uncompressed = sz,
        lh_zip64 = z, lh_flags = ZIP_FLAG_DATA_DESCRIPTOR\<rparr>"
    using z nm good_path_from_utf8 [OF p] by (intro parses_written_header) simp_all
  obtain r2 where r2: "read_local_header r1 = Inr (\<lparr>lh_name = join_on CHR ''/'' p, lh_crc32 = 0,
        lh_compressed = sz, lh_uncompressed = sz, lh_zip64 = z,
        lh_flags = ZIP_FLAG_DATA_DESCRIPTOR\<rparr>, r2)"
    "pending r2 = data @ data_descriptor z (crc data) sz @ rest" "snd r2 = snd r1"
    by (rule parsesD [OF hdr r1(2)])
  obtain r3 where r3: "extract_entry os crc dest
       \<lparr>lh_name = join_on CHR ''/'' p, lh_crc32 = 0, lh_compressed = sz, lh_uncompressed = sz,
        lh_zip64 = z, lh_flags = ZIP_FLAG_DATA_DESCRIPTOR\<rparr> r2 s
       = (install dest (p, data) s, Inr r3)" "pending r3 = rest" "snd r3 = snd r2"
    by (rule extract_written [where crc = crc, OF os z p inst len r2(2)])
  show thesis
    by (rule that [of r3])
       (use r1 r2 r3 in \<open>simp_all add: extract_loop.simps [of os crc dest r s]\<close>)
qed

lemma not_needs64_plain: "\<not> needs64 w f \<Longrightarrow> file_size f \<noteq> 0xFFFFFFFF \<Longrightarrow> plain_size (file_size f)"
  by (auto simp: needs64_def plain_size_def not_less order.strict_iff_order)

lemma extract_written_entries:
  assumes "permits os"
  shows "fold_r (write_entry crc content) w files = Inr w' \<Longrightarrow>
    list_all2 (archived content) files es \<Longrightarrow> \<forall>f \<in> set files. file_size f \<noteq> 0xFFFFFFFF \<Longrightarrow>
    \<exists>out. zw_out w' = zw_out w @ out \<and>
      (\<forall>r s rest. pending r = out @ rest \<longrightarrow> installable_all dest es s \<longrightarrow>
        (\<exists>r'. extract_loop os crc dest r s = extract_loop os crc dest r' (install_all dest es s)
              \<and> pending r' = rest \<and> snd r' = snd r))"
proof (induction files arbitrary: w es)
  case Nil
  then show ?case by (auto simp: install_all_def)
next
  case (Cons f files)
  from Cons.prems(2) obtain e es' where es: "es = e # es'" "archived content f e"
    "list_all2 (archived content) files es'"
    by (auto simp: list_all2_Cons1)
  from Cons.prems(1) obtain w1 where w1: "write_entry crc content w f = Inr w1"
    "fold_r (write_entry crc content) w1 files = Inr w'"
    by (auto simp: bind_r_Inr_iff)
  from Cons.IH [OF w1(2) es(3)] Cons.prems(3) obtain out where out: "zw_out w' = zw_out w1 @ out"
    "\<And>r s rest. pending r = out @ rest \<Longrightarrow> installable_all dest es' s \<Longrightarrow>
        \<exists>r'. extract_loop os crc dest r s = extract_loop os crc dest r' (install_all dest es' s)
              \<and> pending r' = rest \<and> snd r' = snd r" by auto
  obtain p data where e: "e = (p, data)" by (cases e)
  let ?nm = "join_on CHR ''/'' p"
  have arch: "good_path p" "rel_path f = ?nm" "content (abs_path f) = Some data"
    "unat (file_size f) = length data" using es(2) e by (simp_all add: archived_def)
  obtain name c where n: "path_to_zip_name (rel_path f) = Inr name" "length name \<le> 65535"
    "content (abs_path f) = Some c"
    "zw_out w1 = zw_out w
       @ entry_bytes crc (needs64 w f) (file_size f) (as_bytes name) (take (unat (file_size f)) c)"
    by (rule write_entry_Inr [OF w1(1)])
  have name: "name = ?nm" using good_path_zip_name [OF arch(1)] n(1) arch(2) by simp
  have c: "c = data" using n(3) arch(3) by simp
  let ?e = "entry_bytes crc (needs64 w f) (file_size f) (as_bytes ?nm) data"
  have z: "needs64 w f \<or> plain_size (file_size f)"
    using not_needs64_plain [of w f] Cons.prems(3) by auto
  show ?case
  proof (intro exI [of _ "?e @ out"] conjI allI impI)
    show "zw_out w' = zw_out w @ ?e @ out" using out(1) n(4) name c arch(4) by simp
    fix r s rest
    assume r: "pending r = (?e @ out) @ rest" and inst: "installable_all dest es s"
    then have i: "installable dest p s" "installable_all dest es' (install dest e s)"
      by (simp_all add: es e)
    from r have "pending r = ?e @ (out @ rest)" by simp
    from extract_loop_entry [where crc = crc and data = data and sz = "file_size f"
        and z = "needs64 w f", OF assms z arch(1) i(1) arch(4) _ this] n(2) name
    obtain r1 where r1: "extract_loop os crc dest r s
        = extract_loop os crc dest r1 (install dest (p, data) s)"
      "pending r1 = out @ rest" "snd r1 = snd r" by blast
    from out(2) [OF r1(2) i(2)] r1 e
    show "\<exists>r'. extract_loop os crc dest r s = extract_loop os crc dest r' (install_all dest es s)
          \<and> pending r' = rest \<and> snd r' = snd r"
      by (auto simp: es(1) install_all_def)
  qed
qed

lemma write_central_out:
  "fold_r write_central w cs = Inr w' \<Longrightarrow> cs \<noteq> [] \<Longrightarrow>
     \<exists>rest. fst w' = fst w @ write_u32 ZIP_CENTRAL_DIRECTORY_FILE_HEADER_SIG @ rest"
proof -
  have ext: "fold_r write_central w cs = Inr w' \<Longrightarrow> \<exists>rest. fst w' = fst w @ rest" for w w' cs
  proof (induction cs arbitrary: w)
    case (Cons c cs)
    then obtain w1 where w1: "write_central w c = Inr w1" "fold_r write_central w1 cs = Inr w'"
      by (auto simp: bind_r_Inr_iff)
    from w1(1) have "\<exists>rest. fst w1 = fst w @ rest"
      by (auto simp: write_central_def Let_def bind_r_Inr_iff)
    with Cons.IH [OF w1(2)] show ?case by auto
  qed auto
  assume a: "fold_r write_central w cs = Inr w'" and ne: "cs \<noteq> []"
  then obtain c cs' w1 where w1: "write_central w c = Inr w1" "fold_r write_central w1 cs' = Inr w'"
    by (cases cs) (auto simp: bind_r_Inr_iff)
  from w1(1) have "\<exists>rest. fst w1 = fst w @ write_u32 ZIP_CENTRAL_DIRECTORY_FILE_HEADER_SIG @ rest"
    by (auto simp: write_central_def Let_def bind_r_Inr_iff)
  with ext [OF w1(2)] show ?thesis by auto
qed

lemma write_eocd_out:
  "\<exists>sig \<in> set zip_end_sigs. \<exists>rest. fst (write_eocd n off sz) = write_u32 sig @ rest"
  by (auto simp: write_eocd_def Let_def zip_end_sigs_def)

lemma write_zip_Inr:
  assumes "write_zip crc content files = Inr (out, n)"
  obtains w sig rest where
    "fold_r (write_entry crc content) \<lparr>zw_out = [], zw_offset = 0, zw_central = []\<rparr> files = Inr w"
    and "out = zw_out w @ write_u32 sig @ rest" and "sig \<in> set zip_end_sigs"
proof -
  from assms obtain w o1 off1 where
    w: "fold_r (write_entry crc content) \<lparr>zw_out = [], zw_offset = 0, zw_central = []\<rparr> files = Inr w"
    and c: "fold_r write_central (zw_out w, zw_offset w) (zw_central w) = Inr (o1, off1)"
    and out: "out = o1 @ fst (write_eocd (word_of_nat (length (zw_central w))) (zw_offset w)
                (off1 - zw_offset w))"
    by (auto simp: write_zip_def Let_def bind_r_Inr_iff case_prod_beta)
  show thesis
  proof (cases "zw_central w = []")
    case True
    with c have "o1 = zw_out w" by simp
    with out w that write_eocd_out show thesis by metis
  next
    case False
    from write_central_out [OF c False] obtain rest where
      "o1 = zw_out w @ write_u32 ZIP_CENTRAL_DIRECTORY_FILE_HEADER_SIG @ rest" by auto
    with out w show thesis
      by (intro that [where sig = ZIP_CENTRAL_DIRECTORY_FILE_HEADER_SIG]) (auto simp: zip_end_sigs_def)
  qed
qed

lemma extract_loop_end:
  assumes "pending r = write_u32 sig @ rest" and "sig \<in> set zip_end_sigs"
  shows "extract_loop os crc dest r s = (s, Inr ())"
proof -
  obtain r' where "read_u32_opt r = Inr (Some sig, r')"
    by (rule parsesD [OF read_u32_opt_parses assms(1)])
  moreover have "sig \<noteq> ZIP_LOCAL_FILE_HEADER_SIG"
    using assms(2) by (auto simp: zip_end_sigs_def zip_sig_defs)
  ultimately show ?thesis using assms(2) by (simp add: extract_loop.simps [of os crc dest r s])
qed

lemma extract_write_zip:
  assumes os: "permits os" and w: "write_zip crc content files = Inr (out, n)"
    and es: "list_all2 (archived content) files es"
    and sz: "\<forall>f \<in> set files. file_size f \<noteq> 0xFFFFFFFF"
    and r: "pending r = out" and dest: "no_file_above dest s"
    and inst: "installable_all dest es (with_dirs dest s)"
  shows "extract_zip os crc r dest s = (install_all dest es (with_dirs dest s), Inr ())"
proof -
  obtain wr sig rest where wr:
    "fold_r (write_entry crc content) \<lparr>zw_out = [], zw_offset = 0, zw_central = []\<rparr> files = Inr wr"
    "out = zw_out wr @ write_u32 sig @ rest" "sig \<in> set zip_end_sigs"
    by (rule write_zip_Inr [OF w])
  from extract_written_entries [OF os wr(1) es sz, of dest] wr(2) r inst obtain r' where
    "extract_loop os crc dest r (with_dirs dest s)
       = extract_loop os crc dest r' (install_all dest es (with_dirs dest s))"
    "pending r' = write_u32 sig @ rest"
    by fastforce
  moreover have "create_dir_all os dest s = (with_dirs dest s, Inr ())"
    using os dest by (simp add: create_dir_all_ok permits_def)
  ultimately show ?thesis
    using extract_loop_end [OF _ wr(3)] by (simp add: extract_zip_def fs_bind_def)
qed

end
