(* ===== verification/Part_Tree.thy ===== *)
theory Part_Tree
  imports Part_Zip_Roundtrip
begin

text \<open>
  A directory tree, collected, archived and extracted: which tree comes back. Then the sizes the
  writer reports against the bytes it wrote and against the estimate.
\<close>

section \<open>Trees\<close>

text \<open>What a path names in a tree.\<close>

fun tree_at :: "dir_tree \<Rightarrow> path \<Rightarrow> dir_tree option" where
  "tree_at t [] = Some t"
| "tree_at (TDir es) (n # p) = (case map_of es n of None \<Rightarrow> None | Some t \<Rightarrow> tree_at t p)"
| "tree_at _ (n # p) = None"

text \<open>A tree a file system can hold: legal distinct names in every directory.\<close>

fun tree_ok :: "dir_tree \<Rightarrow> bool" where
  "tree_ok (TDir es) =
     (distinct (map fst es) \<and> (\<forall>(n, t) \<in> set es. good_name n \<and> utf8_valid n \<and> tree_ok t))"
| "tree_ok _ = True"

lemma walk_at:
  "tree_ok t \<Longrightarrow> (p, x) \<in> set (walk k t) \<longleftrightarrow> (\<exists>q. p = k @ q \<and> tree_at t q = Some x)"
proof (induction k t arbitrary: p rule: walk.induct)
  case (1 k es)
  have d: "distinct (map fst es)" using "1.prems" by simp
  have sub: "(p, x) \<in> set (walk (k @ [n]) t) \<longleftrightarrow> (\<exists>q. p = (k @ [n]) @ q \<and> tree_at t q = Some x)"
    if "(n, t) \<in> set es" for n t p
    using "1.IH" [OF that refl] "1.prems" that by auto
  have "(p, x) \<in> set (walk k (TDir es)) \<longleftrightarrow>
      (p = k \<and> x = TDir es) \<or> (\<exists>n t. (n, t) \<in> set es \<and> (p, x) \<in> set (walk (k @ [n]) t))"
    by force
  also have "\<dots> \<longleftrightarrow> (p = k \<and> x = TDir es) \<or>
      (\<exists>n t q. (n, t) \<in> set es \<and> p = k @ n # q \<and> tree_at t q = Some x)"
    using sub by auto
  also have "\<dots> \<longleftrightarrow> (\<exists>q. p = k @ q \<and> tree_at (TDir es) q = Some x)" (is "?l \<longleftrightarrow> ?r")
  proof
    assume ?l
    then show ?r
    proof
      assume "p = k \<and> x = TDir es"
      then show ?r by (intro exI [of _ "[]"]) simp
    next
      assume "\<exists>n t q. (n, t) \<in> set es \<and> p = k @ n # q \<and> tree_at t q = Some x"
      then obtain n t q where "(n, t) \<in> set es" "p = k @ n # q" "tree_at t q = Some x" by blast
      with d show ?r by (intro exI [of _ "n # q"]) simp
    qed
  next
    assume ?r
    then obtain q where q: "p = k @ q" "tree_at (TDir es) q = Some x" by blast
    then show ?l by (cases q) (auto split: option.splits dest: map_of_SomeD)
  qed
  finally show ?case .
qed (auto elim: tree_at.elims)

lemma tree_at_append:
  "tree_at t (p @ q) = (case tree_at t p of None \<Rightarrow> None | Some u \<Rightarrow> tree_at u q)"
  by (induction t p rule: tree_at.induct) (auto split: option.splits)

lemma tree_at_good: "tree_ok t \<Longrightarrow> tree_at t p = Some x \<Longrightarrow> n \<in> set p \<Longrightarrow> good_name n \<and> utf8_valid n"
  by (induction t p rule: tree_at.induct) (auto split: option.splits dest: map_of_SomeD)

lemma tree_at_ok: "tree_ok t \<Longrightarrow> tree_at t p = Some x \<Longrightarrow> tree_ok x"
  by (induction t p rule: tree_at.induct) (auto split: option.splits dest: map_of_SomeD)

definition has_file :: "dir_tree \<Rightarrow> bool" where
  "has_file t \<longleftrightarrow> list_ex (\<lambda>(p, x). case x of TFile _ \<Rightarrow> True | _ \<Rightarrow> False) (walk [] t)"

lemma has_file_iff: "tree_ok t \<Longrightarrow> has_file t \<longleftrightarrow> (\<exists>p c. tree_at t p = Some (TFile c))"
proof -
  assume ok: "tree_ok t"
  have "has_file t \<longleftrightarrow> (\<exists>p c. (p, TFile c) \<in> set (walk [] t))"
    by (force simp: has_file_def list_ex_iff split: dir_tree.splits)
  then show ?thesis using walk_at [OF ok, where k = "[]"] by simp
qed

text \<open>
  The tree an extracted archive holds: the regular files, and the directories above them (an
  empty directory leaves no trace in the archive).
\<close>

definition restored :: "dir_tree \<Rightarrow> path \<Rightarrow> fnode option" where
  "restored t p =
     (case tree_at t p of
        Some (TFile c) \<Rightarrow> Some (FFile c)
      | Some (TDir es) \<Rightarrow> if p = [] \<or> has_file (TDir es) then Some FDir else None
      | _ \<Rightarrow> None)"

section \<open>What a list of entries installs\<close>

definition entry_image :: "(path \<times> bytes) list \<Rightarrow> path \<Rightarrow> fnode option" where
  "entry_image es q =
     (case map_of es q of
        Some c \<Rightarrow> Some (FFile c)
      | None \<Rightarrow> if q = [] \<or> list_ex (\<lambda>e. strict_prefix q (fst e)) es then Some FDir else None)"

definition overlay :: "path \<Rightarrow> (path \<Rightarrow> fnode option) \<Rightarrow> fs \<Rightarrow> fs" where
  "overlay dest g s =
     (\<lambda>q. if prefix dest q then g (drop (length dest) q)
          else if prefix q dest then Some FDir else s q)"

text \<open>The paths of the entries do not run through each other.\<close>

definition prefix_free :: "(path \<times> bytes) list \<Rightarrow> bool" where
  "prefix_free es \<longleftrightarrow>
     (\<forall>e \<in> set es. fst e \<noteq> []) \<and>
     (\<forall>e \<in> set es. \<forall>e' \<in> set es. \<not> strict_prefix (fst e) (fst e'))"

lemma prefix_freeD:
  assumes "prefix_free es" and "e \<in> set es"
  shows "fst e \<noteq> []" and "e' \<in> set es \<Longrightarrow> \<not> strict_prefix (fst e) (fst e')"
  using assms by (auto simp: prefix_free_def)

lemma drop_length_append_path [simp]: "prefix dest q \<Longrightarrow> dest @ drop (length dest) q = q"
  by (auto simp: prefix_def)

lemma strict_prefix_butlast: "p \<noteq> [] \<Longrightarrow> strict_prefix q p \<longleftrightarrow> prefix q (butlast p)"
  by (cases p rule: rev_cases) (auto simp: strict_prefix_def)

lemma image_map_of:
  assumes "prefix_free es" and "map_of es q = Some c"
  shows "\<not> list_ex (\<lambda>e. strict_prefix q (fst e)) es"
  using prefix_freeD(2) [OF assms(1) map_of_SomeD [OF assms(2)]] by (auto simp: list_ex_iff)

lemma prefix_free_Cons: "prefix_free (e # es) \<Longrightarrow> prefix_free es"
  by (auto simp: prefix_free_def)

lemma image_no_file_above:
  assumes "prefix_free (e # es)"
  shows "no_file_above (dest @ butlast (fst e)) (overlay dest (entry_image es) s)"
  unfolding no_file_above_def
proof (intro allI impI notI)
  fix q c
  assume q: "prefix q (dest @ butlast (fst e))" and f: "overlay dest (entry_image es) s q = Some (FFile c)"
  have ne: "fst e \<noteq> []" using assms by (simp add: prefix_free_def)
  show False
  proof (cases "prefix dest q")
    case True
    let ?q = "drop (length dest) q"
    from True f have "map_of es ?q = Some c"
      by (auto simp: overlay_def entry_image_def split: option.splits if_splits)
    then have m: "(?q, c) \<in> set es" by (rule map_of_SomeD)
    have "prefix ?q (butlast (fst e))"
      using q True by (auto simp: prefix_def)
    then have "strict_prefix ?q (fst e)" by (simp add: strict_prefix_butlast [OF ne])
    with m assms show False by (force simp: prefix_free_def)
  next
    case False
    have "prefix q dest"
      using q False by (metis prefix_same_cases prefixI)
    with False f show False by (simp add: overlay_def)
  qed
qed

lemma image_installable:
  assumes "prefix_free (e # es)"
  shows "installable dest (fst e) (overlay dest (entry_image es) s)"
proof -
  have ne: "fst e \<noteq> []" using assms by (simp add: prefix_free_def)
  have "\<not> list_ex (\<lambda>e'. strict_prefix (fst e) (fst e')) es"
    using prefix_freeD(2) [OF assms, of e] by (auto simp: list_ex_iff)
  with ne have "entry_image es (fst e) \<noteq> Some FDir" by (simp add: entry_image_def split: option.split)
  with ne image_no_file_above [OF assms] show ?thesis
    by (simp add: installable_def) (simp add: overlay_def)
qed

lemma image_install:
  assumes "prefix_free (e # es)"
  shows "install dest e (overlay dest (entry_image es) s) = overlay dest (entry_image (e # es)) s"
proof
  fix q
  have ne: "fst e \<noteq> []" using assms by (simp add: prefix_free_def)
  show "install dest e (overlay dest (entry_image es) s) q = overlay dest (entry_image (e # es)) s q"
  proof (cases "prefix dest q")
    case True
    then obtain q' where q: "q = dest @ q'" by (auto simp: prefix_def)
    show ?thesis
    proof (cases "q' = fst e")
      case True
      then show ?thesis by (cases e) (simp add: q install_def overlay_def entry_image_def)
    next
      case False
      have m: "map_of (e # es) q' = map_of es q'" using False by (cases e) auto
      have "strict_prefix q' (fst e) \<Longrightarrow> map_of es q' = None"
        using image_map_of [OF assms, of q'] m by (cases "map_of es q'") auto
      with False m show ?thesis
        by (simp add: q install_def overlay_def entry_image_def with_dirs_def
              strict_prefix_butlast [OF ne] split: option.split)
    qed
  next
    case False
    then have "prefix q (dest @ butlast (fst e)) \<longleftrightarrow> prefix q dest"
      by (metis prefix_same_cases prefixI prefix_order.trans)
    moreover have "q \<noteq> dest @ fst e" using False by auto
    ultimately show ?thesis using False by (simp add: install_def overlay_def with_dirs_def)
  qed
qed

lemma image_install_all:
  "prefix_free (rev es @ ds) \<Longrightarrow>
     installable_all dest es (overlay dest (entry_image ds) s) \<and>
     install_all dest es (overlay dest (entry_image ds) s) = overlay dest (entry_image (rev es @ ds)) s"
proof (induction es arbitrary: ds)
  case (Cons e es)
  then have pf: "prefix_free (rev es @ (e # ds))" by simp
  then have pe: "prefix_free (e # ds)" by (auto simp: prefix_free_def)
  from Cons.IH [OF pf] image_install [OF pe] image_installable [OF pe]
  show ?case by (simp add: install_all_def)
qed (simp add: install_all_def)

definition fresh_dir :: "path \<Rightarrow> fs \<Rightarrow> bool" where
  "fresh_dir dest s \<longleftrightarrow> no_file_above dest s \<and> (\<forall>q. strict_prefix dest q \<longrightarrow> s q = None)"

lemma with_dirs_fresh: "fresh_dir dest s \<Longrightarrow> with_dirs dest s = overlay dest (entry_image []) s"
  by (auto simp: fresh_dir_def with_dirs_def overlay_def entry_image_def fun_eq_iff strict_prefix_def
        prefix_def)

section \<open>Collecting\<close>

lemma map_r_Inr_elem:
  "map_r f xs = Inr ys \<Longrightarrow> (\<forall>y \<in> set ys. \<exists>x \<in> set xs. f x = Inr y) \<and> (\<forall>x \<in> set xs. \<exists>y \<in> set ys. f x = Inr y)"
  by (induction xs arbitrary: ys) (fastforce simp: bind_r_Inr_iff)+

lemma collect_entry_Inr:
  "collect_entry dir (p, t) = Inr fs \<Longrightarrow>
     (case t of TFile c \<Rightarrow>
        fs = [\<lparr>abs_path = join_on CHR ''/'' (dir # p), rel_path = join_on CHR ''/'' p,
               file_size = word_of_nat (length c)\<rparr>] \<and> p \<noteq> []
      | _ \<Rightarrow> fs = [])"
  by (cases t) (auto simp: bind_r_Inr_iff Let_def validate_rel_path_def split: if_splits)

lemma collect_files_elem:
  assumes "collect_files dir t = Inr files" and "tree_ok t"
  shows "f \<in> set files \<longleftrightarrow>
     (\<exists>p c. tree_at t p = Some (TFile c) \<and>
        f = \<lparr>abs_path = join_on CHR ''/'' (dir # p), rel_path = join_on CHR ''/'' p,
             file_size = word_of_nat (length c)\<rparr>)"
proof -
  from assms obtain ess where m: "map_r (collect_entry dir) (walk [] t) = Inr ess"
    and files: "set files = set (concat ess)"
    by (auto simp: collect_files_def bind_r_Inr_iff)
  note e = map_r_Inr_elem [OF m]
  note w = walk_at [OF assms(2), where k = "[]", simplified]
  show ?thesis
  proof
    assume "f \<in> set files"
    then obtain fs where fs: "fs \<in> set ess" "f \<in> set fs" using files by auto
    with e obtain p x where px: "(p, x) \<in> set (walk [] t)" "collect_entry dir (p, x) = Inr fs"
      by force
    with fs(2) collect_entry_Inr [OF px(2)] w [of p x]
    show "\<exists>p c. tree_at t p = Some (TFile c) \<and>
        f = \<lparr>abs_path = join_on CHR ''/'' (dir # p), rel_path = join_on CHR ''/'' p,
             file_size = word_of_nat (length c)\<rparr>"
      by (cases x) auto
  next
    assume "\<exists>p c. tree_at t p = Some (TFile c) \<and>
        f = \<lparr>abs_path = join_on CHR ''/'' (dir # p), rel_path = join_on CHR ''/'' p,
             file_size = word_of_nat (length c)\<rparr>"
    then obtain p c where pc: "tree_at t p = Some (TFile c)" and f: "f =
      \<lparr>abs_path = join_on CHR ''/'' (dir # p), rel_path = join_on CHR ''/'' p,
       file_size = word_of_nat (length c)\<rparr>" by blast
    from pc w have "(p, TFile c) \<in> set (walk [] t)" by simp
    with e obtain fs where "fs \<in> set ess" "collect_entry dir (p, TFile c) = Inr fs" by force
    with collect_entry_Inr [of dir p "TFile c" fs] f show "f \<in> set files"
      unfolding files by (simp del: collect_entry.simps) (use \<open>fs \<in> set ess\<close> in force)
  qed
qed

lemma collect_files_root:
  assumes "collect_files dir t = Inr files" and "tree_ok t"
  shows "tree_at t [] \<noteq> Some (TFile c)"
proof
  assume a: "tree_at t [] = Some (TFile c)"
  then have t: "t = TFile c" by simp
  from assms(1) show False
    by (auto simp: collect_files_def bind_r_Inr_iff t validate_rel_path_def)
qed

section \<open>The tree that comes back\<close>

text \<open>The files of \<open>dir\<close> still read as they were when the tree was walked.\<close>

definition holds_tree :: "(string \<Rightarrow> bytes option) \<Rightarrow> string \<Rightarrow> dir_tree \<Rightarrow> bool" where
  "holds_tree content dir t \<longleftrightarrow>
     (\<forall>p c. tree_at t p = Some (TFile c) \<longrightarrow> content (join_on CHR ''/'' (dir # p)) = Some c)"

text \<open>No file is longer than an \<open>u64\<close> counts, nor exactly as long as the zip64 marker.\<close>

definition sizes_ok :: "dir_tree \<Rightarrow> bool" where
  "sizes_ok t \<longleftrightarrow>
     (\<forall>p c. tree_at t p = Some (TFile c) \<longrightarrow> length c < 2 ^ 64 \<and> length c \<noteq> 0xFFFFFFFF)"

lemma walk_files:
  assumes "tree_ok t"
  shows "(\<forall>p c. tree_at t p = Some (TFile c) \<longrightarrow> P p c) \<longleftrightarrow>
     list_all (\<lambda>(p, x). case x of TFile c \<Rightarrow> P p c | _ \<Rightarrow> True) (walk [] t)"
  using walk_at [OF assms, where k = "[]"]
  by (fastforce simp: list_all_iff split: dir_tree.splits)

lemma list_all2_choice:
  "(\<And>x. x \<in> set xs \<Longrightarrow> \<exists>y. P x y) \<Longrightarrow> \<exists>ys. list_all2 P xs ys"
proof (induction xs)
  case (Cons x xs)
  then obtain ys where "list_all2 P xs ys" by auto
  moreover obtain y where "P x y" using Cons.prems by auto
  ultimately show ?case by (intro exI [of _ "y # ys"]) simp
qed auto

lemma list_all2_right: "list_all2 P xs ys \<Longrightarrow> y \<in> set ys \<Longrightarrow> \<exists>x \<in> set xs. P x y"
  by (induction rule: list_all2_induct) auto

lemma list_all2_left: "list_all2 P xs ys \<Longrightarrow> x \<in> set xs \<Longrightarrow> \<exists>y \<in> set ys. P x y"
  by (induction rule: list_all2_induct) auto

lemma tree_files_prefix_free:
  assumes "tree_ok t" and "\<And>c. tree_at t [] \<noteq> Some (TFile c)"
    and "\<And>e. e \<in> set es \<Longrightarrow> tree_at t (fst e) = Some (TFile (snd e))"
  shows "prefix_free es"
  unfolding prefix_free_def
proof (intro conjI ballI notI)
  fix e assume "e \<in> set es" "fst e = []"
  with assms show False by (metis)
next
  fix e e' assume "e \<in> set es" "e' \<in> set es" and sp: "strict_prefix (fst e) (fst e')"
  then have a: "tree_at t (fst e) = Some (TFile (snd e))" "tree_at t (fst e') = Some (TFile (snd e'))"
    using assms(3) by blast+
  from sp obtain n q where "fst e' = fst e @ n # q" by (auto elim: strict_prefixE')
  with a show False by (simp add: tree_at_append)
qed

lemma map_of_functional:
  assumes "\<And>e. e \<in> set es \<longleftrightarrow> G (fst e) = Some (snd e)"
  shows "map_of es = G"
proof
  fix q
  show "map_of es q = G q"
  proof (cases "map_of es q")
    case None
    then have "\<And>c. (q, c) \<notin> set es" by (auto simp: map_of_eq_None_iff image_iff)
    with assms None show ?thesis by (cases "G q") auto
  next
    case (Some c)
    with map_of_SomeD [OF Some] assms show ?thesis by auto
  qed
qed

lemma image_restored:
  assumes ok: "tree_ok t" and root: "\<And>c. tree_at t [] \<noteq> Some (TFile c)"
    and dir: "\<exists>es. t = TDir es"
    and es: "\<And>p c. (p, c) \<in> set es \<longleftrightarrow> tree_at t p = Some (TFile c)"
  shows "entry_image es = restored t"
proof
  fix q
  define G where "G p = (case tree_at t p of Some (TFile c) \<Rightarrow> Some c | _ \<Rightarrow> None)" for p
  have "map_of es = G"
    by (rule map_of_functional)
       (auto simp: es G_def split: option.splits dir_tree.splits)
  moreover have "list_ex (\<lambda>e. strict_prefix q (fst e)) es \<longleftrightarrow>
      (\<exists>ds. tree_at t q = Some (TDir ds) \<and> has_file (TDir ds))" (is "?l \<longleftrightarrow> ?r")
  proof
    assume ?l
    then obtain p c where p: "tree_at t p = Some (TFile c)" "strict_prefix q p"
      by (auto simp: list_ex_iff es)
    then obtain n r where r: "p = q @ n # r" by (auto elim: strict_prefixE')
    with p(1) obtain ds where ds: "tree_at t q = Some (TDir ds)" "tree_at (TDir ds) (n # r) = Some (TFile c)"
      by (cases "tree_at t q"; cases "the (tree_at t q)") (auto simp: tree_at_append)
    with has_file_iff [OF tree_at_ok [OF ok ds(1)]] show ?r by blast
  next
    assume ?r
    then obtain ds where ds: "tree_at t q = Some (TDir ds)" "has_file (TDir ds)" by blast
    with has_file_iff [OF tree_at_ok [OF ok ds(1)]] obtain r c where
      r: "tree_at (TDir ds) r = Some (TFile c)" by blast
    then have "tree_at t (q @ r) = Some (TFile c)" using ds by (simp add: tree_at_append)
    moreover have "strict_prefix q (q @ r)" using r by (cases r) (auto simp: strict_prefix_def)
    ultimately have "(q @ r, c) \<in> set es \<and> strict_prefix q (fst (q @ r, c))" by (simp add: es)
    then show ?l unfolding list_ex_iff by blast
  qed
  ultimately show "entry_image es q = restored t q"
    using dir by (auto simp: entry_image_def restored_def G_def split: option.splits dir_tree.splits)
qed

lemma image_cong_set:
  "prefix_free es \<Longrightarrow> set es = set ds \<Longrightarrow> map_of es = map_of ds \<Longrightarrow> entry_image es = entry_image ds"
  by (auto simp: entry_image_def fun_eq_iff list_ex_iff)

lemma archived_functional:
  "archived content f e \<Longrightarrow> archived content f e' \<Longrightarrow> e = e'"
proof -
  assume a: "archived content f e" "archived content f e'"
  then have "components (rel_path f) = map Normal (fst e)" "components (rel_path f) = map Normal (fst e')"
    unfolding archived_def by (metis good_path_name(1))+
  then have "normal_names (map Normal (fst e)) = normal_names (map Normal (fst e'))" by simp
  with a show ?thesis unfolding archived_def by (simp add: prod_eq_iff)
qed

lemma extract_tree:
  assumes os: "permits os" and ok: "tree_ok t" and dir: "\<exists>es. t = TDir es"
    and coll: "collect_files dir t = Inr files" and disk: "holds_tree content dir t"
    and sz: "sizes_ok t" and w: "write_zip crc content files = Inr (out, n)"
    and r: "pending r = out" and fresh: "fresh_dir dest s"
  shows "extract_zip os crc r dest s = (overlay dest (restored t) s, Inr ())"
proof -
  note elem = collect_files_elem [OF coll ok]
  note root = collect_files_root [OF coll ok]
  define P where "P f e \<longleftrightarrow> archived content f e \<and> tree_at t (fst e) = Some (TFile (snd e))" for f e
  have arch: "P f (p, c)"
    if "tree_at t p = Some (TFile c)" and "f = \<lparr>abs_path = join_on CHR ''/'' (dir # p),
        rel_path = join_on CHR ''/'' p, file_size = word_of_nat (length c)\<rparr>" for f p c
  proof -
    have "p \<noteq> []" using root that(1) by auto
    with tree_at_good [OF ok that(1)] have "good_path p" by (auto simp: good_path_def)
    with that disk sz show ?thesis
      by (auto simp: P_def archived_def holds_tree_def sizes_ok_def unat_of_nat)
  qed
  have "\<exists>es. list_all2 P files es"
    by (rule list_all2_choice) (use elem arch in blast)
  then obtain es where es: "list_all2 P files es" by blast
  then have es1: "list_all2 (archived content) files es"
    by (rule list_all2_mono) (simp add: P_def)
  have set_es: "(p, c) \<in> set es \<longleftrightarrow> tree_at t p = Some (TFile c)" for p c
  proof
    assume "(p, c) \<in> set es"
    from list_all2_right [OF es this] show "tree_at t p = Some (TFile c)" by (auto simp: P_def)
  next
    assume a: "tree_at t p = Some (TFile c)"
    let ?f = "\<lparr>abs_path = join_on CHR ''/'' (dir # p),
        rel_path = join_on CHR ''/'' p, file_size = word_of_nat (length c)\<rparr>"
    from a have "?f \<in> set files" unfolding elem by blast
    from list_all2_left [OF es this] obtain e where "e \<in> set es" "P ?f e" by blast
    with arch [OF a refl] archived_functional show "(p, c) \<in> set es" unfolding P_def by metis
  qed
  have pf: "prefix_free es" and pf': "prefix_free (rev es @ [])"
    using set_es by (auto intro!: tree_files_prefix_free [OF ok root])
  have im: "entry_image (rev es) = restored t"
    by (rule image_restored [OF ok root dir]) (simp add: set_es)
  have marker: "\<forall>f \<in> set files. file_size f \<noteq> 0xFFFFFFFF"
  proof
    fix f assume "f \<in> set files"
    then obtain p c where pc: "tree_at t p = Some (TFile c)" "file_size f = word_of_nat (length c)"
      unfolding elem by auto
    with sz have "unat (file_size f) = length c" "length c \<noteq> 0xFFFFFFFF"
      by (auto simp: sizes_ok_def unat_of_nat)
    then show "file_size f \<noteq> 0xFFFFFFFF" by auto
  qed
  note a = image_install_all [OF pf', of dest s]
  show ?thesis
    using extract_write_zip [OF os w es1 marker r, of dest s] a im fresh with_dirs_fresh [OF fresh]
    by (simp add: fresh_dir_def)
qed

end
