(* ===== verification/Part_Sizes.thy ===== *)
theory Part_Sizes
  imports Part_Zip_Roundtrip
begin

text \<open>
  Three counts of an archive: the bytes \<open>write\_zip\<close> emits, the count it returns, and the
  estimate the multipart upload is sized with.
\<close>

section \<open>The returned count\<close>

definition counted :: "zip_writer \<Rightarrow> bool" where
  "counted w \<longleftrightarrow> zw_offset w = word_of_nat (length (zw_out w))"

lemma length_written_header:
  "length (written_header z sz nm) = 26 + length nm + (if z then 20 else 0)"
  by (simp add: written_header_def local_header_fields_def local_sizes_def Let_def)

lemma length_data_descriptor: "length (data_descriptor z c sz) = (if z then 24 else 16)"
  by (simp add: data_descriptor_def)

lemma length_entry_bytes:
  "length (entry_bytes crc z sz nm data) =
     30 + length nm + (if z then 20 else 0) + length data + (if z then 24 else 16)"
  by (simp add: entry_bytes_def length_written_header length_data_descriptor)

lemma write_entry_counted:
  assumes "write_entry crc content w f = Inr w'" and "counted w"
  shows "counted w'"
proof -
  obtain name c where n: "unat (file_size f) \<le> length c"
    "zw_out w' = zw_out w
       @ entry_bytes crc (needs64 w f) (file_size f) (as_bytes name) (take (unat (file_size f)) c)"
    "zw_offset w' = zw_offset w
           + (30 + word_of_nat (length name) + (if needs64 w f then 20 else 0))
           + file_size f + (if needs64 w f then 24 else 16)"
    by (rule write_entry_Inr [OF assms(1)])
  then have "length (take (unat (file_size f)) c) = unat (file_size f)" by simp
  with n assms(2) show ?thesis by (simp add: counted_def length_entry_bytes)
qed

definition ce_needs64 :: "central_entry \<Rightarrow> bool" where
  "ce_needs64 c \<longleftrightarrow> ce_zip64 c \<or> u32_max64 < ce_offset c"

lemma write_central_Inr:
  assumes "write_central w c = Inr w'"
  shows "length (fst w') = length (fst w) + 46 + length (ce_name c) + (if ce_needs64 c then 28 else 0)"
    and "snd w' = snd w + (46 + word_of_nat (length (ce_name c)) + (if ce_needs64 c then 28 else 0))"
    and "length (fst w) \<le> length (fst w')"
  using assms
  by (auto simp: write_central_def Let_def bind_r_Inr_iff ce_needs64_def local_sizes_def)

lemma write_central_counted:
  "fold_r write_central w cs = Inr w' \<Longrightarrow> snd w = word_of_nat (length (fst w)) \<Longrightarrow>
     snd w' = word_of_nat (length (fst w')) \<and>
     snd w' = snd w + sum_list (map (\<lambda>c. 46 + word_of_nat (length (ce_name c))
                                        + (if ce_needs64 c then 28 else 0)) cs)"
proof (induction cs arbitrary: w)
  case (Cons c cs)
  then obtain w1 where w1: "write_central w c = Inr w1" "fold_r write_central w1 cs = Inr w'"
    by (auto simp: bind_r_Inr_iff)
  have "snd w1 = word_of_nat (length (fst w1))"
    using write_central_Inr(1,2) [OF w1(1)] Cons.prems(2) by simp
  note ih = Cons.IH [OF w1(2) this]
  show ?case
    by (intro conjI, use ih in blast)
       (simp only: conjunct2 [OF ih] write_central_Inr(2) [OF w1(1)] list.map sum_list.Cons add.assoc)
qed auto

lemma write_eocd_length:
  "length (fst (write_eocd n off sz)) =
     (if 65535 < n \<or> u32_max64 < off \<or> u32_max64 < sz then 76 else 0) + 22"
  "snd (write_eocd n off sz) =
     (if 65535 < n \<or> u32_max64 < off \<or> u32_max64 < sz then 76 else 0) + 22"
  by (auto simp: write_eocd_def Let_def)

lemma write_zip_parts:
  assumes "write_zip crc content files = Inr (out, n)"
  obtains w o1 off1 where
    "fold_r (write_entry crc content) \<lparr>zw_out = [], zw_offset = 0, zw_central = []\<rparr> files = Inr w"
    and "fold_r write_central (zw_out w, zw_offset w) (zw_central w) = Inr (o1, off1)"
    and "out = o1 @ fst (write_eocd (word_of_nat (length (zw_central w))) (zw_offset w)
                (off1 - zw_offset w))"
    and "n = off1 + snd (write_eocd (word_of_nat (length (zw_central w))) (zw_offset w)
                (off1 - zw_offset w))"
  using assms by (auto simp: write_zip_def Let_def bind_r_Inr_iff case_prod_beta)

lemma fold_write_entry_counted:
  "fold_r (write_entry crc content) w files = Inr w' \<Longrightarrow> counted w \<Longrightarrow> counted w'"
  by (induction files arbitrary: w) (auto simp: bind_r_Inr_iff dest: write_entry_counted)

lemma write_zip_count:
  assumes "write_zip crc content files = Inr (out, n)"
  shows "n = word_of_nat (length out)"
proof -
  obtain w o1 off1 where w:
    "fold_r (write_entry crc content) \<lparr>zw_out = [], zw_offset = 0, zw_central = []\<rparr> files = Inr w"
    "fold_r write_central (zw_out w, zw_offset w) (zw_central w) = Inr (o1, off1)"
    "out = o1 @ fst (write_eocd (word_of_nat (length (zw_central w))) (zw_offset w)
                (off1 - zw_offset w))"
    "n = off1 + snd (write_eocd (word_of_nat (length (zw_central w))) (zw_offset w)
                (off1 - zw_offset w))"
    by (rule write_zip_parts [OF assms])
  have "counted w" by (rule fold_write_entry_counted [OF w(1)]) (simp add: counted_def)
  then have "off1 = word_of_nat (length o1)"
    using write_central_counted [OF w(2)] by (simp add: counted_def)
  with w(3,4) show ?thesis by (simp add: write_eocd_length)
qed

section \<open>When the writer succeeds\<close>

text \<open>The file has an archive name of at most 65535 bytes and is still as long as it was.\<close>

definition writable :: "(string \<Rightarrow> bytes option) \<Rightarrow> zip_file_entry \<Rightarrow> bool" where
  "writable content f =
     (case (path_to_zip_name (rel_path f), content (abs_path f)) of
        (Inr name, Some c) \<Rightarrow> length name \<le> 65535 \<and> unat (file_size f) \<le> length c
      | _ \<Rightarrow> False)"

lemma write_entry_writable:
  assumes "writable content f"
  shows "\<exists>w'. write_entry crc content w f = Inr w' \<and>
     (\<exists>c. zw_central w' = zw_central w @ [c] \<and> length (ce_name c) \<le> 65535)"
  using assms stream_file_take [of "unat (file_size f)" _ 4194304 "abs_path f"]
  by (auto simp: writable_def write_entry_def Let_def try_u16_def split: sum.splits option.splits)

lemma write_entries_writable:
  "\<forall>f \<in> set files. writable content f \<Longrightarrow> \<forall>c \<in> set (zw_central w). length (ce_name c) \<le> 65535 \<Longrightarrow>
     \<exists>w'. fold_r (write_entry crc content) w files = Inr w'
          \<and> (\<forall>c \<in> set (zw_central w'). length (ce_name c) \<le> 65535)"
proof (induction files arbitrary: w)
  case (Cons f files)
  then obtain w1 where "write_entry crc content w f = Inr w1"
    "\<forall>c \<in> set (zw_central w1). length (ce_name c) \<le> 65535"
    using write_entry_writable [of content f crc w] by fastforce
  with Cons.IH [of w1] Cons.prems(1) show ?case by auto
qed simp

lemma write_central_writable:
  "\<forall>c \<in> set cs. length (ce_name c) \<le> 65535 \<Longrightarrow> \<exists>w'. fold_r write_central w cs = Inr w'"
proof (induction cs arbitrary: w)
  case (Cons c cs)
  have "\<exists>w1. write_central w c = Inr w1"
    using Cons.prems
    by (cases "ce_zip64 c \<or> u32_max64 < ce_offset c") (simp_all add: write_central_def Let_def try_u16_def)
  then obtain w1 where "write_central w c = Inr w1" ..
  with Cons.IH [of w1] Cons.prems show ?case by simp
qed simp

lemma write_zip_writable:
  assumes "\<forall>f \<in> set files. writable content f"
  shows "\<exists>out n. write_zip crc content files = Inr (out, n)"
proof -
  obtain w where w: "fold_r (write_entry crc content)
      \<lparr>zw_out = [], zw_offset = 0, zw_central = []\<rparr> files = Inr w"
    "\<forall>c \<in> set (zw_central w). length (ce_name c) \<le> 65535"
    using write_entries_writable [OF assms, of "\<lparr>zw_out = [], zw_offset = 0, zw_central = []\<rparr>" crc]
    by auto
  obtain o1 off1 where "fold_r write_central (zw_out w, zw_offset w) (zw_central w) = Inr (o1, off1)"
    using write_central_writable [OF w(2), of "(zw_out w, zw_offset w)"] by auto
  with w(1) show ?thesis by (simp add: write_zip_def Let_def case_prod_beta)
qed

section \<open>The estimate\<close>

text \<open>The entries that need zip64 only because of where they start.\<close>

definition late_zip64 :: "central_entry \<Rightarrow> bool" where
  "late_zip64 c \<longleftrightarrow> ce_needs64 c \<and> \<not> u32_max64 < ce_size c"

definition entry_cost :: "central_entry \<Rightarrow> u64" where
  "entry_cost c =
     (30 + word_of_nat (length (ce_name c)) + (if ce_needs64 c then 20 else 0))
     + ce_size c + (if ce_needs64 c then 24 else 16)
     + (46 + word_of_nat (length (ce_name c)) + (if ce_needs64 c then 28 else 0))"

lemma write_entry_estimate:
  assumes "write_entry crc content w f = Inr w'"
  obtains c where "zw_central w' = zw_central w @ [c]" and "ce_size c = file_size f"
    and "ce_offset c = zw_offset w" and "u32_max64 < ce_size c \<longrightarrow> ce_needs64 c"
    and "ce_needs64 c \<longleftrightarrow> u32_max64 < ce_size c \<or> u32_max64 < ce_offset c"
    and "zw_offset w' + (46 + word_of_nat (length (ce_name c)) + (if ce_needs64 c then 28 else 0))
           = zw_offset w + entry_cost c"
    and "entry_cost c = entry_estimate f + (if late_zip64 c then 56 else 0)"
proof -
  obtain name d where n: "path_to_zip_name (rel_path f) = Inr name" "unat (file_size f) \<le> length d"
    "zw_offset w' = zw_offset w
           + (30 + word_of_nat (length name) + (if needs64 w f then 20 else 0))
           + file_size f + (if needs64 w f then 24 else 16)"
    "zw_central w' = zw_central w @
           [\<lparr>ce_name = as_bytes name, ce_crc32 = crc (take (unat (file_size f)) d),
             ce_size = file_size f, ce_offset = zw_offset w, ce_zip64 = needs64 w f\<rparr>]"
    by (rule write_entry_Inr [OF assms])
  define c where "c = \<lparr>ce_name = as_bytes name, ce_crc32 = crc (take (unat (file_size f)) d),
             ce_size = file_size f, ce_offset = zw_offset w, ce_zip64 = needs64 w f\<rparr>"
  then have f: "length (ce_name c) = length name" "ce_size c = file_size f" "ce_offset c = zw_offset w"
    and c64: "ce_needs64 c = needs64 w f"
    by (auto simp: ce_needs64_def needs64_def)
  show thesis
  proof (rule that [of c])
    show "zw_central w' = zw_central w @ [c]" by (simp add: n(4) c_def)
    show "ce_needs64 c \<longleftrightarrow> u32_max64 < ce_size c \<or> u32_max64 < ce_offset c"
      by (simp add: c64 f needs64_def)
    show "zw_offset w' + (46 + word_of_nat (length (ce_name c)) + (if ce_needs64 c then 28 else 0))
           = zw_offset w + entry_cost c"
      by (simp add: n(3) c64 f entry_cost_def)
    show "entry_cost c = entry_estimate f + (if late_zip64 c then 56 else 0)"
      using n(1) by (auto simp: entry_cost_def entry_estimate_def late_zip64_def c64 f needs64_def Let_def)
  qed (auto simp: c64 f needs64_def)
qed

lemma entries_estimate:
  assumes "fold_r (write_entry crc content) w files = Inr w'"
  shows "\<exists>cs. zw_central w' = zw_central w @ cs \<and> length cs = length files \<and>
     zw_offset w' + sum_list (map (\<lambda>c. 46 + word_of_nat (length (ce_name c))
                                        + (if ce_needs64 c then 28 else 0)) cs)
       = zw_offset w + foldl (\<lambda>t f. t + entry_estimate f) 0 files
         + 56 * word_of_nat (length (filter late_zip64 cs))"
  using assms
proof (induction files arbitrary: w)
  case (Cons f files)
  then obtain w1 where w1: "write_entry crc content w f = Inr w1"
    "fold_r (write_entry crc content) w1 files = Inr w'" by (auto simp: bind_r_Inr_iff)
  obtain c where c: "zw_central w1 = zw_central w @ [c]"
    "zw_offset w1 + (46 + word_of_nat (length (ce_name c)) + (if ce_needs64 c then 28 else 0))
       = zw_offset w + entry_cost c"
    "entry_cost c = entry_estimate f + (if late_zip64 c then 56 else 0)"
    by (rule write_entry_estimate [OF w1(1)])
  have shift: "foldl (\<lambda>t f. t + entry_estimate f) x fs = x + foldl (\<lambda>t f. t + entry_estimate f) 0 fs"
    for x fs
  proof (induction fs arbitrary: x)
    case (Cons g fs)
    from Cons [of "x + entry_estimate g"] Cons [of "entry_estimate g"] show ?case
      by (simp add: add.assoc)
  qed simp
  from Cons.IH [OF w1(2)] obtain cs where cs: "zw_central w' = zw_central w1 @ cs"
    "length cs = length files"
    "zw_offset w' + sum_list (map (\<lambda>c. 46 + word_of_nat (length (ce_name c))
                                        + (if ce_needs64 c then 28 else 0)) cs)
       = zw_offset w1 + foldl (\<lambda>t f. t + entry_estimate f) 0 files
         + 56 * word_of_nat (length (filter late_zip64 cs))" by blast
  have "zw_offset w' + sum_list (map (\<lambda>c. 46 + word_of_nat (length (ce_name c))
            + (if ce_needs64 c then 28 else 0)) (c # cs))
     = (zw_offset w1 + (46 + word_of_nat (length (ce_name c)) + (if ce_needs64 c then 28 else 0)))
       + foldl (\<lambda>t f. t + entry_estimate f) 0 files
       + 56 * word_of_nat (length (filter late_zip64 cs))"
    using cs(3) by (simp add: algebra_simps)
  also have "\<dots> = zw_offset w + (entry_estimate f + foldl (\<lambda>t f. t + entry_estimate f) 0 files)
       + 56 * word_of_nat (length (filter late_zip64 (c # cs)))"
    unfolding c(2) c(3) by (simp add: algebra_simps)
  also have "entry_estimate f + foldl (\<lambda>t f. t + entry_estimate f) 0 files
      = foldl (\<lambda>t f. t + entry_estimate f) 0 (f # files)"
    using shift [of "entry_estimate f" files] by simp
  finally show ?case using c(1) cs(1,2) by (intro exI [of _ "c # cs"]) simp
qed simp

end
