(* ===== verification/Part_Zip_Theorems.thy ===== *)
theory Part_Zip_Theorems
  imports Part_Tree Part_Sizes
begin

text \<open>
  The properties of the archive of a part, each with a concrete instance: the round trip of a
  directory tree, confinement, independence of the chunks, the archives that come back
  incomplete or not at all, and the sizes.
\<close>

section \<open>A directory, a checksum and a disk to run on\<close>

definition demo_tree :: dir_tree where
  "demo_tree = TDir [(''a'', TFile [104, 105]), (''sub'', TDir [(''b'', TFile [1])])]"

definition demo_disk :: "string \<Rightarrow> bytes option" where
  "demo_disk = map_of [(''d/a'', [104, 105]), (''d/sub/b'', [1])]"

definition demo_crc :: "bytes \<Rightarrow> u32" where
  "demo_crc bs = foldl (\<lambda>a b. 31 * a + ucast b) 7 bs"

definition no_files :: fs where
  "no_files = (\<lambda>_. None)"

definition demo_files :: "zip_file_entry list" where
  "demo_files =
     [\<lparr>abs_path = ''d/a'', rel_path = ''a'', file_size = 2\<rparr>,
      \<lparr>abs_path = ''d/sub/b'', rel_path = ''sub/b'', file_size = 1\<rparr>]"

lemma demo_tree_ok: "tree_ok demo_tree"
  by code_simp

lemma demo_sizes: "sizes_ok demo_tree" and demo_holds: "holds_tree demo_disk ''d'' demo_tree"
  unfolding sizes_ok_def holds_tree_def walk_files [OF demo_tree_ok]
  by (simp_all add: demo_tree_def demo_disk_def)

lemma demo_collect: "collect_files ''d'' demo_tree = Inr demo_files"
  by code_simp

lemma demo_fresh: "fresh_dir [''r''] no_files"
  by (simp add: fresh_dir_def no_file_above_def no_files_def)

lemma demo_write: "\<exists>out n. write_zip demo_crc demo_disk demo_files = Inr (out, n)"
proof (rule write_zip_writable)
  have "path_to_zip_name ''a'' = Inr ''a''" "path_to_zip_name ''sub/b'' = Inr ''sub/b''"
    by code_simp+
  then show "\<forall>f \<in> set demo_files. writable demo_disk f"
    by (simp add: demo_files_def writable_def demo_disk_def)
qed

section \<open>The properties\<close>

text \<open>
  C4. Backing a directory up and restoring it gives the directory back: if a directory without
  symbolic links is collected and archived, and no file in it is 4294967295 bytes long, then
  extracting the archive into a fresh directory, whatever chunks the transport cuts it into,
  succeeds and leaves exactly the regular files with their contents and the directories above
  them, and nothing else below the destination. Empty directories do not come back.
\<close>

theorem zip_roundtrip:
  assumes "permits os" and "tree_ok t" and "\<exists>es. t = TDir es"
    and "collect_files dir t = Inr files" and "holds_tree content dir t" and "sizes_ok t"
    and "write_zip crc content files = Inr (concat chunks, n)" and "fresh_dir dest s"
  shows "extract_zip os crc (chunks, fails) dest s = (overlay dest (restored t) s, Inr ())"
  by (rule extract_tree [OF assms(1-7) _ assms(8)]) (simp add: pending_def)

theorem zip_roundtrip_witness:
  "\<exists>out n. write_zip demo_crc demo_disk demo_files = Inr (out, n) \<and>
     extract_zip allow_all demo_crc ([out], False) [''r''] no_files
       = (overlay [''r''] (restored demo_tree) no_files, Inr ())"
proof -
  obtain out n where w: "write_zip demo_crc demo_disk demo_files = Inr (out, n)"
    using demo_write by blast
  then have "write_zip demo_crc demo_disk demo_files = Inr (concat [out], n)" by simp
  from zip_roundtrip [OF permits_allow_all demo_tree_ok _ demo_collect demo_holds demo_sizes this demo_fresh]
  show ?thesis using w by (auto simp: demo_tree_def)
qed

text \<open>
  C8. Extraction is confined to its destination: whatever bytes arrive, whatever the operating
  system refuses and however far extraction gets, a path that is not below the destination keeps
  its node, except that the missing ancestors of the destination become directories. An archive
  with \<open>..\<close> or absolute names cannot write elsewhere (ZipSlip).
\<close>

theorem zip_slip:
  "fst (extract_zip os crc r dest s) p = s p \<or> prefix dest p \<or>
   (strict_prefix p dest \<and> s p = None \<and> fst (extract_zip os crc r dest s) p = Some FDir)"
  using extract_zip_outside [where os = os and crc = crc and r = r and d = dest and s = s and p = p,
      OF surjective_pairing] by blast

text \<open>
  What extraction does depends on the bytes of the stream, not on how the transport cuts
  them into reads: two readers with the same bytes and the same ending leave the same files and
  the same result, on malformed and truncated input too.
\<close>

theorem zip_chunks:
  assumes "permits os" and "concat cs = concat cs'"
  shows "extract_zip os crc (cs, fails) dest s = extract_zip os crc (cs', fails) dest s"
proof -
  have "same_stream (cs, fails) (cs', fails)"
    using assms(2) by (simp add: same_stream_def pending_def)
  then show ?thesis
    by (auto simp: extract_zip_def fs_bind_def extract_loop_blind [OF assms(1)]
        split: prod.splits sum.splits)
qed

theorem zip_chunks_witness:
  "extract_zip allow_all demo_crc ([[80, 75], [3, 4, 45]], True) [''r''] no_files
     = extract_zip allow_all demo_crc ([[80], [75, 3], [], [4, 45]], True) [''r''] no_files"
  by (rule zip_chunks) simp_all

text \<open>
  A file of exactly 4294967295 bytes cannot be restored. The writer uses zip64 only for
  sizes above \<open>u32::MAX\<close>, so it puts the value 0xFFFFFFFF in the header without a zip64 field;
  the reader takes 0xFFFFFFFF as the zip64 marker and rejects the archive. The backup succeeds,
  the restore fails.
\<close>

theorem zip_marker_size:
  assumes "path_to_zip_name (rel_path f) = Inr name" and "length name \<le> 65535"
    and "utf8_valid name" and "file_size f = 0xFFFFFFFF"
    and "content (abs_path f) = Some data" and "length data = 0xFFFFFFFF"
  shows "\<exists>out n. write_zip crc content [f] = Inr (out, n) \<and>
           snd (extract_zip allow_all crc ([out], False) dest no_files) = Inl Zip64SizesMissing"
proof -
  let ?w0 = "\<lparr>zw_out = [], zw_offset = 0, zw_central = []\<rparr>"
  let ?nm = "as_bytes name"
  have st: "stream_file (abs_path f) 4194304 4294967295 data = Inr data"
    using stream_file_take [of 4294967295 data 4194304 "abs_path f"] assms(6) by simp
  define w where "w = \<lparr>zw_out = entry_bytes crc False 0xFFFFFFFF ?nm data,
      zw_offset = (30 + word_of_nat (length name)) + word_of_nat (length data) + 16,
      zw_central = [\<lparr>ce_name = ?nm, ce_crc32 = crc data, ce_size = 0xFFFFFFFF, ce_offset = 0,
        ce_zip64 = False\<rparr>]\<rparr>"
  have e: "write_entry crc content ?w0 f = Inr w"
    using assms st
    by (simp add: write_entry_def Let_def try_u16_def w_def entry_bytes_def written_header_def)
  have "\<exists>out n. write_zip crc content [f] = Inr (out, n)"
    by (rule write_zip_writable) (use assms in \<open>simp add: writable_def\<close>)
  then obtain out n where out: "write_zip crc content [f] = Inr (out, n)" by blast
  obtain w' sig rest where w': "fold_r (write_entry crc content) ?w0 [f] = Inr w'"
    "out = zw_out w' @ write_u32 sig @ rest"
    by (rule write_zip_Inr [OF out])
  with e have "w' = w" by simp
  with w'(2) have p: "pending ([out], False) = write_u32 ZIP_LOCAL_FILE_HEADER_SIG @
      (written_header False 0xFFFFFFFF ?nm @ (data @ data_descriptor False (crc data) 0xFFFFFFFF
        @ write_u32 sig @ rest))"
    by (simp add: pending_def w_def entry_bytes_def)
  obtain r1 where r1: "read_u32_opt ([out], False) = Inr (Some ZIP_LOCAL_FILE_HEADER_SIG, r1)"
    "pending r1 = written_header False 0xFFFFFFFF ?nm @ (data
        @ data_descriptor False (crc data) 0xFFFFFFFF @ write_u32 sig @ rest)"
    by (rule parsesD [OF read_u32_opt_parses p])
  have "fails_on read_local_header (written_header False 0xFFFFFFFF ?nm) Zip64SizesMissing"
    using assms(2,3) by (intro fails_marker_header [of _ name]) (simp_all add: from_utf8_def)
  with r1(2) have h: "read_local_header r1 = Inl Zip64SizesMissing"
    unfolding fails_on_def by blast
  have "create_dir_all allow_all dest no_files = (with_dirs dest no_files, Inr ())"
    by (rule create_dir_all_ok) (simp_all add: allow_all_def no_file_above_def no_files_def)
  then have "snd (extract_zip allow_all crc ([out], False) dest no_files) = Inl Zip64SizesMissing"
    using r1(1) h by (simp add: extract_zip_def fs_bind_def extract_loop.simps)
  with out show ?thesis by blast
qed

theorem zip_marker_size_witness:
  "\<exists>data. length data = 0xFFFFFFFF \<and>
    (\<exists>out n. write_zip demo_crc (\<lambda>_. Some data)
        [\<lparr>abs_path = ''d/x'', rel_path = ''x'', file_size = 0xFFFFFFFF\<rparr>] = Inr (out, n) \<and>
      snd (extract_zip allow_all demo_crc ([out], False) [''r''] no_files) = Inl Zip64SizesMissing)"
proof -
  obtain data :: bytes where d: "length data = 0xFFFFFFFF" using Ex_list_of_length by blast
  have nm: "path_to_zip_name ''x'' = Inr ''x''" "utf8_valid ''x''" by code_simp+
  from zip_marker_size [of "\<lparr>abs_path = ''d/x'', rel_path = ''x'', file_size = 0xFFFFFFFF\<rparr>"
      "''x''" "\<lambda>_. Some data" data demo_crc "[''r'']"] nm d
  show ?thesis by (intro exI [of _ data]) simp
qed

text \<open>
  C38. An archive cut short between two entries is accepted. For every split of the file list the
  bytes of the first files alone extract with success, and the files after the cut are missing
  without an error: the reader takes the end of the stream where a signature is due as the end
  of the archive and never asks for the central directory.
\<close>

theorem zip_truncation_accepted:
  assumes "permits os" and "write_zip crc content (files1 @ files2) = Inr (out, n)"
    and "list_all2 (archived content) files1 es1"
    and "\<forall>f \<in> set files1. file_size f \<noteq> 0xFFFFFFFF"
    and "no_file_above dest s" and "installable_all dest es1 (with_dirs dest s)"
  shows "\<exists>cut. strict_prefix cut out \<and>
     extract_zip os crc ([cut], False) dest s = (install_all dest es1 (with_dirs dest s), Inr ())"
proof -
  let ?w0 = "\<lparr>zw_out = [], zw_offset = 0, zw_central = []\<rparr>"
  obtain w sig rest where w: "fold_r (write_entry crc content) ?w0 (files1 @ files2) = Inr w"
    "out = zw_out w @ write_u32 sig @ rest"
    by (rule write_zip_Inr [OF assms(2)])
  then obtain w1 where w1: "fold_r (write_entry crc content) ?w0 files1 = Inr w1"
    "fold_r (write_entry crc content) w1 files2 = Inr w"
    by (auto simp: fold_r_append bind_r_Inr_iff)
  have "\<exists>more. zw_out w = zw_out w1 @ more" using w1(2)
  proof (induction files2 arbitrary: w1)
    case (Cons f fs)
    then obtain w2 where w2: "write_entry crc content w1 f = Inr w2"
      "fold_r (write_entry crc content) w2 fs = Inr w" by (auto simp: bind_r_Inr_iff)
    from Cons.IH [OF w2(2)] write_entry_Inr [OF w2(1)] show ?case by (metis append.assoc)
  qed simp
  then obtain more where more: "zw_out w = zw_out w1 @ more" ..
  have "length (write_u32 sig) \<noteq> 0" by simp
  then have "write_u32 sig \<noteq> []" by (simp only: length_0_conv not_False_eq_True)
  with w(2) more have "strict_prefix (zw_out w1) out" by (simp add: strict_prefix_def)
  moreover have "extract_zip os crc ([zw_out w1], False) dest s
      = (install_all dest es1 (with_dirs dest s), Inr ())"
  proof -
    obtain ext where ext: "zw_out w1 = ext" "\<And>r s rest. pending r = ext @ rest \<Longrightarrow>
        installable_all dest es1 s \<Longrightarrow> \<exists>r'. extract_loop os crc dest r s
          = extract_loop os crc dest r' (install_all dest es1 s) \<and> pending r' = rest \<and> snd r' = snd r"
      using extract_written_entries [OF assms(1) w1(1) assms(3,4), of dest] by auto
    have "pending ([zw_out w1], False) = ext @ []" by (simp add: pending_def ext(1))
    from ext(2) [OF this assms(6)] obtain r' where
      r': "extract_loop os crc dest ([zw_out w1], False) (with_dirs dest s)
       = extract_loop os crc dest r' (install_all dest es1 (with_dirs dest s))"
      "pending r' = []" "snd r' = False"
      unfolding snd_conv by blast
    have "create_dir_all os dest s = (with_dirs dest s, Inr ())"
      using assms(1,5) by (simp add: create_dir_all_ok permits_def)
    with r' read_u32_opt_eof [of r'] show ?thesis
      by (simp add: extract_zip_def fs_bind_def extract_loop.simps [of os crc dest r'])
  qed
  ultimately show ?thesis by blast
qed

theorem zip_truncation_accepted_witness:
  "\<exists>out n cut. write_zip demo_crc demo_disk (take 1 demo_files @ drop 1 demo_files) = Inr (out, n) \<and>
     strict_prefix cut out \<and>
     extract_zip allow_all demo_crc ([cut], False) [] no_files
       = (install_all [] [([''a''], [104, 105])] (with_dirs [] no_files), Inr ())"
proof -
  obtain out n where w: "write_zip demo_crc demo_disk demo_files = Inr (out, n)"
    using demo_write by blast
  then have w': "write_zip demo_crc demo_disk (take 1 demo_files @ drop 1 demo_files) = Inr (out, n)"
    by simp
  have a: "list_all2 (archived demo_disk) (take 1 demo_files) [([''a''], [104, 105])]"
    by code_simp
  have b: "\<forall>f \<in> set (take 1 demo_files). file_size f \<noteq> 0xFFFFFFFF" by code_simp
  have c: "no_file_above [] no_files"
    by (simp add: no_file_above_def no_files_def)
  have d: "installable_all [] [([''a''], [104, 105])] (with_dirs [] no_files)"
    by (simp add: installable_def no_file_above_def no_files_def with_dirs_def)
  from zip_truncation_accepted [OF permits_allow_all w' a b c d] w' show ?thesis by blast
qed

text \<open>
  The count \<open>write\_zip\<close> returns is the number of bytes it wrote (modulo \<open>2^64\<close>, as the \<open>u64\<close>
  counter has it): zip64 fields, data descriptors and both zip64 end records are all counted.
\<close>

theorem zip_count:
  assumes "write_zip crc content files = Inr (out, n)"
  shows "n = word_of_nat (length out)"
  by (rule write_zip_count [OF assms])

theorem zip_count_witness:
  "\<exists>out n. write_zip demo_crc demo_disk demo_files = Inr (out, n) \<and> n = word_of_nat (length out)"
proof -
  obtain out n where w: "write_zip demo_crc demo_disk demo_files = Inr (out, n)"
    using demo_write by blast
  with zip_count [OF w] show ?thesis by blast
qed

text \<open>
  The estimate the multipart upload is sized with misses at most 56 bytes per file and 76
  bytes once: the returned count is the estimate plus 56 for each file that needs zip64 only
  because it starts beyond 4 GiB, plus 76 when the end records need zip64 for the same reason.
\<close>

theorem zip_estimate:
  assumes "write_zip crc content files = Inr (out, n)" and "length files < 2 ^ 64"
  shows "\<exists>k e. k \<le> length files \<and> (e = 0 \<or> e = 76) \<and>
           n = estimate_zip_size files + 56 * word_of_nat k + e"
proof -
  obtain w o1 off1 where w:
    "fold_r (write_entry crc content) \<lparr>zw_out = [], zw_offset = 0, zw_central = []\<rparr> files = Inr w"
    "fold_r write_central (zw_out w, zw_offset w) (zw_central w) = Inr (o1, off1)"
    "n = off1 + snd (write_eocd (word_of_nat (length (zw_central w))) (zw_offset w)
                (off1 - zw_offset w))"
    by (rule write_zip_parts [OF assms(1)])
  from entries_estimate [OF w(1)] obtain cs where cs: "zw_central w = cs" "length cs = length files"
    "zw_offset w + sum_list (map (\<lambda>c. 46 + word_of_nat (length (ce_name c))
                                        + (if ce_needs64 c then 28 else 0)) cs)
       = foldl (\<lambda>t f. t + entry_estimate f) 0 files
         + 56 * word_of_nat (length (filter late_zip64 cs))"
    by auto
  let ?big = "65535 < (word_of_nat (length files) :: u64) \<or> u32_max64 < zw_offset w
      \<or> u32_max64 < off1 - zw_offset w"
  have counted: "counted w" by (rule fold_write_entry_counted [OF w(1)]) (simp add: counted_def)
  have "snd (o1, off1) = foldl (\<lambda>t f. t + entry_estimate f) 0 files
         + 56 * word_of_nat (length (filter late_zip64 cs))"
    unfolding conjunct2 [OF write_central_counted [OF w(2)], unfolded fst_conv snd_conv,
        OF counted [unfolded counted_def]]
    using cs(1,3) by simp
  moreover have "n = off1 + ((if ?big then 76 else 0) + 22)"
    using w(3) cs(1,2) by (simp only: write_eocd_length)
  ultimately have n: "n = foldl (\<lambda>t f. t + entry_estimate f) 0 files
         + 56 * word_of_nat (length (filter late_zip64 cs)) + ((if ?big then 76 else 0) + 22)"
    by (metis snd_conv)
  have files: "65535 < (word_of_nat (length files) :: u64) \<longleftrightarrow> 65535 < length files"
    using assms(2) by (simp add: word_less_nat_alt unat_of_nat)
  show ?thesis
  proof (intro exI conjI)
    show "length (filter late_zip64 cs) \<le> length files" using cs(2) by (metis length_filter_le)
    show "n = estimate_zip_size files + 56 * word_of_nat (length (filter late_zip64 cs))
        + (if ?big \<and> \<not> 65535 < length files then 76 else 0)"
      unfolding n using files by (auto simp: estimate_zip_size_def)
  qed auto
qed

theorem zip_estimate_witness:
  "\<exists>out n k e. write_zip demo_crc demo_disk demo_files = Inr (out, n) \<and> k \<le> length demo_files \<and>
     (e = 0 \<or> e = 76) \<and> n = estimate_zip_size demo_files + 56 * word_of_nat k + e"
proof -
  obtain out n where w: "write_zip demo_crc demo_disk demo_files = Inr (out, n)"
    using demo_write by blast
  have "length demo_files < 2 ^ 64" by (simp add: demo_files_def)
  from zip_estimate [OF w this] w show ?thesis by blast
qed

text \<open>
  Two different file names can share one archive name: names that are not UTF-8 are converted
  lossily, so the two files with the one-byte names 0xFE and 0xFF both become the replacement
  character, and of the two files one is lost on extraction.
\<close>

theorem zip_name_collision:
  "path_to_zip_name [char_of (0xFE :: nat)] = path_to_zip_name [char_of (0xFF :: nat)] \<and>
   path_to_zip_name [char_of (0xFF :: nat)] = Inr (map char_of [0xEF, 0xBF, 0xBD :: nat])"
  by code_simp

end
