(* ===== verification/Upload_Progress.thy ===== *)
theory Upload_Progress
  imports Prelude
begin

text \<open>
  \<open>UploadProgress\<close> of \<open>src/storage.rs\<close>: the counters of a backup and the rate-limited log line.
  The counters are \<open>AtomicU64\<close>: \<open>fetch\_add\<close> wraps. \<open>now_ms\<close> is the time since \<open>start\<close> in
  milliseconds. The transfer rate of the log line (floating point) is left out of \<open>log_line\<close>.
\<close>

record upload_progress =
  staging_parts_total :: u64
  staging_parts_done :: u64
  upload_parts_total :: u64
  upload_parts_done :: u64
  upload_total_bytes_est :: u64
  uploaded_bytes :: u64
  last_log_ms :: u64
  last_uploaded_bytes :: u64
  suppress_log :: bool
  p_retries :: u64
  p_throttles :: u64
  p_errors :: u64

definition new_progress :: upload_progress where
  "new_progress = \<lparr>staging_parts_total = 0, staging_parts_done = 0, upload_parts_total = 0,
     upload_parts_done = 0, upload_total_bytes_est = 0, uploaded_bytes = 0, last_log_ms = 0,
     last_uploaded_bytes = 0, suppress_log = False, p_retries = 0, p_throttles = 0, p_errors = 0\<rparr>"

record log_line =
  log_stage :: "(u64 \<times> u64) option"
  log_upload :: "(u64 \<times> u64 \<times> u64 \<times> u64) option"

definition saturating_mul :: "u64 \<Rightarrow> u64 \<Rightarrow> u64" where
  "saturating_mul a b = (if unat a * unat b \<le> u64_max then a * b else - 1)"

definition progress_pct :: "u64 \<Rightarrow> u64 \<Rightarrow> u64" where
  "progress_pct uploaded est =
     min (if est = 0 then 0 else saturating_mul uploaded 100 div est) 100"

text \<open>One thread at a time: the \<open>compare\_exchange\<close> on \<open>last\_log\_ms\<close> succeeds.\<close>

definition maybe_log_progress ::
  "u64 \<Rightarrow> upload_progress \<Rightarrow> upload_progress \<times> log_line option"
where
  "maybe_log_progress now_ms p =
     (if suppress_log p then (p, None)
      else if now_ms < last_log_ms p + 1000 then (p, None)
      else
        let stage = (if 0 < staging_parts_total p
                     then Some (staging_parts_done p, staging_parts_total p) else None);
            up = (if 0 < upload_parts_total p \<or> 0 < uploaded_bytes p
                  then Some (upload_parts_done p, upload_parts_total p, uploaded_bytes p,
                             progress_pct (uploaded_bytes p) (upload_total_bytes_est p))
                  else None)
        in (p\<lparr>last_log_ms := now_ms, last_uploaded_bytes := uploaded_bytes p\<rparr>,
            if stage = None \<and> up = None then None
            else Some \<lparr>log_stage = stage, log_upload = up\<rparr>))"

definition suppress_logging :: "upload_progress \<Rightarrow> upload_progress" where
  "suppress_logging p = p\<lparr>suppress_log := True\<rparr>"

definition set_staging_total ::
  "u64 \<Rightarrow> u64 \<Rightarrow> upload_progress \<Rightarrow> upload_progress \<times> log_line option"
where
  "set_staging_total parts now_ms p =
     maybe_log_progress now_ms (p\<lparr>staging_parts_total := parts, staging_parts_done := 0\<rparr>)"

definition record_part_staged :: "u64 \<Rightarrow> upload_progress \<Rightarrow> upload_progress \<times> log_line option" where
  "record_part_staged now_ms p =
     maybe_log_progress now_ms (p\<lparr>staging_parts_done := staging_parts_done p + 1\<rparr>)"

definition set_upload_total ::
  "u64 \<Rightarrow> u64 \<Rightarrow> upload_progress \<Rightarrow> upload_progress \<times> log_line option"
where
  "set_upload_total parts now_ms p =
     maybe_log_progress now_ms
       (p\<lparr>upload_parts_total := parts, upload_parts_done := 0, upload_total_bytes_est := 0,
          uploaded_bytes := 0, last_uploaded_bytes := 0\<rparr>)"

definition add_upload_total_bytes_est :: "u64 \<Rightarrow> upload_progress \<Rightarrow> upload_progress" where
  "add_upload_total_bytes_est b p = p\<lparr>upload_total_bytes_est := upload_total_bytes_est p + b\<rparr>"

definition record_upload_done :: "u64 \<Rightarrow> upload_progress \<Rightarrow> upload_progress \<times> log_line option" where
  "record_upload_done now_ms p =
     maybe_log_progress now_ms (p\<lparr>upload_parts_done := upload_parts_done p + 1\<rparr>)"

definition record_bytes :: "u64 \<Rightarrow> u64 \<Rightarrow> upload_progress \<Rightarrow> upload_progress \<times> log_line option" where
  "record_bytes b now_ms p =
     (if b = 0 then (p, None)
      else maybe_log_progress now_ms (p\<lparr>uploaded_bytes := uploaded_bytes p + b\<rparr>))"

definition record_retry :: "upload_progress \<Rightarrow> upload_progress" where
  "record_retry p = p\<lparr>p_retries := p_retries p + 1\<rparr>"

definition record_throttle :: "upload_progress \<Rightarrow> upload_progress" where
  "record_throttle p = p\<lparr>p_throttles := p_throttles p + 1\<rparr>"

definition record_error :: "upload_progress \<Rightarrow> upload_progress" where
  "record_error p = p\<lparr>p_errors := p_errors p + 1\<rparr>"

section \<open>The log is rate limited\<close>

text \<open>
  The progress log is rate limited and its percentage is a percentage: a line is printed only
  when logging is not suppressed and at least 1000 ms have passed since the last line (as long
  as that sum does not leave 64 bits), it restarts the interval, and it never shows more than 100%.
\<close>

theorem progress_log_limited:
  assumes "maybe_log_progress now_ms p = (p', Some l)" and "unat (last_log_ms p) + 1000 \<le> u64_max"
  shows "\<not> suppress_log p \<and> unat (last_log_ms p) + 1000 \<le> unat now_ms \<and> last_log_ms p' = now_ms \<and>
    (case log_upload l of None \<Rightarrow> True | Some (d, t, b, pct) \<Rightarrow> pct \<le> 100)"
proof -
  have u: "unat (last_log_ms p + 1000) = unat (last_log_ms p) + 1000"
    using assms(2) by (simp add: unat_word_ariths unat_of_nat)
  from assms(1) have "\<not> now_ms < last_log_ms p + 1000"
    by (auto simp: maybe_log_progress_def split: if_splits)
  then have "unat (last_log_ms p) + 1000 \<le> unat now_ms"
    by (simp add: not_less word_le_nat_alt u)
  with assms(1) show ?thesis
    by (auto simp: maybe_log_progress_def Let_def progress_pct_def split: if_splits)
qed

theorem progress_log_limited_witness:
  "\<exists>p' l. maybe_log_progress 1000 (new_progress\<lparr>upload_parts_total := 1\<rparr>) = (p', Some l) \<and>
     (case log_upload l of None \<Rightarrow> True | Some (d, t, b, pct) \<Rightarrow> pct \<le> 100)"
proof -
  have e: "maybe_log_progress 1000 (new_progress\<lparr>upload_parts_total := 1\<rparr>)
      = (new_progress\<lparr>upload_parts_total := 1, last_log_ms := 1000\<rparr>,
         Some \<lparr>log_stage = None, log_upload = Some (0, 1, 0, 0)\<rparr>)"
    by (simp add: maybe_log_progress_def new_progress_def progress_pct_def)
  from progress_log_limited [OF e] e show ?thesis by (auto simp: new_progress_def)
qed

end
