(* ===== verification/World.thy ===== *)
theory World
  imports Upload_Progress
begin

text \<open>
  Effects. The asynchronous code runs as functions on a world: the state \<open>svc\<close> of everything
  outside the process (the bucket, the clock, other instances acting on the same bucket), the
  progress counters, and a log of the requests made, in order. The S3 client, the clock and the
  random source are not under \<open>src/\<close>: they are the functions of an \<open>env\<close>, arbitrary unless a law
  is named. A call may change the state of the service in any way, so other instances that act
  between two calls are part of the call.

  \<open>lock_lost\<close> is whether the heartbeat of the garbage collector has cancelled its token, \<open>preempt\<close>
  whether \<open>select!\<close> then takes the branch that gives up the work.

  An operation ends with a value, an error, a panic, or is dropped: \<open>tokio::select!\<close> gives up the
  guarded body at one of its await points. Not returning at all is \<open>Diverge\<close>.
\<close>

section \<open>Requests and the environment\<close>

datatype request =
    ReqHead string
  | ReqGet string
  | ReqPut string bytes "string option" bool
  | ReqDelete string
  | ReqDeleteMany "string list"
  | ReqList string "string option"
  | ReqCreateMultipart string
  | ReqUploadPart string string nat bytes
  | ReqComplete string string "nat list"
  | ReqAbort string string
  | Sleep nat

text \<open>A page of a listing: keys with size and modification time (nanoseconds since the epoch).\<close>

record list_entry =
  le_key :: "string option"
  le_size :: "u64 option"
  le_modified :: "int option"

record list_page =
  lp_contents :: "list_entry list"
  lp_next :: "string option"

text \<open>What \<open>upload\_part\<close> answers, and what \<open>complete\_multipart\_upload\<close> is told about a part.\<close>

record upload_part_output =
  up_etag :: "string option"
  up_crc32 :: "string option"

record completed_part =
  cp_number :: nat
  cp_etag :: "string option"
  cp_crc32 :: "string option"

type_synonym ('s, 'a) sdk_call = "'s \<Rightarrow> (sdk_error + 'a) \<times> 's"

record 's env =
  s3_head :: "string \<Rightarrow> ('s, u64 option) sdk_call"
  s3_get :: "string \<Rightarrow> ('s, bytes option) sdk_call"
  s3_put :: "string \<Rightarrow> bytes \<Rightarrow> string option \<Rightarrow> bool \<Rightarrow> ('s, string option) sdk_call"
  s3_delete :: "string \<Rightarrow> ('s, unit) sdk_call"
  s3_delete_objects :: "string list \<Rightarrow> ('s, (string option \<times> string option) list) sdk_call"
  s3_list :: "string \<Rightarrow> string option \<Rightarrow> ('s, list_page) sdk_call"
  s3_create_multipart :: "string \<Rightarrow> ('s, string option) sdk_call"
  s3_upload_part :: "string \<Rightarrow> string \<Rightarrow> nat \<Rightarrow> bytes \<Rightarrow> string \<Rightarrow> ('s, upload_part_output) sdk_call"
  s3_complete :: "string \<Rightarrow> string \<Rightarrow> completed_part list \<Rightarrow> ('s, unit) sdk_call"
  s3_abort :: "string \<Rightarrow> string \<Rightarrow> ('s, unit) sdk_call"
  clock_ns :: "'s \<Rightarrow> int"
  elapsed_ms :: "'s \<Rightarrow> u64"
  do_sleep :: "nat \<Rightarrow> 's \<Rightarrow> 's"
  rand_upto :: "u64 \<Rightarrow> 's \<Rightarrow> u64"
  lock_lost :: "'s \<Rightarrow> bool"
  preempt :: "'s \<Rightarrow> bool"
  page_fuel :: nat
  crc32 :: "bytes \<Rightarrow> u32"
  b64_encode :: "bytes \<Rightarrow> string"
  b64_decode :: "string \<Rightarrow> bytes option"
  completion :: "(nat \<times> u64 \<times> upload_part_output) list \<Rightarrow> (nat \<times> u64 \<times> upload_part_output) list"

record 's world =
  svc :: 's
  progress :: upload_progress
  guarded :: bool
  trace :: "request list"

section \<open>Operations with effects\<close>

datatype 'a outcome = Ok 'a | Err error | Panic | Dropped | Diverge

type_synonym ('s, 'a) io = "'s world \<Rightarrow> 'a outcome \<times> 's world"

definition io_return :: "'a \<Rightarrow> ('s, 'a) io" where
  "io_return x w = (Ok x, w)"

definition io_fail :: "error \<Rightarrow> ('s, 'a) io" where
  "io_fail e w = (Err e, w)"

definition io_panic :: "('s, 'a) io" where
  "io_panic w = (Panic, w)"

definition io_diverge :: "('s, 'a) io" where
  "io_diverge w = (Diverge, w)"

definition io_lift :: "'a result \<Rightarrow> ('s, 'a) io" where
  "io_lift r w = (case r of Inl e \<Rightarrow> (Err e, w) | Inr x \<Rightarrow> (Ok x, w))"

text \<open>\<open>m.await?\<close> followed by \<open>f\<close>.\<close>

definition io_bind :: "('s, 'a) io \<Rightarrow> ('a \<Rightarrow> ('s, 'b) io) \<Rightarrow> ('s, 'b) io" where
  "io_bind m f w =
     (case m w of
        (Ok x, w') \<Rightarrow> f x w'
      | (Err e, w') \<Rightarrow> (Err e, w')
      | (Panic, w') \<Rightarrow> (Panic, w')
      | (Dropped, w') \<Rightarrow> (Dropped, w')
      | (Diverge, w') \<Rightarrow> (Diverge, w'))"

text \<open>\<open>match m.await { Ok(x) => f x, Err(e) => g e }\<close>: a panic or a drop is not caught.\<close>

definition io_match :: "('s, 'a) io \<Rightarrow> ('a \<Rightarrow> ('s, 'b) io) \<Rightarrow> (error \<Rightarrow> ('s, 'b) io) \<Rightarrow> ('s, 'b) io" where
  "io_match m f g w =
     (case m w of
        (Ok x, w') \<Rightarrow> f x w'
      | (Err e, w') \<Rightarrow> g e w'
      | (Panic, w') \<Rightarrow> (Panic, w')
      | (Dropped, w') \<Rightarrow> (Dropped, w')
      | (Diverge, w') \<Rightarrow> (Diverge, w'))"

lemma io_bind_return [simp]: "io_bind (io_return x) f = f x"
  by (rule ext) (simp add: io_bind_def io_return_def)

lemma io_bind_fail [simp]: "io_bind (io_fail e) f = io_fail e"
  by (rule ext) (simp add: io_bind_def io_fail_def)

lemma io_match_as_bind: "io_bind m f = io_match m f io_fail"
  by (rule ext) (simp add: io_bind_def io_match_def io_fail_def split: prod.splits outcome.splits)

fun io_for :: "'a list \<Rightarrow> ('a \<Rightarrow> ('s, unit) io) \<Rightarrow> ('s, unit) io" where
  "io_for [] f = io_return ()"
| "io_for (x # xs) f = io_bind (f x) (\<lambda>_. io_for xs f)"

text \<open>Collecting results, stopping at the first error (\<open>try_collect\<close>).\<close>

fun io_map :: "('a \<Rightarrow> ('s, 'b) io) \<Rightarrow> 'a list \<Rightarrow> ('s, 'b list) io" where
  "io_map f [] = io_return []"
| "io_map f (x # xs) = io_bind (f x) (\<lambda>y. io_bind (io_map f xs) (\<lambda>ys. io_return (y # ys)))"

text \<open>An await point: inside \<open>select!\<close> the body may be given up here.\<close>

definition await :: "'s env \<Rightarrow> request \<Rightarrow> ('s \<Rightarrow> 'a \<times> 's) \<Rightarrow> ('s, 'a) io" where
  "await env q call w =
     (if guarded w \<and> preempt env (svc w) then (Dropped, w)
      else (case call (svc w) of
              (x, s) \<Rightarrow> (Ok x, w\<lparr>svc := s, trace := trace w @ [q]\<rparr>)))"

definition sleep :: "'s env \<Rightarrow> nat \<Rightarrow> ('s, unit) io" where
  "sleep env ms = await env (Sleep ms) (\<lambda>s. ((), do_sleep env ms s))"

definition with_progress :: "(upload_progress \<Rightarrow> upload_progress) \<Rightarrow> ('s, unit) io" where
  "with_progress f w = (Ok (), w\<lparr>progress := f (progress w)\<rparr>)"

definition is_lock_lost :: "'s env \<Rightarrow> ('s, bool) io" where
  "is_lock_lost env w = (Ok (lock_lost env (svc w)), w)"

text \<open>\<open>select!\<close> between a body and the loss of the lock.\<close>

definition select_guarded :: "error \<Rightarrow> ('s, 'a) io \<Rightarrow> ('s, 'a) io" where
  "select_guarded lost m w =
     (case m (w\<lparr>guarded := True\<rparr>) of
        (r, w') \<Rightarrow> (case r of Dropped \<Rightarrow> Err lost | _ \<Rightarrow> r, w'\<lparr>guarded := guarded w\<rparr>))"

definition clock :: "'s env \<Rightarrow> ('s, int) io" where
  "clock env w = (Ok (clock_ns env (svc w)), w)"

section \<open>What an operation requests\<close>

text \<open>
  \<open>requests Q m\<close>: every request \<open>m\<close> makes satisfies \<open>Q\<close>, whatever the service answers and however
  \<open>m\<close> ends.
\<close>

definition requests :: "(request \<Rightarrow> bool) \<Rightarrow> ('s, 'a) io \<Rightarrow> bool" where
  "requests Q m \<longleftrightarrow> (\<forall>w. \<exists>qs. trace (snd (m w)) = trace w @ qs \<and> list_all Q qs)"

named_theorems requests_intros \<open>which requests an operation makes\<close>

lemma requestsD:
  assumes "requests Q m" and "m w = (r, w')"
  obtains qs where "trace w' = trace w @ qs" and "list_all Q qs"
  using assms unfolding requests_def by (metis snd_conv)

lemma requestsI:
  "(\<And>w r w'. m w = (r, w') \<Longrightarrow> \<exists>qs. trace w' = trace w @ qs \<and> list_all Q qs) \<Longrightarrow> requests Q m"
  unfolding requests_def by (metis prod.collapse)

lemma requests_mono: "requests Q m \<Longrightarrow> (\<And>q. Q q \<Longrightarrow> R q) \<Longrightarrow> requests R m"
  unfolding requests_def by (meson list.pred_mono_strong)

lemma requests_return [requests_intros]: "requests Q (io_return x)"
  by (simp add: requests_def io_return_def)

lemma requests_fail [requests_intros]: "requests Q (io_fail e)"
  by (simp add: requests_def io_fail_def)

lemma requests_panic [requests_intros]: "requests Q io_panic"
  by (simp add: requests_def io_panic_def)

lemma requests_diverge [requests_intros]: "requests Q io_diverge"
  by (simp add: requests_def io_diverge_def)

lemma requests_lift [requests_intros]: "requests Q (io_lift r)"
  by (simp add: requests_def io_lift_def split: sum.split)

lemma requests_clock [requests_intros]: "requests Q (clock env)"
  by (simp add: requests_def clock_def)

lemma requests_lock_lost [requests_intros]: "requests Q (is_lock_lost env)"
  by (simp add: requests_def is_lock_lost_def)

lemma requests_select [requests_intros]: "requests Q m \<Longrightarrow> requests Q (select_guarded e m)"
proof (rule requestsI)
  fix w r w' assume m: "requests Q m" and s: "select_guarded e m w = (r, w')"
  obtain x u where x: "m (w\<lparr>guarded := True\<rparr>) = (x, u)" by fastforce
  obtain qs where "trace u = trace (w\<lparr>guarded := True\<rparr>) @ qs" "list_all Q qs"
    by (rule requestsD [OF m x])
  with s x show "\<exists>qs. trace w' = trace w @ qs \<and> list_all Q qs"
    by (auto simp: select_guarded_def)
qed

lemma requests_progress [requests_intros]: "requests Q (with_progress f)"
  by (simp add: requests_def with_progress_def)

lemma requests_await [requests_intros]: "Q q \<Longrightarrow> requests Q (await env q call)"
  by (auto simp: requests_def await_def split: prod.split)

lemma requests_sleep [requests_intros]: "Q (Sleep ms) \<Longrightarrow> requests Q (sleep env ms)"
  unfolding sleep_def by (rule requests_await)

lemma requests_match [requests_intros]:
  assumes "requests Q m" and "\<And>x. requests Q (f x)" and "\<And>e. requests Q (g e)"
  shows "requests Q (io_match m f g)"
proof (rule requestsI)
  fix w r w' assume r: "io_match m f g w = (r, w')"
  obtain a u where m: "m w = (a, u)" by fastforce
  obtain qs where qs: "trace u = trace w @ qs" "list_all Q qs" by (rule requestsD [OF assms(1) m])
  show "\<exists>qs. trace w' = trace w @ qs \<and> list_all Q qs"
  proof (cases a)
    case (Ok x)
    with r m have "f x u = (r, w')" by (simp add: io_match_def)
    from requestsD [OF assms(2) this] qs show ?thesis by (metis append.assoc list_all_append)
  next
    case (Err e)
    with r m have "g e u = (r, w')" by (simp add: io_match_def)
    from requestsD [OF assms(3) this] qs show ?thesis by (metis append.assoc list_all_append)
  qed (use r m qs in \<open>auto simp: io_match_def\<close>)
qed

lemma requests_bind [requests_intros]:
  "requests Q m \<Longrightarrow> (\<And>x. requests Q (f x)) \<Longrightarrow> requests Q (io_bind m f)"
  unfolding io_match_as_bind by (intro requests_match requests_fail)

text \<open>The continuation only has to be considered on what the first operation can return.\<close>

lemma requests_bind_post:
  assumes "requests Q m" and "\<And>w x u. m w = (Ok x, u) \<Longrightarrow> requests Q (f x)"
  shows "requests Q (io_bind m f)"
proof (rule requestsI)
  fix w r w' assume r: "io_bind m f w = (r, w')"
  obtain a u where m: "m w = (a, u)" by fastforce
  obtain qs where qs: "trace u = trace w @ qs" "list_all Q qs" by (rule requestsD [OF assms(1) m])
  show "\<exists>qs. trace w' = trace w @ qs \<and> list_all Q qs"
  proof (cases a)
    case (Ok x)
    with r m have "f x u = (r, w')" by (simp add: io_bind_def)
    from requestsD [OF assms(2) [OF m [unfolded Ok]] this] qs show ?thesis
      by (metis append.assoc list_all_append)
  qed (use r m qs in \<open>auto simp: io_bind_def\<close>)
qed

lemma requests_if [requests_intros]:
  "requests Q f \<Longrightarrow> requests Q g \<Longrightarrow> requests Q (if b then f else g)"
  by simp

lemma requests_for [requests_intros]:
  "(\<And>x. x \<in> set xs \<Longrightarrow> requests Q (f x)) \<Longrightarrow> requests Q (io_for xs f)"
  by (induction xs) (auto intro: requests_intros)

lemma requests_map [requests_intros]:
  "(\<And>x. x \<in> set xs \<Longrightarrow> requests Q (f x)) \<Longrightarrow> requests Q (io_map f xs)"
  by (induction xs) (auto intro!: requests_intros)

section \<open>Hoare triples\<close>

text \<open>
  \<open>holds P m Q\<close>: started in a world that satisfies \<open>P\<close>, \<open>m\<close> ends with an outcome and a world that
  satisfy \<open>Q\<close>, whatever the outcome.
\<close>

definition holds :: "('s world \<Rightarrow> bool) \<Rightarrow> ('s, 'a) io \<Rightarrow> ('a outcome \<Rightarrow> 's world \<Rightarrow> bool) \<Rightarrow> bool" where
  "holds P m Q \<longleftrightarrow> (\<forall>w. P w \<longrightarrow> Q (fst (m w)) (snd (m w)))"

lemma holdsI: "(\<And>w. P w \<Longrightarrow> Q (fst (m w)) (snd (m w))) \<Longrightarrow> holds P m Q"
  by (simp add: holds_def)

lemma holdsD: "holds P m Q \<Longrightarrow> P w \<Longrightarrow> m w = (r, w') \<Longrightarrow> Q r w'"
  by (metis fst_conv holds_def snd_conv)

text \<open>An invariant of the service state kept by an operation.\<close>

definition keeps :: "('s \<Rightarrow> bool) \<Rightarrow> ('s, 'a) io \<Rightarrow> bool" where
  "keeps I m \<longleftrightarrow> (\<forall>w. I (svc w) \<longrightarrow> I (svc (snd (m w))))"

named_theorems keeps_intros \<open>operations that keep an invariant of the service\<close>

lemma keepsD: "keeps I m \<Longrightarrow> I (svc w) \<Longrightarrow> m w = (r, w') \<Longrightarrow> I (svc w')"
  unfolding keeps_def by (metis snd_conv)

lemma keepsI: "(\<And>w r w'. I (svc w) \<Longrightarrow> m w = (r, w') \<Longrightarrow> I (svc w')) \<Longrightarrow> keeps I m"
  unfolding keeps_def by (metis prod.collapse)

lemma keeps_pure [keeps_intros]:
  "keeps I (io_return x)" "keeps I (io_fail e)" "keeps I io_panic" "keeps I io_diverge"
  "keeps I (io_lift r)" "keeps I (clock env)" "keeps I (with_progress f)"
  by (simp_all add: keeps_def io_return_def io_fail_def io_panic_def io_diverge_def io_lift_def
      clock_def with_progress_def split: sum.split)

lemma keeps_lock_lost [keeps_intros]: "keeps I (is_lock_lost env)"
  by (simp add: keeps_def is_lock_lost_def)

lemma keeps_select [keeps_intros]: "keeps I m \<Longrightarrow> keeps I (select_guarded e m)"
proof (rule keepsI)
  fix w r w' assume m: "keeps I m" and i: "I (svc w)" and s: "select_guarded e m w = (r, w')"
  obtain x u where x: "m (w\<lparr>guarded := True\<rparr>) = (x, u)" by fastforce
  have "I (svc u)" by (rule keepsD [OF m _ x]) (simp add: i)
  with s x show "I (svc w')" by (auto simp: select_guarded_def)
qed

lemma keeps_await [keeps_intros]:
  "(\<And>s. I s \<Longrightarrow> I (snd (call s))) \<Longrightarrow> keeps I (await env q call)"
  by (force simp: keeps_def await_def case_prod_beta)

lemma keeps_match [keeps_intros]:
  assumes "keeps I m" and "\<And>x. keeps I (f x)" and "\<And>e. keeps I (g e)"
  shows "keeps I (io_match m f g)"
proof (rule keepsI)
  fix w r w' assume i: "I (svc w)" and r: "io_match m f g w = (r, w')"
  obtain a u where m: "m w = (a, u)" by fastforce
  from keepsD [OF assms(1) i m] r m assms(2,3) show "I (svc w')"
    by (auto simp: io_match_def dest: keepsD split: outcome.splits)
qed

lemma keeps_bind [keeps_intros]:
  "keeps I m \<Longrightarrow> (\<And>x. keeps I (f x)) \<Longrightarrow> keeps I (io_bind m f)"
  unfolding io_match_as_bind by (intro keeps_match keeps_pure)

lemma keeps_if [keeps_intros]: "keeps I f \<Longrightarrow> keeps I g \<Longrightarrow> keeps I (if b then f else g)"
  by simp

lemma keeps_for [keeps_intros]: "(\<And>x. x \<in> set xs \<Longrightarrow> keeps I (f x)) \<Longrightarrow> keeps I (io_for xs f)"
  by (induction xs) (auto intro: keeps_intros)

lemma keeps_map [keeps_intros]: "(\<And>x. x \<in> set xs \<Longrightarrow> keeps I (f x)) \<Longrightarrow> keeps I (io_map f xs)"
  by (induction xs) (auto intro!: keeps_intros)

section \<open>Inversion\<close>

lemma io_bind_OkE:
  assumes "io_bind m f w = (Ok y, w')"
  obtains x u where "m w = (Ok x, u)" and "f x u = (Ok y, w')"
  using assms by (auto simp: io_bind_def split: prod.splits outcome.splits)

lemma io_bind_Ok: "m w = (Ok x, u) \<Longrightarrow> io_bind m f w = f x u"
  by (simp add: io_bind_def)

lemma await_Ok:
  "await env q call w = (Ok x, w') \<Longrightarrow>
     call (svc w) = (x, svc w') \<and> w' = w\<lparr>svc := svc w', trace := trace w @ [q]\<rparr>"
  by (auto simp: await_def split: if_splits prod.splits)

lemma await_trace:
  "await env q call w = (Ok x, w') \<Longrightarrow> trace w' = trace w @ [q]"
  by (auto simp: await_def split: if_splits prod.splits)

lemma await_svc:
  "await env q call w = (Ok x, w') \<Longrightarrow> call (svc w) = (x, svc w')"
  by (auto simp: await_def split: if_splits prod.splits)

lemma await_not_Err [simp]: "await env q call w \<noteq> (Err e, w')"
  by (auto simp: await_def split: prod.split)

end
