(* ===== verification/Retry.thy ===== *)
theory Retry
  imports World
begin

text \<open>
  \<open>src/retry.rs\<close>: retrying an operation with exponential backoff. The arithmetic is that of the
  release build: shifts take the distance modulo 64, additions wrap.
\<close>

record retry_config =
  max_attempts :: u32
  base_delay_ms :: u64

datatype ('a, 'e) retry_result = ROk 'a | RRetry 'e | RFatal 'e

definition base_delay :: "retry_config \<Rightarrow> nat \<Rightarrow> u64" where
  "base_delay cfg attempt =
     saturating_mul (base_delay_ms cfg) (push_bit ((attempt - 1) mod 64) 1)"

definition delay_for_attempt :: "retry_config \<Rightarrow> nat \<Rightarrow> (u64 \<Rightarrow> u64) \<Rightarrow> u64" where
  "delay_for_attempt cfg attempt gen_range =
     (let base_ms = base_delay cfg attempt;
          jitter_ms = gen_range (base_ms div 2)
      in base_ms + jitter_ms)"

text \<open>The \<open>for\<close> loop over the remaining attempts, with \<open>last\_error\<close>.\<close>

fun retry_loop ::
  "'s env \<Rightarrow> retry_config \<Rightarrow> (nat \<Rightarrow> ('s, ('a, 'e) retry_result) io) \<Rightarrow> nat list \<Rightarrow> 'e option
     \<Rightarrow> ('s, 'e + 'a) io"
where
  "retry_loop env cfg f [] last_error =
     (case last_error of None \<Rightarrow> io_panic | Some e \<Rightarrow> io_return (Inl e))"
| "retry_loop env cfg f (attempt # rest) last_error =
     io_bind (f attempt) (\<lambda>r.
       case r of
         ROk v \<Rightarrow> io_return (Inr v)
       | RFatal e \<Rightarrow> io_return (Inl e)
       | RRetry e \<Rightarrow>
           if unat (max_attempts cfg) \<le> attempt then io_return (Inl e)
           else
             (\<lambda>w. let delay = delay_for_attempt cfg attempt (\<lambda>m. rand_upto env m (svc w)) in
                io_bind (sleep env (unat delay)) (\<lambda>_. retry_loop env cfg f rest (Some e)) w))"

definition with_retry ::
  "'s env \<Rightarrow> retry_config \<Rightarrow> (nat \<Rightarrow> ('s, ('a, 'e) retry_result) io) \<Rightarrow> ('s, 'e + 'a) io"
where
  "with_retry env cfg f = retry_loop env cfg f [1..<Suc (unat (max_attempts cfg))] None"

section \<open>What a retried operation requests\<close>

lemma requests_pointwise: "(\<And>w. requests Q (g w)) \<Longrightarrow> requests Q (\<lambda>w. g w w)"
  by (simp add: requests_def)

lemma keeps_pointwise: "(\<And>w. keeps I (g w)) \<Longrightarrow> keeps I (\<lambda>w. g w w)"
  by (simp add: keeps_def)

lemma requests_retry_loop:
  assumes "\<And>n. requests Q (f n)" and "\<And>ms. Q (Sleep ms)"
  shows "requests Q (retry_loop env cfg f ns le)"
proof (induction ns arbitrary: le)
  case Nil
  then show ?case by (cases le) (auto intro: requests_intros)
next
  case (Cons n ns)
  show ?case
    unfolding retry_loop.simps Let_def
    by (intro requests_bind assms(1))
       (auto split: retry_result.split intro!: requests_intros Cons.IH assms(2)
          requests_pointwise [where g = "\<lambda>w. io_bind (sleep env (unat (delay_for_attempt cfg n
             (\<lambda>m. rand_upto env m (svc w))))) (\<lambda>_. retry_loop env cfg f ns (Some _))"])
qed

lemma requests_with_retry [requests_intros]:
  "(\<And>n. requests Q (f n)) \<Longrightarrow> (\<And>ms. Q (Sleep ms)) \<Longrightarrow> requests Q (with_retry env cfg f)"
  unfolding with_retry_def by (rule requests_retry_loop)

lemma keeps_sleep: "(\<And>s ms. I s \<Longrightarrow> I (do_sleep env ms s)) \<Longrightarrow> keeps I (sleep env ms)"
  unfolding sleep_def by (intro keeps_await) simp

lemma keeps_with_retry:
  assumes "\<And>n. keeps I (f n)" and "\<And>s ms. I s \<Longrightarrow> I (do_sleep env ms s)"
  shows "keeps I (with_retry env cfg f)"
proof -
  have "keeps I (retry_loop env cfg f ns le)" for ns le
  proof (induction ns arbitrary: le)
    case Nil
    then show ?case by (cases le) (auto intro: keeps_intros)
  next
    case (Cons n ns)
    show ?case
      unfolding retry_loop.simps Let_def
      by (intro keeps_bind assms(1))
         (auto split: retry_result.split intro!: keeps_intros Cons.IH keeps_sleep assms(2)
            keeps_pointwise [where g = "\<lambda>w. io_bind (sleep env (unat (delay_for_attempt cfg n
               (\<lambda>m. rand_upto env m (svc w))))) (\<lambda>_. retry_loop env cfg f ns (Some _))"])
  qed
  then show ?thesis by (simp add: with_retry_def)
qed

section \<open>The properties\<close>

lemma retry_loop_result:
  "retry_loop env cfg f [k..<Suc (unat (max_attempts cfg))] le w = (Ok r, w') \<Longrightarrow>
     k \<le> unat (max_attempts cfg) \<Longrightarrow>
     \<exists>n u u'. k \<le> n \<and> n \<le> unat (max_attempts cfg) \<and>
       (case r of
          Inr v \<Rightarrow> f n u = (Ok (ROk v), u')
        | Inl e \<Rightarrow> f n u = (Ok (RFatal e), u') \<or>
                   (n = unat (max_attempts cfg) \<and> f n u = (Ok (RRetry e), u')))"
proof (induction "Suc (unat (max_attempts cfg)) - k" arbitrary: k le w)
  case 0
  then show ?case by simp
next
  case (Suc m)
  let ?max = "unat (max_attempts cfg)"
  have up: "[k..<Suc ?max] = k # [Suc k..<Suc ?max]"
    using Suc.prems(2) by (simp add: upt_conv_Cons)
  from Suc.prems(1) obtain x u where x: "f k w = (Ok x, u)"
    and rest: "(case x of ROk v \<Rightarrow> io_return (Inr v) | RFatal e \<Rightarrow> io_return (Inl e)
       | RRetry e \<Rightarrow> if ?max \<le> k then io_return (Inl e)
           else (\<lambda>w. let delay = delay_for_attempt cfg k (\<lambda>m. rand_upto env m (svc w)) in
                io_bind (sleep env (unat delay)) (\<lambda>_. retry_loop env cfg f [Suc k..<Suc ?max] (Some e)) w)) u
       = (Ok r, w')"
    unfolding up retry_loop.simps by (auto elim!: io_bind_OkE split: retry_result.splits)
  show ?case
  proof (cases x)
    case (ROk v)
    with rest x Suc.prems(2) show ?thesis
      by (intro exI [of _ k] exI [of _ w] exI [of _ u]) (auto simp: io_return_def)
  next
    case (RFatal e)
    with rest x Suc.prems(2) show ?thesis
      by (intro exI [of _ k] exI [of _ w] exI [of _ u]) (auto simp: io_return_def)
  next
    case (RRetry e)
    show ?thesis
    proof (cases "?max \<le> k")
      case True
      with RRetry rest x Suc.prems(2) show ?thesis
        by (intro exI [of _ k] exI [of _ w] exI [of _ u]) (auto simp: io_return_def)
    next
      case False
      with RRetry rest obtain t where
        "retry_loop env cfg f [Suc k..<Suc ?max] (Some e) t = (Ok r, w')"
        by (auto simp: Let_def elim!: io_bind_OkE)
      moreover have "m = Suc ?max - Suc k" "Suc k \<le> ?max" using Suc.hyps(2) False by linarith+
      ultimately obtain n v v' where
        "Suc k \<le> n" "n \<le> ?max" "(case r of Inr y \<Rightarrow> f n v = (Ok (ROk y), v')
          | Inl e \<Rightarrow> f n v = (Ok (RFatal e), v') \<or> (n = ?max \<and> f n v = (Ok (RRetry e), v')))"
        using Suc.hyps(1) [of "Suc k" "Some e" t] by blast
      then show ?thesis
        by (intro exI [of _ n] exI [of _ v] exI [of _ v']) simp
    qed
  qed
qed

text \<open>
  C29. A retried operation gives up only when it must: a result other than a value means that some
  attempt failed fatally or that the last of \<open>max\_attempts\<close> attempts failed; a value is the value
  of one of the attempts 1 to \<open>max\_attempts\<close>.
\<close>

theorem retry_result:
  assumes "with_retry env cfg f w = (Ok r, w')" and "max_attempts cfg \<noteq> 0"
  shows "\<exists>n u u'. 1 \<le> n \<and> n \<le> unat (max_attempts cfg) \<and>
    (case r of
       Inr v \<Rightarrow> f n u = (Ok (ROk v), u')
     | Inl e \<Rightarrow> f n u = (Ok (RFatal e), u') \<or>
                (n = unat (max_attempts cfg) \<and> f n u = (Ok (RRetry e), u')))"
  using retry_loop_result [where k = 1, OF assms(1) [unfolded with_retry_def]] assms(2)
  by (simp add: unat_gt_0 Suc_le_eq)

text \<open>An environment whose service is the list of answers still to come.\<close>

definition scripted :: "nat \<Rightarrow> (('a, 'e) retry_result list, ('a, 'e) retry_result) io" where
  "scripted n w = (Ok (hd (svc w)), w\<lparr>svc := tl (svc w)\<rparr>)"

definition null_env :: "'s env" where
  "null_env = \<lparr>s3_head = \<lambda>k s. (Inl TimeoutError, s), s3_get = \<lambda>k s. (Inl TimeoutError, s),
     s3_put = \<lambda>k d m n s. (Inl TimeoutError, s), s3_delete = \<lambda>k s. (Inl TimeoutError, s),
     s3_delete_objects = \<lambda>k s. (Inl TimeoutError, s), s3_list = \<lambda>p t s. (Inl TimeoutError, s),
     s3_create_multipart = \<lambda>k s. (Inl TimeoutError, s),
     s3_upload_part = \<lambda>k i n d c s. (Inl TimeoutError, s),
     s3_complete = \<lambda>k i ps s. (Inl TimeoutError, s), s3_abort = \<lambda>k i s. (Inl TimeoutError, s),
     clock_ns = \<lambda>s. 0, elapsed_ms = \<lambda>s. 0, do_sleep = \<lambda>ms s. s, rand_upto = \<lambda>m s. 0,
     lock_lost = \<lambda>s. False, preempt = \<lambda>s. False, page_fuel = 2, crc32 = \<lambda>bs. 0, b64_encode = \<lambda>bs. [],
     b64_decode = \<lambda>s. None, completion = \<lambda>xs. xs\<rparr>"

definition start_world :: "'s \<Rightarrow> 's world" where
  "start_world s = \<lparr>svc = s, progress = new_progress, guarded = False, trace = []\<rparr>"

theorem retry_result_witness:
  "with_retry null_env \<lparr>max_attempts = 2, base_delay_ms = 10\<rparr> scripted
       (start_world [RRetry ''a'', RRetry ''b'', ROk True])
     = (Ok (Inl ''b''), (start_world [ROk True])\<lparr>trace := [Sleep 10]\<rparr>) \<and>
   (\<exists>n u u'. 1 \<le> n \<and> n \<le> (2 :: nat) \<and>
      (scripted n u = (Ok (RFatal ''b''), u') \<or>
       n = 2 \<and> scripted n u = (Ok (RRetry ''b'' :: (bool, string) retry_result), u')))"
proof -
  have e: "with_retry null_env \<lparr>max_attempts = 2, base_delay_ms = 10\<rparr> scripted
       (start_world [RRetry ''a'', RRetry ''b'', ROk True])
     = (Ok (Inl ''b''), (start_world [ROk True])\<lparr>trace := [Sleep 10]\<rparr>)"
    by (simp add: with_retry_def upt_rec scripted_def start_world_def null_env_def io_bind_def
        io_return_def sleep_def await_def Let_def delay_for_attempt_def base_delay_def saturating_mul_def)
  from retry_result [OF e] e show ?thesis by simp
qed

text \<open>
  The backoff doubles and is jittered by at most half: the delay before attempt \<open>a + 1\<close> is
  between \<open>base * 2^(a-1)\<close> and one and a half times that, as long as this stays below \<open>2^64\<close> (it
  does for both configurations of the program: 5 attempts from 1000 ms or 200 ms).
\<close>

theorem retry_delay:
  assumes "1 \<le> a" and "a \<le> 64" and "3 * (unat (base_delay_ms cfg) * 2 ^ (a - 1)) \<le> 2 * u64_max"
    and "\<And>m. gen_range m \<le> m"
  shows "unat (base_delay_ms cfg) * 2 ^ (a - 1) \<le> unat (delay_for_attempt cfg a gen_range) \<and>
    2 * unat (delay_for_attempt cfg a gen_range) \<le> 3 * (unat (base_delay_ms cfg) * 2 ^ (a - 1))"
proof -
  let ?b = "unat (base_delay_ms cfg) * 2 ^ (a - 1)"
  have le: "?b \<le> u64_max" using assms(3) by linarith
  have md: "(a - 1) mod 64 = a - 1" using assms(1,2) by simp
  define sh :: u64 where "sh = push_bit ((a - 1) mod 64) 1"
  have p: "unat sh = 2 ^ (a - 1)"
  proof -
    have "(2::nat) ^ (a - 1) < 2 ^ 64" using assms(1,2) by (intro power_strict_increasing) auto
    moreover have "unat sh = take_bit LENGTH(64) (push_bit (a - 1) (unat (1 :: u64)))"
      unfolding sh_def md by (rule unsigned_push_bit_eq)
    ultimately show ?thesis by (simp add: take_bit_eq_mod push_bit_eq_mult)
  qed
  have "base_delay cfg a = saturating_mul (base_delay_ms cfg) sh"
    by (simp only: base_delay_def sh_def)
  then have base: "unat (base_delay cfg a) = ?b"
    using le by (simp add: saturating_mul_def p unat_word_ariths)
  define j where "j = gen_range (base_delay cfg a div 2)"
  have "unat j \<le> unat (base_delay cfg a div 2)"
    unfolding j_def using assms(4) by (simp add: word_le_nat_alt [symmetric])
  also have "\<dots> = ?b div 2" by (simp add: unat_div_distrib base)
  finally have j: "unat j \<le> ?b div 2" .
  have "?b + unat j \<le> u64_max" using j assms(3) by linarith
  then have "unat (delay_for_attempt cfg a gen_range) = ?b + unat j"
    by (simp add: delay_for_attempt_def Let_def j_def [symmetric] unat_word_ariths base)
  with j show ?thesis by linarith
qed

theorem retry_delay_witness:
  "8000 \<le> unat (delay_for_attempt \<lparr>max_attempts = 5, base_delay_ms = 1000\<rparr> 4 (\<lambda>m. m)) \<and>
   2 * unat (delay_for_attempt \<lparr>max_attempts = 5, base_delay_ms = 1000\<rparr> 4 (\<lambda>m. m)) \<le> 24000"
  using retry_delay [of 4 "\<lparr>max_attempts = 5, base_delay_ms = 1000\<rparr>" "\<lambda>m. m"] by simp

end
