(* ===== verification/Storage.thy ===== *)
theory Storage
  imports Retry Rust_Std Byte_Stream
begin

text \<open>
  \<open>src/storage.rs\<close>: the storage layer over the S3 client. Classification of errors, the key
  prefix, single-object operations, paginated listings, the multipart upload and the bulk delete.
  Concurrent requests are issued one after the other, in the order the code creates them; the
  order in which the parts of an upload complete is the parameter \<open>completion\<close>, the order in which
  shards and batches are processed is explicit.
\<close>

section \<open>Classification of errors\<close>

datatype s3_error_kind = Throttle | Transient | Fatal

definition from_code :: "string option \<Rightarrow> s3_error_kind" where
  "from_code code =
     (case code of
        None \<Rightarrow> Fatal
      | Some c \<Rightarrow>
          if c \<in> {''SlowDown'', ''Throttling'', ''ThrottlingException'', ''RequestThrottled''} then Throttle
          else if c \<in> {''InternalError'', ''ServiceUnavailable'', ''RequestTimeout''} then Transient
          else Fatal)"

fun from_sdk :: "sdk_error \<Rightarrow> s3_error_kind" where
  "from_sdk TimeoutError = Transient"
| "from_sdk DispatchFailure = Transient"
| "from_sdk ResponseError = Transient"
| "from_sdk (ServiceError code status nf) =
     (let by_code = from_code code in
      if by_code = Fatal \<and> 500 \<le> status then Transient else by_code)"
| "from_sdk ConstructionFailure = Fatal"

definition is_retryable :: "s3_error_kind \<Rightarrow> bool" where
  "is_retryable k \<longleftrightarrow> k = Throttle \<or> k = Transient"

definition count_failure :: "s3_error_kind \<Rightarrow> upload_progress \<Rightarrow> upload_progress" where
  "count_failure k p =
     (case k of Throttle \<Rightarrow> record_throttle (record_retry p)
      | Transient \<Rightarrow> record_retry p
      | Fatal \<Rightarrow> record_error p)"

definition classify_s3 :: "bool \<Rightarrow> sdk_error + 'a \<Rightarrow> ('s, ('a, error) retry_result) io" where
  "classify_s3 has_progress r =
     (case r of
        Inr v \<Rightarrow> io_return (ROk v)
      | Inl e \<Rightarrow>
          let kind = from_sdk e in
          io_bind (if has_progress then with_progress (count_failure kind) else io_return ()) (\<lambda>_.
            io_return (if is_retryable kind then RRetry (S3Failure e) else RFatal (S3Failure e))))"

fun is_precondition_failed :: "sdk_error \<Rightarrow> bool" where
  "is_precondition_failed (ServiceError code status nf) \<longleftrightarrow> status = 412"
| "is_precondition_failed _ \<longleftrightarrow> False"

section \<open>Configuration\<close>

definition MULTIPART_MIN_CHUNK :: u64 where "MULTIPART_MIN_CHUNK = 5 * 1024 * 1024"
definition MULTIPART_MAX_CHUNK :: u64 where "MULTIPART_MAX_CHUNK = 5 * 1024 * 1024 * 1024"
definition DEFAULT_MIN_PART_SIZE :: u64 where "DEFAULT_MIN_PART_SIZE = 16 * 1024 * 1024"
definition DEFAULT_MAX_PART_SIZE :: u64 where "DEFAULT_MAX_PART_SIZE = 512 * 1024 * 1024"
definition DEFAULT_TARGET_PARTS :: u64 where "DEFAULT_TARGET_PARTS = 128"

definition s3_retry_config :: retry_config where
  "s3_retry_config = \<lparr>max_attempts = 5, base_delay_ms = 1000\<rparr>"

record storage =
  key_prefix :: "string option"
  has_progress :: bool
  min_chunk_size :: u64
  max_chunk_size :: u64
  target_parts :: u64
  part_concurrency :: nat

definition trim_matches :: "char \<Rightarrow> string \<Rightarrow> string" where
  "trim_matches c s = rev (dropWhile (\<lambda>x. x = c) (rev (dropWhile (\<lambda>x. x = c) s)))"

definition sanitize_s3_prefix :: "string option \<Rightarrow> string option" where
  "sanitize_s3_prefix pre =
     (case pre of
        None \<Rightarrow> None
      | Some p \<Rightarrow> let t = trim_matches CHR ''/'' p in if t = [] then None else Some t)"

definition new_storage ::
  "string option \<Rightarrow> bool \<Rightarrow> u64 \<Rightarrow> u64 \<Rightarrow> u64 \<Rightarrow> nat \<Rightarrow> storage"
where
  "new_storage cfg_prefix prog min_chunk max_chunk parts concurrency =
     (let min_chunk = max min_chunk MULTIPART_MIN_CHUNK;
          max_chunk = min (max max_chunk min_chunk) MULTIPART_MAX_CHUNK
      in \<lparr>key_prefix = sanitize_s3_prefix cfg_prefix, has_progress = prog,
          min_chunk_size = min_chunk, max_chunk_size = max_chunk,
          target_parts = max parts 1, part_concurrency = max concurrency 1\<rparr>)"

definition compute_chunk_size :: "u64 \<Rightarrow> u64 \<Rightarrow> u64 \<Rightarrow> u64 \<Rightarrow> u64" where
  "compute_chunk_size total_size min_chunk max_chunk parts =
     min (max (total_size div max parts 1) min_chunk) max_chunk"

definition prefixed_key :: "storage \<Rightarrow> string \<Rightarrow> string" where
  "prefixed_key st key =
     (case key_prefix st of Some p \<Rightarrow> p @ ''/'' @ key | None \<Rightarrow> key)"

definition relative_key :: "storage \<Rightarrow> string \<Rightarrow> string" where
  "relative_key st key =
     (case key_prefix st of
        Some p \<Rightarrow> (case strip_prefix (p @ ''/'') key of Some k \<Rightarrow> k | None \<Rightarrow> key)
      | None \<Rightarrow> key)"

section \<open>Single objects\<close>

text \<open>\<open>send().await.with\_context(...)?\<close>.\<close>

definition send :: "'s env \<Rightarrow> request \<Rightarrow> ('s, 'a) sdk_call \<Rightarrow> ('s, 'a) io" where
  "send env q call =
     io_bind (await env q call) (\<lambda>r.
       case r of Inl e \<Rightarrow> io_fail (S3Failure e) | Inr v \<Rightarrow> io_return v)"

definition s3_retry ::
  "'s env \<Rightarrow> storage \<Rightarrow> request \<Rightarrow> ('s, 'a) sdk_call \<Rightarrow> ('s, 'a) io"
where
  "s3_retry env st q call =
     io_bind (with_retry env s3_retry_config (\<lambda>_.
         io_bind (await env q call) (classify_s3 (has_progress st))))
       (\<lambda>r. case r of Inl e \<Rightarrow> io_fail e | Inr v \<Rightarrow> io_return v)"

fun is_not_found :: "sdk_error \<Rightarrow> bool" where
  "is_not_found (ServiceError code status nf) \<longleftrightarrow> nf"
| "is_not_found _ \<longleftrightarrow> False"

definition object_exists :: "'s env \<Rightarrow> storage \<Rightarrow> string \<Rightarrow> ('s, u64 option) io" where
  "object_exists env st key =
     (let prefixed = prefixed_key st key in
      io_bind (await env (ReqHead prefixed) (s3_head env prefixed)) (\<lambda>r.
        case r of
          Inr len \<Rightarrow> io_return (Some (case len of Some n \<Rightarrow> n | None \<Rightarrow> 0))
        | Inl e \<Rightarrow> if is_not_found e then io_return None else io_fail (S3Failure e)))"

definition delete_object :: "'s env \<Rightarrow> storage \<Rightarrow> string \<Rightarrow> ('s, unit) io" where
  "delete_object env st key =
     (let prefixed = prefixed_key st key in
      send env (ReqDelete prefixed) (s3_delete env prefixed))"

definition get_object :: "'s env \<Rightarrow> storage \<Rightarrow> string \<Rightarrow> ('s, bytes) io" where
  "get_object env st key =
     (let prefixed = prefixed_key st key in
      io_bind (send env (ReqGet prefixed) (s3_get env prefixed)) (\<lambda>body.
        case body of Some b \<Rightarrow> io_return b | None \<Rightarrow> io_fail BodyReadFailed))"

definition put_object_conditional ::
  "'s env \<Rightarrow> storage \<Rightarrow> string \<Rightarrow> bytes \<Rightarrow> string option \<Rightarrow> bool \<Rightarrow> ('s, string \<times> bool) io"
where
  "put_object_conditional env st key data if_match if_none_match =
     (let prefixed = prefixed_key st key in
      io_bind (await env (ReqPut prefixed data if_match if_none_match)
                 (s3_put env prefixed data if_match if_none_match)) (\<lambda>r.
        case r of
          Inr etag \<Rightarrow> io_return (case etag of Some t \<Rightarrow> t | None \<Rightarrow> [], False)
        | Inl e \<Rightarrow> if is_precondition_failed e then io_return ([], True)
                   else io_fail (S3Failure e)))"

section \<open>Listing\<close>

type_synonym listed = "string \<times> u64 \<times> int"

definition page_entries :: "storage \<Rightarrow> int \<Rightarrow> list_entry list \<Rightarrow> listed list" where
  "page_entries st now contents =
     List.map_filter (\<lambda>obj.
       case le_key obj of
         None \<Rightarrow> None
       | Some key \<Rightarrow>
           Some (relative_key st key,
                 case le_size obj of Some n \<Rightarrow> n | None \<Rightarrow> 0,
                 case le_modified obj of Some t \<Rightarrow> t | None \<Rightarrow> now)) contents"

text \<open>The loop over pages: a service that never ends its listing is cut off by \<open>page\_fuel\<close>.\<close>

fun list_pages ::
  "'s env \<Rightarrow> storage \<Rightarrow> string \<Rightarrow> nat \<Rightarrow> string option \<Rightarrow> listed list \<Rightarrow> ('s, listed list) io"
where
  "list_pages env st prefixed 0 continuation results = io_diverge"
| "list_pages env st prefixed (Suc fuel) continuation results =
     io_bind (send env (ReqList prefixed continuation) (s3_list env prefixed continuation)) (\<lambda>resp.
     io_bind (clock env) (\<lambda>now.
       let results = results @ page_entries st now (lp_contents resp) in
       case lp_next resp of
         Some token \<Rightarrow> list_pages env st prefixed fuel (Some token) results
       | None \<Rightarrow> io_return results))"

definition list_objects :: "'s env \<Rightarrow> storage \<Rightarrow> string \<Rightarrow> ('s, listed list) io" where
  "list_objects env st pre = list_pages env st (prefixed_key st pre) (page_fuel env) None []"

definition hex2 :: "nat \<Rightarrow> string" where
  "hex2 n = [''0123456789abcdef'' ! (n div 16 mod 16), ''0123456789abcdef'' ! (n mod 16)]"

text \<open>A failed shard is one error item of the stream; \<open>order\<close> is how the shards interleave.\<close>

fun list_shards ::
  "'s env \<Rightarrow> storage \<Rightarrow> string \<Rightarrow> nat list \<Rightarrow> ('s, (error + listed) list) io"
where
  "list_shards env st base_prefix [] = io_return []"
| "list_shards env st base_prefix (shard # rest) =
     io_match (list_objects env st (base_prefix @ hex2 shard @ ''/''))
       (\<lambda>items. io_bind (list_shards env st base_prefix rest) (\<lambda>more. io_return (map Inr items @ more)))
       (\<lambda>e. io_bind (list_shards env st base_prefix rest) (\<lambda>more. io_return (Inl e # more)))"

section \<open>Bulk delete\<close>

record delete_stats =
  ds_success :: u64
  ds_errors :: u64
  ds_throttled :: u64

definition zero_stats :: delete_stats where
  "zero_stats = \<lparr>ds_success = 0, ds_errors = 0, ds_throttled = 0\<rparr>"

definition shard_of_key :: "string \<Rightarrow> string" where
  "shard_of_key key =
     (case strip_prefix ''base/data/blobs/'' key of
        Some s \<Rightarrow> if 2 \<le> length s then take 2 s else ''??''
      | None \<Rightarrow> ''??'')"

text \<open>The map from shards to keys, in the order of first appearance.\<close>

fun add_to_shard :: "string \<Rightarrow> string \<Rightarrow> (string \<times> string list) list \<Rightarrow> (string \<times> string list) list" where
  "add_to_shard sh key [] = [(sh, [key])]"
| "add_to_shard sh key ((s, ks) # m) =
     (if s = sh then (s, ks @ [key]) # m else (s, ks) # add_to_shard sh key m)"

text \<open>\<open>slice::chunks\<close>; the code calls it with 1000, and a zero size panics.\<close>

function chunks :: "nat \<Rightarrow> 'a list \<Rightarrow> 'a list list" where
  "chunks n xs = (if n = 0 \<or> xs = [] then [] else take n xs # chunks n (drop n xs))"
  by pat_completeness auto
termination
  by (relation "measure (\<lambda>(n, xs). length xs)") auto

declare chunks.simps [simp del]

definition batch_keys_by_shard :: "string list \<Rightarrow> nat \<Rightarrow> string list list" where
  "batch_keys_by_shard keys batch_size =
     concat (map (\<lambda>(sh, ks). chunks batch_size ks)
       (fold (\<lambda>key m. add_to_shard (shard_of_key key) key m) keys []))"

definition delete_retry_config :: retry_config where
  "delete_retry_config = \<lparr>max_attempts = 5, base_delay_ms = 200\<rparr>"

definition delete_classify :: "sdk_error + 'a \<Rightarrow> ('a, sdk_error) retry_result" where
  "delete_classify r =
     (case r of
        Inr v \<Rightarrow> ROk v
      | Inl e \<Rightarrow> if is_retryable (from_sdk e) then RRetry e else RFatal e)"

definition delete_singly :: "'s env \<Rightarrow> string \<Rightarrow> delete_stats \<Rightarrow> ('s, delete_stats) io" where
  "delete_singly env prefixed stats =
     io_bind (await env (ReqDelete prefixed) (s3_delete env prefixed)) (\<lambda>r.
       case r of
         Inr _ \<Rightarrow> io_return (stats\<lparr>ds_success := ds_success stats + 1\<rparr>)
       | Inl _ \<Rightarrow> io_return (stats\<lparr>ds_errors := ds_errors stats + 1\<rparr>))"

fun delete_fallback :: "'s env \<Rightarrow> string list \<Rightarrow> delete_stats \<Rightarrow> ('s, delete_stats) io" where
  "delete_fallback env [] stats = io_return stats"
| "delete_fallback env (k # ks) stats =
     io_bind (delete_singly env k stats) (\<lambda>stats'. delete_fallback env ks stats')"

definition count_response ::
  "nat \<Rightarrow> (string option \<times> string option) list \<Rightarrow> delete_stats \<Rightarrow> delete_stats"
where
  "count_response batch_len errs stats =
     (let deleted = word_of_nat batch_len - word_of_nat (length errs);
          throttled = length (filter (\<lambda>(k, c). from_code c = Throttle) errs)
      in \<lparr>ds_success = ds_success stats + deleted,
          ds_errors = ds_errors stats + word_of_nat (length errs),
          ds_throttled = ds_throttled stats + word_of_nat throttled\<rparr>)"

definition delete_batch ::
  "'s env \<Rightarrow> storage \<Rightarrow> string list \<Rightarrow> delete_stats \<Rightarrow> ('s, delete_stats) io"
where
  "delete_batch env st batch stats =
     (let objects = map (prefixed_key st) batch in
      if objects = [] then io_return stats
      else
        io_bind (with_retry env delete_retry_config (\<lambda>_.
            io_bind (await env (ReqDeleteMany objects) (s3_delete_objects env objects))
              (\<lambda>r. io_return (delete_classify r)))) (\<lambda>batch_result.
        case batch_result of
          Inr errs \<Rightarrow> io_return (count_response (length batch) errs stats)
        | Inl e \<Rightarrow>
            if \<not> is_retryable (from_sdk e) then delete_fallback env objects stats
            else io_return (stats\<lparr>ds_errors := ds_errors stats + word_of_nat (length batch),
                                  ds_throttled := ds_throttled stats + word_of_nat (length batch)\<rparr>)))"

fun delete_batches ::
  "'s env \<Rightarrow> storage \<Rightarrow> string list list \<Rightarrow> delete_stats \<Rightarrow> ('s, delete_stats) io"
where
  "delete_batches env st [] stats = io_return stats"
| "delete_batches env st (b # bs) stats =
     io_bind (delete_batch env st b stats) (\<lambda>stats'. delete_batches env st bs stats')"

definition delete_objects_bulk :: "'s env \<Rightarrow> storage \<Rightarrow> string list \<Rightarrow> ('s, delete_stats) io" where
  "delete_objects_bulk env st keys =
     (if keys = [] then io_return zero_stats
      else delete_batches env st (batch_keys_by_shard keys 1000) zero_stats)"

section \<open>Multipart upload\<close>

text \<open>
  The reader task: fills a buffer of \<open>chunk_size\<close> bytes, sends it with its number, and stops at
  the end of the stream or after a chunk that is not full. Returns the chunks sent and whether it
  failed after them.
\<close>

definition read_chunk :: "nat \<Rightarrow> reader \<Rightarrow> bytes \<times> reader \<times> bool" where
  "read_chunk n r =
     (let p = pending r in
      if n \<le> length p then (take n p, ([drop n p], snd r), False)
      else (p, ([], snd r), snd r))"

function read_chunks :: "nat \<Rightarrow> nat \<Rightarrow> reader \<Rightarrow> (nat \<times> bytes) list \<times> bool" where
  "read_chunks chunk_size part_number r =
     (let (buf, r', failed) = read_chunk chunk_size r in
      if failed then ([], True)
      else if buf = [] then ([], False)
      else if length buf < chunk_size then ([(part_number + 1, buf)], False)
      else (case read_chunks chunk_size (part_number + 1) r' of
              (cs, f) \<Rightarrow> ((part_number + 1, buf) # cs, f)))"
  by pat_completeness auto
termination
  by (relation "measure (\<lambda>(n, pn, r). length (pending r))")
     (auto simp: read_chunk_def pending_def Let_def split: if_splits)

declare read_chunks.simps [simp del]

definition be_bytes_u32 :: "u32 \<Rightarrow> bytes" where
  "be_bytes_u32 v = rev (write_u32 v)"

definition base64_encode_crc32 :: "'s env \<Rightarrow> u32 \<Rightarrow> string" where
  "base64_encode_crc32 env crc = b64_encode env (be_bytes_u32 crc)"

definition completed_part_from_upload :: "nat \<Rightarrow> upload_part_output \<Rightarrow> completed_part" where
  "completed_part_from_upload pn resp =
     \<lparr>cp_number = pn, cp_etag = up_etag resp, cp_crc32 = up_crc32 resp\<rparr>"

definition upload_one ::
  "'s env \<Rightarrow> storage \<Rightarrow> string \<Rightarrow> string \<Rightarrow> nat \<times> bytes \<Rightarrow> ('s, nat \<times> u64 \<times> upload_part_output) io"
where
  "upload_one env st prefixed upload_id c =
     (let (part_number, data) = c;
          crc = base64_encode_crc32 env (crc32 env data)
      in io_bind (s3_retry env st (ReqUploadPart prefixed upload_id part_number data)
                    (s3_upload_part env prefixed upload_id part_number data crc))
           (\<lambda>resp. io_return (part_number, word_of_nat (length data), resp)))"

definition handle_completed_part ::
  "'s env \<Rightarrow> storage \<Rightarrow> (u64 \<Rightarrow> ('s, unit) io) \<Rightarrow> u64 \<times> completed_part list
     \<Rightarrow> nat \<times> u64 \<times> upload_part_output \<Rightarrow> ('s, u64 \<times> completed_part list) io"
where
  "handle_completed_part env st on_progress acc done =
     (let (uploaded, completed) = acc; (pn, chunk_bytes, resp) = done;
          uploaded = uploaded + chunk_bytes
      in io_bind (if has_progress st
                  then (\<lambda>w. with_progress (\<lambda>p. fst (record_bytes chunk_bytes (elapsed_ms env (svc w)) p)) w)
                  else io_return ()) (\<lambda>_.
         io_bind (on_progress uploaded) (\<lambda>_.
         io_return (uploaded, completed @ [completed_part_from_upload pn resp]))))"

fun handle_completed ::
  "'s env \<Rightarrow> storage \<Rightarrow> (u64 \<Rightarrow> ('s, unit) io) \<Rightarrow> u64 \<times> completed_part list
     \<Rightarrow> (nat \<times> u64 \<times> upload_part_output) list \<Rightarrow> ('s, u64 \<times> completed_part list) io"
where
  "handle_completed env st on_progress acc [] = io_return acc"
| "handle_completed env st on_progress acc (d # ds) =
     io_bind (handle_completed_part env st on_progress acc d) (\<lambda>acc'.
       handle_completed env st on_progress acc' ds)"

definition multipart_inner ::
  "'s env \<Rightarrow> storage \<Rightarrow> string \<Rightarrow> string \<Rightarrow> reader \<Rightarrow> u64 \<Rightarrow> (u64 \<Rightarrow> ('s, unit) io) \<Rightarrow> ('s, u64) io"
where
  "multipart_inner env st prefixed upload_id r expected_size on_progress =
     (let chunk_size = compute_chunk_size (max expected_size 1) (min_chunk_size st)
                         (max_chunk_size st) (target_parts st);
          (cs, failed) = read_chunks (unat chunk_size) 0 r
      in
      io_bind (io_map (upload_one env st prefixed upload_id) cs) (\<lambda>results.
      if failed then io_fail (ReaderTaskFailed prefixed)
      else
        io_bind (handle_completed env st on_progress (0, []) (completion env results))
          (\<lambda>(uploaded, completed).
        let parts = sort_key cp_number completed in
        io_bind (s3_retry env st (ReqComplete prefixed upload_id (map cp_number parts))
                   (s3_complete env prefixed upload_id parts)) (\<lambda>_.
        io_return uploaded))))"

definition put_object_multipart_reader ::
  "'s env \<Rightarrow> storage \<Rightarrow> string \<Rightarrow> reader \<Rightarrow> u64 \<Rightarrow> (u64 \<Rightarrow> ('s, unit) io) \<Rightarrow> ('s, u64) io"
where
  "put_object_multipart_reader env st key r expected_size on_progress =
     (let prefixed = prefixed_key st key in
      io_bind (s3_retry env st (ReqCreateMultipart prefixed) (s3_create_multipart env prefixed)) (\<lambda>resp.
      case resp of
        None \<Rightarrow> io_fail (NoUploadId key)
      | Some upload_id \<Rightarrow>
          io_match (multipart_inner env st prefixed upload_id r expected_size on_progress)
            io_return
            (\<lambda>e. io_bind (await env (ReqAbort prefixed upload_id) (s3_abort env prefixed upload_id))
                   (\<lambda>_. io_fail e))))"

end
