(* ===== verification/Storage_Props.thy ===== *)
theory Storage_Props
  imports Storage "HOL-Library.Multiset"
begin

text \<open>
  Theorems about \<open>Storage\<close>: chunk sizes, keys under the prefix, the batches and the counters of a
  bulk delete, and the requests of a multipart upload.
\<close>

section \<open>Chunk sizes\<close>

text \<open>
  Whatever the configuration and the expected size, the chunk size of a multipart upload stays
  within what S3 accepts: at least 5 MiB and at most 5 GiB.
\<close>

theorem chunk_size_bounds:
  "let st = new_storage pre prog lo hi parts conc;
       c = compute_chunk_size n (min_chunk_size st) (max_chunk_size st) (target_parts st)
   in MULTIPART_MIN_CHUNK \<le> c \<and> c \<le> MULTIPART_MAX_CHUNK"
proof -
  have "MULTIPART_MIN_CHUNK \<le> MULTIPART_MAX_CHUNK"
    by (simp add: MULTIPART_MIN_CHUNK_def MULTIPART_MAX_CHUNK_def)
  then show ?thesis
    by (simp add: new_storage_def compute_chunk_size_def Let_def le_max_iff_disj min_le_iff_disj)
qed

section \<open>Keys\<close>

lemma trim_matches_ends:
  assumes "trim_matches c s \<noteq> []"
  shows "hd (trim_matches c s) \<noteq> c" and "last (trim_matches c s) \<noteq> c"
proof -
  let ?t = "dropWhile (\<lambda>x. x = c) s"
  let ?r = "dropWhile (\<lambda>x. x = c) (rev ?t)"
  have r: "?r \<noteq> []" using assms by (simp add: trim_matches_def)
  then have "hd ?r \<noteq> c" by (rule hd_dropWhile)
  then show "last (trim_matches c s) \<noteq> c" using r by (simp add: trim_matches_def last_rev)
  obtain pre where "rev ?t = pre @ ?r" by (metis takeWhile_dropWhile_id)
  then have t: "?t = rev ?r @ rev pre" by (metis rev_append rev_rev_ident)
  then have "?t \<noteq> []" using r by (metis append_is_Nil_conv rev_is_Nil_conv)
  then have "hd ?t \<noteq> c" by (rule hd_dropWhile)
  then show "hd (trim_matches c s) \<noteq> c"
    using t r unfolding trim_matches_def by (metis hd_append2 rev_is_Nil_conv)
qed

text \<open>
  Keys and prefixes: a sanitized prefix is not empty and neither begins nor ends with a slash;
  a key put under the prefix of a storage is recovered when it is listed; and different keys stay
  different under the prefix.
\<close>

theorem storage_keys:
  "(case sanitize_s3_prefix pre of
      None \<Rightarrow> True
    | Some p \<Rightarrow> p \<noteq> [] \<and> hd p \<noteq> CHR ''/'' \<and> last p \<noteq> CHR ''/'') \<and>
   relative_key st (prefixed_key st k) = k \<and>
   (prefixed_key st k = prefixed_key st k' \<longleftrightarrow> k = k')"
proof (intro conjI)
  show "case sanitize_s3_prefix pre of None \<Rightarrow> True
      | Some p \<Rightarrow> p \<noteq> [] \<and> hd p \<noteq> CHR ''/'' \<and> last p \<noteq> CHR ''/''"
    using trim_matches_ends [of "CHR ''/''"]
    by (auto simp: sanitize_s3_prefix_def Let_def split: option.splits)
  have "strip_prefix (p @ ''/'') (p @ CHR ''/'' # k) = Some k" for p
    using strip_prefix_append [of "p @ ''/''" k] by simp
  then show "relative_key st (prefixed_key st k) = k"
    by (simp add: relative_key_def prefixed_key_def split: option.split)
qed (auto simp: prefixed_key_def split: option.split)

lemma prefixed_key_inj: "inj (prefixed_key st)"
  by (auto simp: inj_def prefixed_key_def split: option.splits)

section \<open>Batches\<close>

definition shard_map :: "string list \<Rightarrow> (string \<times> string list) list" where
  "shard_map keys = fold (\<lambda>key m. add_to_shard (shard_of_key key) key m) keys []"

lemma add_to_shard_mset:
  "mset (concat (map snd (add_to_shard sh key m))) = add_mset key (mset (concat (map snd m)))"
  by (induction sh key m rule: add_to_shard.induct) auto

lemma add_to_shard_ok:
  "\<forall>(s, ks) \<in> set m. \<forall>k \<in> set ks. shard_of_key k = s \<Longrightarrow>
     \<forall>(s, ks) \<in> set (add_to_shard (shard_of_key key) key m). \<forall>k \<in> set ks. shard_of_key k = s"
  by (induction "shard_of_key key" key m rule: add_to_shard.induct) auto

lemma shard_map_facts:
  "mset (concat (map snd (shard_map keys))) = mset keys \<and>
   (\<forall>(s, ks) \<in> set (shard_map keys). \<forall>k \<in> set ks. shard_of_key k = s)"
proof -
  have "\<forall>(s, ks) \<in> set m. \<forall>k \<in> set ks. shard_of_key k = s \<Longrightarrow>
      mset (concat (map snd (fold (\<lambda>key m. add_to_shard (shard_of_key key) key m) keys m)))
        = mset (concat (map snd m)) + mset keys \<and>
      (\<forall>(s, ks) \<in> set (fold (\<lambda>key m. add_to_shard (shard_of_key key) key m) keys m).
         \<forall>k \<in> set ks. shard_of_key k = s)" for m
  proof (induction keys arbitrary: m)
    case (Cons key keys)
    from Cons.IH [OF add_to_shard_ok [OF Cons.prems]] show ?case
      by (simp add: add_to_shard_mset)
  qed simp
  from this [of "[]"] show ?thesis by (simp add: shard_map_def)
qed

lemma chunks_facts:
  "0 < n \<Longrightarrow> concat (chunks n xs) = xs \<and> (\<forall>c \<in> set (chunks n xs). c \<noteq> [] \<and> length c \<le> n \<and> set c \<subseteq> set xs)"
proof (induction n xs rule: chunks.induct)
  case (1 n xs)
  show ?case
  proof (cases "xs = []")
    case True
    then show ?thesis by (simp add: chunks.simps)
  next
    case False
    then have "\<not> (n = 0 \<or> xs = [])" using "1.prems" by simp
    from "1.IH" [OF this "1.prems"] False "1.prems" show ?thesis
      by (auto simp: chunks.simps [of n xs] dest: in_set_takeD in_set_dropD)
  qed
qed

lemma batch_keys_eq:
  "batch_keys_by_shard keys n = concat (map (\<lambda>(sh, ks). chunks n ks) (shard_map keys))"
  by (simp add: batch_keys_by_shard_def shard_map_def)

lemma batches_concat:
  assumes "0 < n"
  shows "concat (batch_keys_by_shard keys n) = concat (map snd (shard_map keys))"
proof -
  have "concat (concat (map (\<lambda>(sh, ks). chunks n ks) m)) = concat (map snd m)" for m
    by (induction m) (simp_all add: case_prod_beta conjunct1 [OF chunks_facts [OF assms]])
  then show ?thesis by (simp add: batch_keys_eq)
qed

text \<open>
  The batches of a bulk delete are a partition of its keys: every key is in exactly one batch
  (as often as it was given), no batch is empty or longer than the limit, and all keys of a batch
  are of one shard, so that no request crosses a partition of the store.
\<close>

theorem delete_batches_partition:
  assumes "0 < n"
  shows "mset (concat (batch_keys_by_shard keys n)) = mset keys \<and>
    (\<forall>b \<in> set (batch_keys_by_shard keys n).
       b \<noteq> [] \<and> length b \<le> n \<and> (\<exists>sh. \<forall>k \<in> set b. shard_of_key k = sh))"
proof (intro conjI ballI)
  show "mset (concat (batch_keys_by_shard keys n)) = mset keys"
    using shard_map_facts [of keys] by (simp only: batches_concat [OF assms])
next
  fix b assume "b \<in> set (batch_keys_by_shard keys n)"
  then obtain s ks where m: "(s, ks) \<in> set (shard_map keys)" "b \<in> set (chunks n ks)"
    by (auto simp: batch_keys_eq)
  with chunks_facts [OF assms, of ks] shard_map_facts [of keys]
  show "b \<noteq> []" "length b \<le> n" "\<exists>sh. \<forall>k \<in> set b. shard_of_key k = sh"
    by fastforce+
qed

theorem delete_batches_partition_witness:
  "mset (concat (batch_keys_by_shard [''base/data/blobs/aa/aa1'', ''base/data/blobs/bb/bb1'', ''x''] 1000))
     = mset [''base/data/blobs/aa/aa1'', ''base/data/blobs/bb/bb1'', ''x'']"
  using delete_batches_partition [of 1000] by simp

section \<open>The counters of a bulk delete\<close>

definition settled :: "delete_stats \<Rightarrow> u64" where
  "settled s = ds_success s + ds_errors s"

lemma delete_fallback_settled:
  "delete_fallback env ks s w = (Ok s', w') \<Longrightarrow> settled s' = settled s + word_of_nat (length ks)"
proof (induction ks arbitrary: s w)
  case Nil
  then show ?case by (simp add: io_return_def)
next
  case (Cons k ks)
  then obtain s1 w1 where one: "delete_singly env k s w = (Ok s1, w1)"
    and rest: "delete_fallback env ks s1 w1 = (Ok s', w')" by (auto elim: io_bind_OkE)
  from one have "settled s1 = settled s + 1"
    by (auto simp: delete_singly_def settled_def io_return_def elim!: io_bind_OkE split: sum.splits)
  with Cons.IH [OF rest] show ?case by (simp add: algebra_simps)
qed

lemma delete_batch_settled:
  assumes "delete_batch env st b s w = (Ok s', w')"
  shows "settled s' = settled s + word_of_nat (length b)"
proof (cases "b = []")
  case True
  with assms show ?thesis by (simp add: delete_batch_def io_return_def)
next
  case False
  with assms obtain r u where r: "(case r of
        Inr errs \<Rightarrow> io_return (count_response (length b) errs s)
      | Inl e \<Rightarrow>
          if \<not> is_retryable (from_sdk e) then delete_fallback env (map (prefixed_key st) b) s
          else io_return (s\<lparr>ds_errors := ds_errors s + word_of_nat (length b),
                              ds_throttled := ds_throttled s + word_of_nat (length b)\<rparr>)) u
      = (Ok s', w')"
    by (auto simp: delete_batch_def Let_def elim!: io_bind_OkE)
  show ?thesis
  proof (cases r)
    case (Inr errs)
    with r show ?thesis
      by (auto simp: io_return_def count_response_def settled_def Let_def)
  next
    case (Inl e)
    with r show ?thesis
      by (auto simp: io_return_def settled_def dest: delete_fallback_settled split: if_splits)
  qed
qed

lemma delete_batches_settled:
  "delete_batches env st bs s w = (Ok s', w') \<Longrightarrow>
     settled s' = settled s + word_of_nat (length (concat bs))"
proof (induction bs arbitrary: s w)
  case Nil
  then show ?case by (simp add: io_return_def)
next
  case (Cons b bs)
  then obtain s1 w1 where "delete_batch env st b s w = (Ok s1, w1)"
    and rest: "delete_batches env st bs s1 w1 = (Ok s', w')" by (auto elim: io_bind_OkE)
  with delete_batch_settled Cons.IH [OF rest] show ?case by (simp add: algebra_simps)
qed

text \<open>
  C30. A bulk delete accounts for every key: when it returns, the successes and the errors it
  reports add up to the number of keys it was given, on every path (batch answer, fallback to
  single deletes, retries exhausted).
\<close>

theorem bulk_delete_accounts:
  assumes "delete_objects_bulk env st keys w = (Ok s, w')"
  shows "ds_success s + ds_errors s = word_of_nat (length keys)"
proof (cases "keys = []")
  case True
  with assms show ?thesis by (auto simp: delete_objects_bulk_def io_return_def zero_stats_def)
next
  case False
  with assms have "delete_batches env st (batch_keys_by_shard keys 1000) zero_stats w = (Ok s, w')"
    by (simp add: delete_objects_bulk_def)
  from delete_batches_settled [OF this]
  have "settled s = word_of_nat (length (concat (batch_keys_by_shard keys 1000)))"
    by (simp add: settled_def zero_stats_def)
  moreover have "length (concat (batch_keys_by_shard keys 1000)) = length keys"
    using shard_map_facts [of keys] batches_concat [of 1000 keys] by (metis size_mset zero_less_numeral)
  ultimately show ?thesis by (simp only: settled_def)
qed

definition deny_env :: "nat env" where
  "deny_env = null_env\<lparr>s3_delete_objects := \<lambda>ks n. (Inl ConstructionFailure, n),
     s3_delete := \<lambda>k n. (if n = 0 then Inr () else Inl DispatchFailure, Suc n)\<rparr>"

lemma deny_env_simps [simp]:
  "s3_delete_objects deny_env ks n = (Inl ConstructionFailure, n)"
  "s3_delete deny_env k n = (if n = 0 then Inr () else Inl DispatchFailure, Suc n)"
  "preempt deny_env n = False"
  by (simp_all add: deny_env_def null_env_def)

definition plain_storage :: storage where
  "plain_storage = \<lparr>key_prefix = Some ''p'', has_progress = False, min_chunk_size = MULTIPART_MIN_CHUNK,
     max_chunk_size = MULTIPART_MAX_CHUNK, target_parts = 128, part_concurrency = 1\<rparr>"

theorem bulk_delete_accounts_witness:
  "\<exists>s w'. delete_objects_bulk deny_env plain_storage [''base/data/blobs/aa/aa1'', ''base/data/blobs/aa/aa2'']
       (start_world 0) = (Ok s, w') \<and> ds_success s + ds_errors s = 2"
proof -
  have b: "batch_keys_by_shard [''base/data/blobs/aa/aa1'', ''base/data/blobs/aa/aa2''] 1000
      = [[''base/data/blobs/aa/aa1'', ''base/data/blobs/aa/aa2'']]"
    by (simp add: batch_keys_by_shard_def shard_of_key_def chunks.simps)
  have "\<exists>s w'. delete_objects_bulk deny_env plain_storage
      [''base/data/blobs/aa/aa1'', ''base/data/blobs/aa/aa2''] (start_world 0) = (Ok s, w')"
    unfolding delete_objects_bulk_def b
    by (simp add: delete_batch_def with_retry_def delete_retry_config_def upt_rec await_def Let_def
        io_bind_def io_return_def start_world_def delete_classify_def is_retryable_def
        delete_singly_def split del: if_split)
  then obtain s w' where e: "delete_objects_bulk deny_env plain_storage
      [''base/data/blobs/aa/aa1'', ''base/data/blobs/aa/aa2''] (start_world 0) = (Ok s, w')" by blast
  from bulk_delete_accounts [OF e] e show ?thesis by auto
qed

section \<open>What a bulk delete requests\<close>

definition deletes_only :: "string set \<Rightarrow> request \<Rightarrow> bool" where
  "deletes_only K q =
     (case q of
        ReqDelete k \<Rightarrow> k \<in> K
      | ReqDeleteMany ks \<Rightarrow> set ks \<subseteq> K
      | Sleep _ \<Rightarrow> True
      | _ \<Rightarrow> False)"

lemma requests_delete_fallback:
  "set ks \<subseteq> K \<Longrightarrow> requests (deletes_only K) (delete_fallback env ks s)"
proof (induction ks arbitrary: s)
  case (Cons k ks)
  have "requests (deletes_only K) (delete_singly env k s)"
    using Cons.prems unfolding delete_singly_def
    by (intro requests_bind requests_await) (auto simp: deletes_only_def split: sum.split intro: requests_intros)
  with Cons show ?case by (auto intro!: requests_bind)
qed (simp add: requests_return)

lemma requests_delete_batch:
  assumes "prefixed_key st ` set b \<subseteq> K"
  shows "requests (deletes_only K) (delete_batch env st b s)"
proof -
  have "requests (deletes_only K) (delete_fallback env (map (prefixed_key st) b) s)"
    using assms by (intro requests_delete_fallback) auto
  moreover have "requests (deletes_only K) (with_retry env delete_retry_config (\<lambda>_.
      io_bind (await env (ReqDeleteMany (map (prefixed_key st) b))
         (s3_delete_objects env (map (prefixed_key st) b))) (\<lambda>r. io_return (delete_classify r))))"
    using assms by (intro requests_intros) (auto simp: deletes_only_def)
  ultimately show ?thesis
    unfolding delete_batch_def Let_def
    by (intro requests_if requests_return requests_bind)
       (auto split: sum.split intro!: requests_intros)
qed

lemma requests_delete_batches:
  "prefixed_key st ` set (concat bs) \<subseteq> K \<Longrightarrow> requests (deletes_only K) (delete_batches env st bs s)"
proof (induction bs arbitrary: s)
  case (Cons b bs)
  then have "requests (deletes_only K) (delete_batch env st b s)"
    by (intro requests_delete_batch) auto
  with Cons show ?case by (auto intro!: requests_bind)
qed (simp add: requests_return)

lemma requests_bulk_delete:
  assumes "prefixed_key st ` set keys \<subseteq> K"
  shows "requests (deletes_only K) (delete_objects_bulk env st keys)"
proof -
  have "set (concat (batch_keys_by_shard keys 1000)) = set keys"
    using shard_map_facts [of keys] batches_concat [of 1000 keys]
    by (metis set_mset_mset zero_less_numeral)
  with assms show ?thesis
    unfolding delete_objects_bulk_def
    by (intro requests_if requests_return requests_delete_batches) auto
qed

end
