(* ===== verification/Multipart.thy ===== *)
theory Multipart
  imports Storage_Props
begin

text \<open>
  Theorems about the multipart upload of \<open>Storage\<close>: the chunks cover the stream, a successful
  upload completes exactly those chunks in order, a failed one is aborted.
\<close>

section \<open>Chunks\<close>

lemma read_chunk_facts:
  "read_chunk n r = (buf, r', failed) \<Longrightarrow>
     length buf \<le> n \<and> pending r = buf @ pending r' \<and> snd r' = snd r \<and>
     (length buf < n \<longrightarrow> pending r' = [] \<and> failed = snd r) \<and> (length buf = n \<longrightarrow> \<not> failed \<or> n = 0)"
  by (auto simp: read_chunk_def Let_def pending_def split: if_splits)

lemma read_chunks_facts:
  "0 < n \<Longrightarrow> read_chunks n k r = (cs, failed) \<Longrightarrow>
     failed = snd r \<and> map fst cs = [Suc k..<Suc k + length cs] \<and>
     (\<not> failed \<longrightarrow> concat (map snd cs) = pending r) \<and>
     (\<forall>c \<in> set cs. snd c \<noteq> [] \<and> length (snd c) \<le> n) \<and>
     (\<forall>c \<in> set (butlast cs). length (snd c) = n)"
proof (induction n k r arbitrary: cs failed rule: read_chunks.induct)
  case (1 n k r)
  obtain buf r' f where c: "read_chunk n r = (buf, r', f)" by (metis prod_cases3)
  note rc = read_chunk_facts [OF c]
  note unf = read_chunks.simps [of n k r]
  show ?case
  proof (cases "f \<or> buf = [] \<or> length buf < n")
    case True
    then show ?thesis
      using "1.prems" c rc unf by (auto split: if_splits)
  next
    case False
    then have full: "length buf = n" "buf \<noteq> []" "\<not> f" using rc by auto
    obtain cs' f' where rest: "read_chunks n (Suc k) r' = (cs', f')" by fastforce
    have ih: "f' = snd r' \<and> map fst cs' = [Suc (Suc k)..<Suc (Suc k) + length cs'] \<and>
       (\<not> f' \<longrightarrow> concat (map snd cs') = pending r') \<and>
       (\<forall>c \<in> set cs'. snd c \<noteq> [] \<and> length (snd c) \<le> n) \<and>
       (\<forall>c \<in> set (butlast cs'). length (snd c) = n)"
      using "1.IH" [OF c [symmetric] refl] full rest "1.prems"(1) by simp
    have cs: "cs = (Suc k, buf) # cs'" "failed = f'"
      using "1.prems"(2) c full rest unf by auto
    have "[Suc k..<Suc k + length cs] = Suc k # [Suc (Suc k)..<Suc (Suc k) + length cs']"
      using upt_conv_Cons [of "Suc k" "Suc k + length cs"] by (simp only: cs(1)) simp
    then have "map fst cs = [Suc k..<Suc k + length cs]" using ih cs(1) by simp
    moreover have "failed = snd r \<and> (\<not> failed \<longrightarrow> concat (map snd cs) = pending r) \<and>
        (\<forall>c \<in> set cs. snd c \<noteq> [] \<and> length (snd c) \<le> n) \<and>
        (\<forall>c \<in> set (butlast cs). length (snd c) = n)"
      using ih rc cs full by (cases cs') auto
    ultimately show ?thesis by blast
  qed
qed

text \<open>
  The chunks of an upload are the stream: numbered from 1 without gaps, together exactly the
  bytes of the reader, none empty, and all but the last exactly of the chunk size (S3 rejects a
  smaller part in the middle). A reader that fails is reported as failed.
\<close>

theorem upload_chunks:
  assumes "0 < n" and "read_chunks n 0 r = (cs, failed)"
  shows "failed = snd r \<and> map fst cs = [1..<Suc (length cs)] \<and>
    (failed \<or> concat (map snd cs) = pending r) \<and>
    (\<forall>c \<in> set cs. snd c \<noteq> [] \<and> length (snd c) \<le> n) \<and>
    (\<forall>c \<in> set (butlast cs). length (snd c) = n)"
  using read_chunks_facts [OF assms] by auto

theorem upload_chunks_witness:
  "read_chunks 2 0 ([[1, 2, 3], [4, 5]], False) = ([(1, [1, 2]), (2, [3, 4]), (3, [5])], False) \<and>
   concat (map snd [(1 :: nat, [1, 2]), (2, [3, 4]), (3, [5 :: u8])]) = pending ([[1, 2, 3], [4, 5]], False)"
proof -
  have e: "read_chunks 2 0 ([[1, 2, 3], [4, 5]], False) = ([(1, [1, 2]), (2, [3, 4]), (3, [5])], False)"
    by (simp add: read_chunks.simps read_chunk_def pending_def)
  from upload_chunks [OF _ e] e show ?thesis by simp
qed

section \<open>Traces only grow\<close>

definition any_request :: "request \<Rightarrow> bool" where
  "any_request q \<longleftrightarrow> True"

lemma any_request [simp]: "any_request q"
  by (simp add: any_request_def)

abbreviation grows :: "('s, 'a) io \<Rightarrow> bool" where
  "grows \<equiv> requests any_request"

lemma growsD: "grows m \<Longrightarrow> m w = (r, w') \<Longrightarrow> set (trace w) \<subseteq> set (trace w')"
  by (auto elim: requestsD)

lemma grows_classify: "grows (classify_s3 b r)"
  unfolding classify_s3_def Let_def
  by (cases r) (auto intro!: requests_intros)

lemma grows_s3_retry: "grows (s3_retry env st q call)"
  unfolding s3_retry_def
  by (intro requests_intros grows_classify) (auto intro: requests_intros split: sum.split)

lemma grows_upload_one: "grows (upload_one env st k i c)"
  unfolding upload_one_def Let_def case_prod_beta by (intro requests_intros grows_s3_retry)

section \<open>The last request of a retried call\<close>

lemma classify_trace: "classify_s3 b r w = (x, w') \<Longrightarrow> trace w' = trace w"
  by (auto simp: classify_s3_def Let_def io_bind_def io_return_def with_progress_def
        split: sum.splits if_splits)

lemma retry_loop_last:
  assumes "\<And>n w x w'. f n w = (Ok x, w') \<Longrightarrow> trace w' \<noteq> [] \<and> last (trace w') = q"
  shows "retry_loop env cfg f ns e w = (Ok (Inr v), w') \<Longrightarrow> trace w' \<noteq> [] \<and> last (trace w') = q"
proof (induction ns arbitrary: e w)
  case Nil
  then show ?case by (cases e) (auto simp: io_return_def io_panic_def)
next
  case (Cons n ns)
  then obtain x u where x: "f n w = (Ok x, u)" and rest: "(case x of
         ROk v \<Rightarrow> io_return (Inr v)
       | RFatal e \<Rightarrow> io_return (Inl e)
       | RRetry e \<Rightarrow>
           if unat (max_attempts cfg) \<le> n then io_return (Inl e)
           else
             (\<lambda>w. let delay = delay_for_attempt cfg n (\<lambda>m. rand_upto env m (svc w)) in
                io_bind (sleep env (unat delay)) (\<lambda>_. retry_loop env cfg f ns (Some e)) w)) u
      = (Ok (Inr v), w')"
    by (auto elim!: io_bind_OkE)
  show ?case
  proof (cases x)
    case (RRetry e')
    with rest obtain t where "retry_loop env cfg f ns (Some e') t = (Ok (Inr v), w')"
      by (auto simp: Let_def io_return_def elim!: io_bind_OkE split: if_splits)
    then show ?thesis by (rule Cons.IH)
  qed (use rest assms [OF x] in \<open>auto simp: io_return_def\<close>)
qed

lemma s3_retry_last:
  assumes "s3_retry env st q call w = (Ok v, w')"
  shows "trace w' \<noteq> [] \<and> last (trace w') = q"
proof -
  from assms obtain r where r: "with_retry env s3_retry_config (\<lambda>_.
         io_bind (await env q call) (classify_s3 (has_progress st))) w = (Ok (Inr r), w')"
    by (auto simp: s3_retry_def io_fail_def io_return_def elim!: io_bind_OkE split: sum.splits)
  have "trace u' \<noteq> [] \<and> last (trace u') = q"
    if "io_bind (await env q call) (classify_s3 (has_progress st)) u = (Ok x, u')" for u x u'
  proof -
    from that obtain y t where a: "await env q call u = (Ok y, t)"
      and c: "classify_s3 (has_progress st) y t = (Ok x, u')" by (auto elim: io_bind_OkE)
    from await_trace [OF a] classify_trace [OF c] show ?thesis by simp
  qed
  then show ?thesis
    using retry_loop_last [OF _ r [unfolded with_retry_def]] by blast
qed

section \<open>A successful upload\<close>

lemma upload_one_Ok:
  assumes "upload_one env st k i c w = (Ok x, w')"
  shows "ReqUploadPart k i (fst c) (snd c) \<in> set (trace w')"
    and "fst x = fst c" and "fst (snd x) = word_of_nat (length (snd c))"
proof -
  from assms obtain resp u where u: "s3_retry env st (ReqUploadPart k i (fst c) (snd c))
      (s3_upload_part env k i (fst c) (snd c) (base64_encode_crc32 env (crc32 env (snd c)))) w = (Ok resp, u)"
    and x: "x = (fst c, word_of_nat (length (snd c)), resp)" "w' = u"
    by (auto simp: upload_one_def case_prod_beta Let_def io_return_def elim!: io_bind_OkE)
  from s3_retry_last [OF u] x show "ReqUploadPart k i (fst c) (snd c) \<in> set (trace w')"
    by (metis last_in_set)
  from x show "fst x = fst c" "fst (snd x) = word_of_nat (length (snd c))" by simp_all
qed

lemma upload_all_Ok:
  "io_map (upload_one env st k i) cs w = (Ok xs, w') \<Longrightarrow>
     map fst xs = map fst cs \<and>
     sum_list (map (\<lambda>x. fst (snd x)) xs) = word_of_nat (length (concat (map snd cs))) \<and>
     (\<forall>c \<in> set cs. ReqUploadPart k i (fst c) (snd c) \<in> set (trace w'))"
proof (induction cs arbitrary: w xs)
  case Nil
  then show ?case by (simp add: io_return_def)
next
  case (Cons c cs)
  then obtain x u xs' where one: "upload_one env st k i c w = (Ok x, u)"
    and rest: "io_map (upload_one env st k i) cs u = (Ok xs', w')" and xs: "xs = x # xs'"
    by (auto simp: io_return_def elim!: io_bind_OkE)
  have "set (trace u) \<subseteq> set (trace w')"
    by (rule growsD [where m = "io_map (upload_one env st k i) cs", OF _ rest])
       (intro requests_map grows_upload_one)
  with upload_one_Ok [OF one] Cons.IH [OF rest] xs show ?case by auto
qed

lemma handle_completed_Ok:
  assumes "\<And>n. grows (cb n)"
  shows "handle_completed env st cb (up, done) ds w = (Ok (up', done'), w') \<Longrightarrow>
     up' = up + sum_list (map (\<lambda>x. fst (snd x)) ds) \<and>
     map cp_number done' = map cp_number done @ map fst ds \<and> set (trace w) \<subseteq> set (trace w')"
proof (induction ds arbitrary: up "done" w)
  case Nil
  then show ?case by (simp add: io_return_def)
next
  case (Cons d ds)
  obtain pn b resp where d: "d = (pn, b, resp)" by (metis prod_cases3)
  have "grows (\<lambda>w. with_progress (\<lambda>p. fst (record_bytes b (elapsed_ms env (svc w)) p)) w)"
    by (simp add: requests_def with_progress_def)
  then have g: "grows (handle_completed_part env st cb (up, done) d)"
    unfolding handle_completed_part_def d Let_def prod.case
    by (intro requests_bind requests_if requests_return assms)
  from Cons.prems obtain a u where one: "handle_completed_part env st cb (up, done) d w = (Ok a, u)"
    and rest: "handle_completed env st cb a ds u = (Ok (up', done'), w')"
    by (auto elim: io_bind_OkE)
  from one have a: "a = (up + b, done @ [completed_part_from_upload pn resp])"
    by (auto simp: handle_completed_part_def d Let_def io_return_def elim!: io_bind_OkE)
  from Cons.IH [OF rest [unfolded a]] growsD [OF g one] show ?case
    by (auto simp: d completed_part_from_upload_def algebra_simps)
qed

lemma sum_list_perm:
  fixes f :: "'a \<Rightarrow> 'b::comm_monoid_add"
  assumes "mset xs = mset ys"
  shows "sum_list (map f xs) = sum_list (map f ys)"
proof -
  have "sum_mset (image_mset f (mset xs)) = sum_mset (image_mset f (mset ys))" by (simp only: assms)
  then show ?thesis by (simp only: sum_mset_sum_list flip: mset_map)
qed

lemma sorted_parts:
  assumes "mset (map fst xs) = mset [1..<Suc n]"
    and "map cp_number ds = map fst xs"
  shows "map cp_number (sort_key cp_number ds) = [1..<Suc n]"
proof -
  have "mset (map cp_number (sort_key cp_number ds)) = mset [1..<Suc n]"
    using assms by (metis mset_map mset_sort)
  moreover have "sorted (map cp_number (sort_key cp_number ds))" by simp
  ultimately show ?thesis
    using properties_for_sort [of "map cp_number (sort_key cp_number ds)" "[1..<Suc n]"]
    by (metis sorted_upt sorted_sort_id)
qed

definition permuting :: "'s env \<Rightarrow> bool" where
  "permuting env \<longleftrightarrow> (\<forall>xs. mset (completion env xs) = mset xs)"

lemma chunk_size_pos:
  "MULTIPART_MIN_CHUNK \<le> min_chunk_size st \<Longrightarrow> MULTIPART_MIN_CHUNK \<le> max_chunk_size st \<Longrightarrow>
     0 < unat (compute_chunk_size n (min_chunk_size st) (max_chunk_size st) (target_parts st))"
proof -
  assume "MULTIPART_MIN_CHUNK \<le> min_chunk_size st" "MULTIPART_MIN_CHUNK \<le> max_chunk_size st"
  then have le: "MULTIPART_MIN_CHUNK \<le>
      compute_chunk_size n (min_chunk_size st) (max_chunk_size st) (target_parts st)"
    by (simp add: compute_chunk_size_def le_max_iff_disj)
  have "0 < unat MULTIPART_MIN_CHUNK" by (simp add: MULTIPART_MIN_CHUNK_def)
  with le show ?thesis by (simp only: word_le_nat_alt)
qed

text \<open>The steps of a successful upload.\<close>

lemma multipart_inner_steps:
  assumes ok: "multipart_inner env st k i r esz cb w = (Ok n, w')"
    and perm: "permuting env" and cb: "\<And>n. grows (cb n)"
    and lo: "MULTIPART_MIN_CHUNK \<le> min_chunk_size st" and hi: "MULTIPART_MIN_CHUNK \<le> max_chunk_size st"
  shows "\<exists>cs results u ds t. concat (map snd cs) = pending r \<and> map fst cs = [1..<Suc (length cs)] \<and>
    \<not> snd r \<and> n = word_of_nat (length (pending r)) \<and>
    io_map (upload_one env st k i) cs w = (Ok results, u) \<and>
    handle_completed env st cb (0, []) (completion env results) u = (Ok (n, ds), t) \<and>
    map cp_number (sort_key cp_number ds) = [1..<Suc (length cs)] \<and>
    s3_retry env st (ReqComplete k i (map cp_number (sort_key cp_number ds)))
        (s3_complete env k i (sort_key cp_number ds)) t = (Ok (), w')"
proof -
  define c where "c = unat (compute_chunk_size (max esz 1) (min_chunk_size st) (max_chunk_size st)
      (target_parts st))"
  obtain cs failed where rc: "read_chunks c 0 r = (cs, failed)" by fastforce
  have pos: "0 < c" unfolding c_def by (rule chunk_size_pos [OF lo hi])
  define L where "L = [1..<Suc (length cs)]"
  have rf: "failed = snd r" "map fst cs = L" "\<not> failed \<longrightarrow> concat (map snd cs) = pending r"
    using read_chunks_facts [OF pos rc] unfolding L_def One_nat_def add_Suc add_0 by blast+
  from ok rc obtain results u where up: "io_map (upload_one env st k i) cs w = (Ok results, u)"
    and rest: "(if failed then io_fail (ReaderTaskFailed k)
      else io_bind (handle_completed env st cb (0, []) (completion env results)) (\<lambda>(uploaded, completed).
        let parts = sort_key cp_number completed in
        io_bind (s3_retry env st (ReqComplete k i (map cp_number parts)) (s3_complete env k i parts)) (\<lambda>_.
        io_return uploaded))) u = (Ok n, w')"
    by (auto simp: multipart_inner_def Let_def c_def [symmetric] elim!: io_bind_OkE)
  from rest have nf: "\<not> failed" by (auto simp: io_fail_def)
  with rest obtain m ds t x t' where
    h: "handle_completed env st cb (0, []) (completion env results) u = (Ok (m, ds), t)"
    and fin: "s3_retry env st (ReqComplete k i (map cp_number (sort_key cp_number ds)))
        (s3_complete env k i (sort_key cp_number ds)) t = (Ok x, t')"
    and res: "n = m" "w' = t'"
    by (auto simp: Let_def io_return_def elim!: io_bind_OkE)
  note ua = upload_all_Ok [OF up]
  note hc = handle_completed_Ok [OF cb h]
  have pm: "mset (completion env results) = mset results" using perm by (simp add: permuting_def)
  have "map fst results = L" using ua rf(2) by simp
  then have nums: "mset (map fst (completion env results)) = mset L"
    by (metis mset_map pm)
  have sorted: "map cp_number (sort_key cp_number ds) = L"
    unfolding L_def by (rule sorted_parts [OF nums [unfolded L_def]]) (use hc in simp)
  have sum: "m = word_of_nat (length (pending r))"
  proof -
    have "m = sum_list (map (\<lambda>x. fst (snd x)) (completion env results))" using hc by simp
    also have "\<dots> = sum_list (map (\<lambda>x. fst (snd x)) results)" by (rule sum_list_perm [OF pm])
    finally show ?thesis using ua rf(3) nf by simp
  qed
  have x: "x = ()" by simp
  have all: "concat (map snd cs) = pending r" "\<not> snd r" using rf(1,3) nf by simp_all
  show ?thesis
    using all rf(2) up h [folded res(1)] sorted fin [unfolded x, folded res(2)] sum res(1)
    unfolding L_def by blast
qed

lemma multipart_inner_Ok:
  assumes ok: "multipart_inner env st k i r esz cb w = (Ok n, w')"
    and perm: "permuting env" and cb: "\<And>n. grows (cb n)"
    and lo: "MULTIPART_MIN_CHUNK \<le> min_chunk_size st" and hi: "MULTIPART_MIN_CHUNK \<le> max_chunk_size st"
  shows "\<exists>cs. concat (map snd cs) = pending r \<and> map fst cs = [1..<Suc (length cs)] \<and>
    (\<forall>c \<in> set cs. ReqUploadPart k i (fst c) (snd c) \<in> set (trace w')) \<and>
    last (trace w') = ReqComplete k i [1..<Suc (length cs)] \<and> \<not> snd r \<and>
    n = word_of_nat (length (pending r))"
proof -
  obtain cs results u ds t where s: "concat (map snd cs) = pending r" "map fst cs = [1..<Suc (length cs)]"
    "\<not> snd r" "n = word_of_nat (length (pending r))"
    "io_map (upload_one env st k i) cs w = (Ok results, u)"
    "handle_completed env st cb (0, []) (completion env results) u = (Ok (n, ds), t)"
    "map cp_number (sort_key cp_number ds) = [1..<Suc (length cs)]"
    "s3_retry env st (ReqComplete k i (map cp_number (sort_key cp_number ds)))
        (s3_complete env k i (sort_key cp_number ds)) t = (Ok (), w')"
    using multipart_inner_steps [OF assms] by blast
  have "set (trace u) \<subseteq> set (trace w')"
    using handle_completed_Ok [OF cb s(6)] growsD [OF grows_s3_retry s(8)] by blast
  then have "\<forall>c \<in> set cs. ReqUploadPart k i (fst c) (snd c) \<in> set (trace w')"
    using upload_all_Ok [OF s(5)] by blast
  moreover have "last (trace w') = ReqComplete k i [1..<Suc (length cs)]"
    using s3_retry_last [OF s(8)] s(7) by (simp only:)
  ultimately show ?thesis using s(1-4) by blast
qed

text \<open>A service that accepts every part, or refuses them (\<open>good = False\<close>).\<close>

definition upload_env :: "bool \<Rightarrow> unit env" where
  "upload_env good = null_env\<lparr>s3_create_multipart := \<lambda>k s. (Inr (Some ''id''), s),
     s3_upload_part := \<lambda>k i n d c s.
       (if good then Inr \<lparr>up_etag = None, up_crc32 = None\<rparr> else Inl ConstructionFailure, s),
     s3_complete := \<lambda>k i ps s. (Inr (), s), s3_abort := \<lambda>k i s. (Inr (), s)\<rparr>"

lemma upload_env_simps [simp]:
  "s3_create_multipart (upload_env good) k s = (Inr (Some ''id''), s)"
  "s3_upload_part (upload_env good) k i n d c s =
     (if good then Inr \<lparr>up_etag = None, up_crc32 = None\<rparr> else Inl ConstructionFailure, s)"
  "s3_complete (upload_env good) k i ps s = (Inr (), s)"
  "s3_abort (upload_env good) k i s = (Inr (), s)"
  "preempt (upload_env good) s = False"
  "completion (upload_env good) xs = xs"
  by (simp_all add: upload_env_def null_env_def)

lemma plain_storage_simps [simp]:
  "has_progress plain_storage = False"
  "prefixed_key plain_storage k = ''p/'' @ k"
  "compute_chunk_size 3 (min_chunk_size plain_storage) (max_chunk_size plain_storage)
     (target_parts plain_storage) = 5242880"
  "MULTIPART_MIN_CHUNK \<le> min_chunk_size plain_storage"
  "MULTIPART_MIN_CHUNK \<le> max_chunk_size plain_storage"
proof -
  show "compute_chunk_size 3 (min_chunk_size plain_storage) (max_chunk_size plain_storage)
     (target_parts plain_storage) = 5242880"
    by code_simp
qed (simp_all add: plain_storage_def prefixed_key_def MULTIPART_MIN_CHUNK_def MULTIPART_MAX_CHUNK_def)

definition demo_reader :: reader where
  "demo_reader = ([[1, 2], [3]], False)"

lemma demo_reader_chunks [simp]:
  "read_chunks 5242880 0 demo_reader = ([(1, [1, 2, 3])], False)"
  by (simp add: read_chunks.simps read_chunk_def pending_def demo_reader_def)

lemmas run_upload =
  put_object_multipart_reader_def multipart_inner_def s3_retry_def with_retry_def s3_retry_config_def
  upt_rec await_def Let_def io_bind_def io_return_def io_match_def io_fail_def start_world_def
  classify_s3_def upload_one_def handle_completed_part_def completed_part_from_upload_def
  is_retryable_def

text \<open>
  C13. A successful multipart upload stores the stream: when the upload returns a size, that is the
  size of the stream; the stream was cut into parts numbered from 1, every part was sent, and
  the last request completes the upload with exactly these part numbers in increasing order,
  in whatever order the concurrent uploads finished.
\<close>

theorem multipart_success:
  assumes "put_object_multipart_reader env st key r esz cb w = (Ok n, w')"
    and "permuting env" and "\<And>n. grows (cb n)"
    and "MULTIPART_MIN_CHUNK \<le> min_chunk_size st" and "MULTIPART_MIN_CHUNK \<le> max_chunk_size st"
  shows "\<exists>i cs. concat (map snd cs) = pending r \<and> map fst cs = [1..<Suc (length cs)] \<and>
    (\<forall>c \<in> set cs. ReqUploadPart (prefixed_key st key) i (fst c) (snd c) \<in> set (trace w')) \<and>
    last (trace w') = ReqComplete (prefixed_key st key) i [1..<Suc (length cs)] \<and> \<not> snd r \<and>
    n = word_of_nat (length (pending r))"
proof -
  from assms(1) obtain i u where "multipart_inner env st (prefixed_key st key) i r esz cb u = (Ok n, w')"
    by (auto simp: put_object_multipart_reader_def Let_def io_match_def io_fail_def io_return_def
          io_bind_def split: option.splits prod.splits outcome.splits sum.splits)
  from multipart_inner_Ok [OF this assms(2-5)] show ?thesis by blast
qed

theorem multipart_success_witness:
  "\<exists>w'. put_object_multipart_reader (upload_env True) plain_storage ''k'' demo_reader 3
      (\<lambda>_. io_return ()) (start_world ()) = (Ok 3, w') \<and>
    (\<exists>i (cs :: (nat \<times> bytes) list). concat (map snd cs) = pending demo_reader \<and>
      last (trace w') = ReqComplete ''p/k'' i [1..<Suc (length cs)])"
proof -
  have "\<exists>w'. put_object_multipart_reader (upload_env True) plain_storage ''k'' demo_reader 3
      (\<lambda>_. io_return ()) (start_world ()) = (Ok 3, w')"
    by (simp add: run_upload)
  then obtain w' where e: "put_object_multipart_reader (upload_env True) plain_storage ''k''
      demo_reader 3 (\<lambda>_. io_return ()) (start_world ()) = (Ok 3, w')" by blast
  have "permuting (upload_env True)" by (simp add: permuting_def)
  from multipart_success [OF e this requests_return plain_storage_simps(4,5)] obtain i
    and cs :: "(nat \<times> bytes) list" where
    "concat (map snd cs) = pending demo_reader"
    "last (trace w') = ReqComplete (prefixed_key plain_storage ''k'') i [1..<Suc (length cs)]" by blast
  with e show ?thesis unfolding plain_storage_simps(2) append.simps by blast
qed



end
