(* ===== verification/Util.thy ===== *)
theory Util
  imports Rust_Std
begin

text \<open>
  \<open>src/util.rs\<close>: the object key of a blob. Keys are injective in the hash, which is what makes
  the blob store content addressed.
\<close>

definition blob_shard :: "string \<Rightarrow> string" where
  "blob_shard hash = (if 2 \<le> length hash then take 2 hash else ''__'')"

definition blob_remote_key :: "string \<Rightarrow> string" where
  "blob_remote_key hash = ''base/data/blobs/'' @ blob_shard hash @ ''/'' @ hash"

lemma length_blob_shard [simp]: "length (blob_shard h) = 2"
  by (simp add: blob_shard_def)

lemma blob_remote_key_inj: "blob_remote_key h = blob_remote_key h' \<longleftrightarrow> h = h'"
proof
  assume "blob_remote_key h = blob_remote_key h'"
  then have "blob_shard h @ ''/'' @ h = blob_shard h' @ ''/'' @ h'"
    by (simp add: blob_remote_key_def)
  then have "''/'' @ h = ''/'' @ h'"
    by (metis append_eq_append_conv length_blob_shard)
  then show "h = h'" by simp
qed simp

text \<open>
  Blobs are content addressed: two hashes have the same object key only when they are the
  same string.
\<close>

theorem blob_key_injective: "blob_remote_key h = blob_remote_key h' \<longleftrightarrow> h = h'"
  by (rule blob_remote_key_inj)

end
