(* ===== verification/Manifest.thy ===== *)
theory Manifest
  imports Storage Util
begin

text \<open>
  \<open>src/manifest.rs\<close>: the record of a snapshot at \<open>snapshots/{name}.json.zst\<close>. The serializer, the
  compressor and the formatting of dates are parameters (\<open>manifest_codec\<close>).
\<close>

record manifest_part =
  mp_database :: string
  mp_table_name :: string
  mp_part_name :: string
  mp_blob_hash :: string
  mp_blob_size :: u64

record manifest_file =
  mf_path :: string
  mf_content_b64 :: string

record manifest =
  m_name :: string
  m_timestamp :: i64
  m_shard :: string
  m_replica :: string
  m_created_by :: string
  m_parts :: "manifest_part list"
  m_files :: "manifest_file list"

record manifest_codec =
  enc_manifest :: "manifest \<Rightarrow> bytes option"
  dec_manifest :: "bytes \<Rightarrow> manifest option"
  fmt_timestamp :: "i64 \<Rightarrow> string"
  utc_day :: "i64 \<Rightarrow> string option"
  date_in_range :: "int \<Rightarrow> bool"

definition MANIFEST_PREFIX :: string where "MANIFEST_PREFIX = ''snapshots/''"
definition MANIFEST_SUFFIX :: string where "MANIFEST_SUFFIX = ''.json.zst''"

section \<open>Files embedded in a manifest\<close>

definition manifest_file_from_bytes :: "'s env \<Rightarrow> string \<Rightarrow> bytes \<Rightarrow> manifest_file" where
  "manifest_file_from_bytes env path content =
     \<lparr>mf_path = path, mf_content_b64 = b64_encode env content\<rparr>"

definition decode_content :: "'s env \<Rightarrow> manifest_file \<Rightarrow> bytes result" where
  "decode_content env f =
     (case b64_decode env (mf_content_b64 f) of
        None \<Rightarrow> Inl (InvalidBase64 (mf_path f))
      | Some b \<Rightarrow> Inr b)"

section \<open>Names and keys\<close>

definition manifest_key :: "string \<Rightarrow> string" where
  "manifest_key name = MANIFEST_PREFIX @ name @ MANIFEST_SUFFIX"

definition manifest_name_from_key :: "string \<Rightarrow> string option" where
  "manifest_name_from_key key =
     (case strip_prefix MANIFEST_PREFIX key of
        None \<Rightarrow> None
      | Some s \<Rightarrow> strip_suffix MANIFEST_SUFFIX s)"

definition is_ascii_hexdigit :: "char \<Rightarrow> bool" where
  "is_ascii_hexdigit c \<longleftrightarrow>
     (let n = (of_char c :: nat) in 48 \<le> n \<and> n \<le> 57 \<or> 65 \<le> n \<and> n \<le> 70 \<or> 97 \<le> n \<and> n \<le> 102)"

definition build_auto_name :: "manifest_codec \<Rightarrow> string \<Rightarrow> string \<Rightarrow> i64 \<Rightarrow> string \<Rightarrow> string" where
  "build_auto_name cd shard replica ts uuid =
     (let short_uuid = take 8 (filter is_ascii_hexdigit uuid) in
      ''live_'' @ shard @ ''_'' @ replica @ ''_'' @ fmt_timestamp cd ts @ ''_'' @ short_uuid)"

section \<open>Reading and writing\<close>

definition encode :: "manifest_codec \<Rightarrow> manifest \<Rightarrow> bytes result" where
  "encode cd m = (case enc_manifest cd m of None \<Rightarrow> Inl DecodeFailed | Some b \<Rightarrow> Inr b)"

definition decode :: "manifest_codec \<Rightarrow> bytes \<Rightarrow> manifest result" where
  "decode cd b = (case dec_manifest cd b of None \<Rightarrow> Inl DecodeFailed | Some m \<Rightarrow> Inr m)"

definition write_manifest :: "'s env \<Rightarrow> manifest_codec \<Rightarrow> storage \<Rightarrow> manifest \<Rightarrow> ('s, unit) io" where
  "write_manifest env cd st m =
     io_bind (io_lift (encode cd m)) (\<lambda>body.
     io_bind (put_object_conditional env st (manifest_key (m_name m)) body None True)
       (\<lambda>(etag, conflict).
         if conflict then io_fail (ManifestExists (m_name m)) else io_return ()))"

definition read_manifest :: "'s env \<Rightarrow> manifest_codec \<Rightarrow> storage \<Rightarrow> string \<Rightarrow> ('s, manifest) io" where
  "read_manifest env cd st name =
     io_bind (get_object env st (manifest_key name)) (\<lambda>bytes.
     io_bind (io_lift (decode cd bytes)) (\<lambda>m. io_return (m\<lparr>m_name := name\<rparr>)))"

definition list_manifest_names :: "'s env \<Rightarrow> storage \<Rightarrow> ('s, string list) io" where
  "list_manifest_names env st =
     io_bind (list_objects env st MANIFEST_PREFIX) (\<lambda>entries.
       io_return (List.map_filter (\<lambda>(key, sz, modified). manifest_name_from_key key) entries))"

text \<open>\<open>order\<close> is the order in which the concurrent downloads complete.\<close>

definition read_all_manifests ::
  "'s env \<Rightarrow> manifest_codec \<Rightarrow> storage \<Rightarrow> (string list \<Rightarrow> string list) \<Rightarrow> ('s, manifest list) io"
where
  "read_all_manifests env cd st order =
     io_bind (list_manifest_names env st) (\<lambda>names.
       io_map (read_manifest env cd st) (order names))"

definition blob_hash_set :: "manifest \<Rightarrow> string set" where
  "blob_hash_set m = set (map mp_blob_hash (m_parts m))"

definition delete_manifest :: "'s env \<Rightarrow> storage \<Rightarrow> string \<Rightarrow> ('s, unit) io" where
  "delete_manifest env st name = delete_object env st (manifest_key name)"

section \<open>The properties\<close>

text \<open>
  The key of a manifest determines its name and back: a name is recovered from its key, a key
  that yields a name is the key of that name, and different names have different keys.
\<close>

theorem manifest_key_roundtrip:
  "manifest_name_from_key (manifest_key name) = Some name \<and>
   (manifest_name_from_key key = Some name' \<longleftrightarrow> key = manifest_key name')"
  by (auto simp: manifest_name_from_key_def manifest_key_def strip_prefix_Some strip_suffix_Some
      split: option.splits)

end
