(* ===== verification/Gc_Lock.thy ===== *)
theory Gc_Lock
  imports Storage
begin

text \<open>
  \<open>src/gc/lock.rs\<close>: the lock object that serializes garbage collections. The JSON codec of its
  payload is a parameter. Times are seconds in an \<open>i64\<close>.
\<close>

definition LOCK_KEY :: string where "LOCK_KEY = ''gc/.lock''"
definition TTL_SECS :: u64 where "TTL_SECS = 60"
definition HEARTBEAT_SECS :: nat where "HEARTBEAT_SECS = 30"

record lock_info =
  li_instance_id :: string
  li_hostname :: string
  li_acquired_at :: i64
  li_ttl_secs :: u64

record lock_codec =
  enc_lock :: "lock_info \<Rightarrow> bytes"
  dec_lock :: "bytes \<Rightarrow> lock_info option"
  this_host :: string

definition epoch_secs :: "int \<Rightarrow> i64" where
  "epoch_secs ns = (if ns < 0 then 0 else word_of_int (ns div 1000000000))"

definition now_epoch_secs :: "'s env \<Rightarrow> ('s, i64) io" where
  "now_epoch_secs env = io_bind (clock env) (\<lambda>ns. io_return (epoch_secs ns))"

definition new_lock_info :: "lock_codec \<Rightarrow> string \<Rightarrow> i64 \<Rightarrow> lock_info" where
  "new_lock_info lc instance_id now =
     \<lparr>li_instance_id = instance_id, li_hostname = this_host lc, li_acquired_at = now,
      li_ttl_secs = TTL_SECS\<rparr>"

definition is_expired :: "i64 \<Rightarrow> lock_info \<Rightarrow> bool" where
  "is_expired now l \<longleftrightarrow> sint (li_acquired_at l + li_ttl_secs l) < sint now"

definition try_put :: "'s env \<Rightarrow> lock_codec \<Rightarrow> storage \<Rightarrow> string \<Rightarrow> ('s, string option) io" where
  "try_put env lc st instance_id =
     io_bind (now_epoch_secs env) (\<lambda>now.
     let body = enc_lock lc (new_lock_info lc instance_id now) in
     io_bind (put_object_conditional env st LOCK_KEY body None True) (\<lambda>(etag, conflict).
     io_return (if \<not> conflict then Some etag else None)))"

definition break_stale :: "'s env \<Rightarrow> lock_codec \<Rightarrow> storage \<Rightarrow> string \<Rightarrow> ('s, string option) io" where
  "break_stale env lc st instance_id =
     io_match (delete_object env st LOCK_KEY)
       (\<lambda>_. try_put env lc st instance_id)
       (\<lambda>_. try_put env lc st instance_id)"

definition acquire :: "'s env \<Rightarrow> lock_codec \<Rightarrow> storage \<Rightarrow> string \<Rightarrow> ('s, string option) io" where
  "acquire env lc st instance_id =
     io_bind (try_put env lc st instance_id) (\<lambda>r.
       case r of
         Some etag \<Rightarrow> io_return (Some etag)
       | None \<Rightarrow>
           io_match (get_object env st LOCK_KEY)
             (\<lambda>data.
               case dec_lock lc data of
                 None \<Rightarrow> break_stale env lc st instance_id
               | Some existing \<Rightarrow>
                   io_bind (now_epoch_secs env) (\<lambda>now.
                     if is_expired now existing then break_stale env lc st instance_id
                     else io_return None))
             (\<lambda>_. try_put env lc st instance_id))"

definition delete_quietly :: "'s env \<Rightarrow> storage \<Rightarrow> string \<Rightarrow> ('s, unit) io" where
  "delete_quietly env st key =
     io_match (delete_object env st key) (\<lambda>_. io_return ()) (\<lambda>_. io_return ())"

definition release :: "'s env \<Rightarrow> lock_codec \<Rightarrow> storage \<Rightarrow> string \<Rightarrow> ('s, unit) io" where
  "release env lc st instance_id =
     io_match (get_object env st LOCK_KEY)
       (\<lambda>data.
         case dec_lock lc data of
           Some existing \<Rightarrow>
             if li_instance_id existing \<noteq> instance_id then io_return ()
             else delete_quietly env st LOCK_KEY
         | None \<Rightarrow> delete_quietly env st LOCK_KEY)
       (\<lambda>_. delete_quietly env st LOCK_KEY)"

definition refresh ::
  "'s env \<Rightarrow> lock_codec \<Rightarrow> storage \<Rightarrow> string \<Rightarrow> string \<Rightarrow> ('s, string option) io"
where
  "refresh env lc st instance_id expected_etag =
     io_bind (now_epoch_secs env) (\<lambda>now.
     let body = enc_lock lc (new_lock_info lc instance_id now) in
     io_bind (put_object_conditional env st LOCK_KEY body (Some expected_etag) False)
       (\<lambda>(new_etag, conflict). io_return (if \<not> conflict then Some new_etag else None)))"

text \<open>
  The heartbeat task over the iterations it gets before it is cancelled: the etag it ends with,
  and whether it has cancelled the token \<open>lost\<close>.
\<close>

fun heartbeat ::
  "'s env \<Rightarrow> lock_codec \<Rightarrow> storage \<Rightarrow> string \<Rightarrow> nat \<Rightarrow> string \<Rightarrow> ('s, string \<times> bool) io"
where
  "heartbeat env lc st instance_id 0 etag = io_return (etag, False)"
| "heartbeat env lc st instance_id (Suc n) etag =
     io_bind (sleep env (HEARTBEAT_SECS * 1000)) (\<lambda>_.
       io_match (refresh env lc st instance_id etag)
         (\<lambda>r. case r of
              Some new_etag \<Rightarrow> heartbeat env lc st instance_id n new_etag
            | None \<Rightarrow> io_return (etag, True))
         (\<lambda>_. heartbeat env lc st instance_id n etag))"

fun acquire_attempts ::
  "'s env \<Rightarrow> lock_codec \<Rightarrow> storage \<Rightarrow> string \<Rightarrow> nat \<Rightarrow> nat list \<Rightarrow> ('s, string option) io"
where
  "acquire_attempts env lc st instance_id max_att [] = io_return None"
| "acquire_attempts env lc st instance_id max_att (attempt # rest) =
     io_match (acquire env lc st instance_id)
       (\<lambda>r. case r of
            Some etag \<Rightarrow> io_return (Some etag)
          | None \<Rightarrow>
              if attempt < max_att then
                io_bind (sleep env (2 ^ min attempt 5 * 1000)) (\<lambda>_.
                  acquire_attempts env lc st instance_id max_att rest)
              else io_return None)
       (\<lambda>e. if attempt < max_att then
              io_bind (sleep env 1000) (\<lambda>_. acquire_attempts env lc st instance_id max_att rest)
            else io_fail e)"

definition acquire_with_retry ::
  "'s env \<Rightarrow> lock_codec \<Rightarrow> storage \<Rightarrow> string \<Rightarrow> nat \<Rightarrow> ('s, string option) io"
where
  "acquire_with_retry env lc st instance_id max_att =
     acquire_attempts env lc st instance_id max_att [1..<Suc max_att]"

section \<open>What the lock operations request\<close>

text \<open>The requests of the lock touch nothing but the lock object.\<close>

definition lock_request :: "storage \<Rightarrow> request \<Rightarrow> bool" where
  "lock_request st q =
     (let k = prefixed_key st LOCK_KEY in
      case q of
        ReqGet k' \<Rightarrow> k' = k
      | ReqPut k' d m n \<Rightarrow> k' = k
      | ReqDelete k' \<Rightarrow> k' = k
      | Sleep ms \<Rightarrow> True
      | _ \<Rightarrow> False)"

lemma requests_storage_ops:
  "Q (ReqGet (prefixed_key st k)) \<Longrightarrow> requests Q (get_object env st k)"
  "Q (ReqPut (prefixed_key st k) d m n) \<Longrightarrow> requests Q (put_object_conditional env st k d m n)"
  "Q (ReqDelete (prefixed_key st k)) \<Longrightarrow> requests Q (delete_object env st k)"
  unfolding get_object_def put_object_conditional_def delete_object_def send_def Let_def
  by (auto intro!: requests_intros split: sum.split option.split)

lemma requests_now: "requests Q (now_epoch_secs env)"
  unfolding now_epoch_secs_def by (intro requests_intros)

lemma requests_try_put: "requests (lock_request st) (try_put env lc st i)"
  unfolding try_put_def Let_def
  by (auto intro!: requests_bind requests_now requests_storage_ops requests_return
      simp: lock_request_def)

lemma requests_delete_quietly: "requests (lock_request st) (delete_quietly env st LOCK_KEY)"
  unfolding delete_quietly_def
  by (intro requests_match requests_storage_ops requests_return) (simp add: lock_request_def)

lemma requests_break_stale: "requests (lock_request st) (break_stale env lc st i)"
  unfolding break_stale_def
  by (intro requests_match requests_storage_ops requests_try_put) (simp add: lock_request_def)

lemma requests_acquire: "requests (lock_request st) (acquire env lc st i)"
proof -
  have "lock_request st (ReqGet (prefixed_key st LOCK_KEY))" by (simp add: lock_request_def)
  then show ?thesis
    unfolding acquire_def
    by (auto intro!: requests_bind requests_match requests_try_put requests_return requests_if
        requests_storage_ops requests_break_stale requests_now split: option.split)
qed

lemma requests_release: "requests (lock_request st) (release env lc st i)"
proof -
  have "lock_request st (ReqGet (prefixed_key st LOCK_KEY))" by (simp add: lock_request_def)
  then show ?thesis
    unfolding release_def
    by (auto intro!: requests_match requests_return requests_storage_ops requests_delete_quietly
        split: option.split)
qed

lemma requests_acquire_attempts: "requests (lock_request st) (acquire_attempts env lc st i m ns)"
proof (induction ns)
  case (Cons n ns)
  have "lock_request st (Sleep ms)" for ms by (simp add: lock_request_def)
  with Cons show ?case
    by (auto intro!: requests_match requests_acquire requests_return requests_fail requests_bind
        requests_sleep split: option.split)
qed (simp add: requests_return)

lemma requests_acquire_with_retry: "requests (lock_request st) (acquire_with_retry env lc st i m)"
  unfolding acquire_with_retry_def by (rule requests_acquire_attempts)

lemma requests_refresh: "requests (lock_request st) (refresh env lc st i e)"
  unfolding refresh_def Let_def
  by (auto intro!: requests_bind requests_now requests_storage_ops requests_return
      simp: lock_request_def)

lemma requests_heartbeat: "requests (lock_request st) (heartbeat env lc st i n e)"
proof (induction n arbitrary: e)
  case (Suc n)
  have "lock_request st (Sleep ms)" for ms by (simp add: lock_request_def)
  with Suc show ?case
    by (auto intro!: requests_match requests_refresh requests_return requests_bind
        requests_sleep split: option.split)
qed (simp add: requests_return)

end
