(* ===== verification/Blob_Hash.thy ===== *)
theory Blob_Hash
  imports Prelude
begin

text \<open>
  \<open>src/blob_hash.rs\<close>: the compact 128-bit form of a blob hash, the parser from its 32
  hexadecimal digits, and the printer its tests use. The lemmas: which strings parse, the
  round trip, and that two spellings of a hash parse alike exactly when they agree up to the
  case of their letters (what the garbage collector's membership test rests on).
\<close>

unbundle bit_operations_syntax

section \<open>Definitions\<close>

definition hex_digit :: "u8 \<Rightarrow> u8 option" where
  "hex_digit c =
     (if 48 \<le> c \<and> c \<le> 57 then Some (c - 48)
      else if 97 \<le> c \<and> c \<le> 102 then Some (c - 97 + 10)
      else if 65 \<le> c \<and> c \<le> 70 then Some (c - 65 + 10)
      else None)"

text \<open>The loop over \<open>chunks(2)\<close>; a chunk is never shorter, the length is checked first.\<close>

fun from_hex_pairs :: "bytes \<Rightarrow> bytes option" where
  "from_hex_pairs (a # b # cs) =
     (case hex_digit a of None \<Rightarrow> None
      | Some high \<Rightarrow>
        (case hex_digit b of None \<Rightarrow> None
         | Some low \<Rightarrow> map_option ((#) (push_bit 4 high OR low)) (from_hex_pairs cs)))"
| "from_hex_pairs cs = Some []"

definition from_hex :: "string \<Rightarrow> bytes option" where
  "from_hex s = (if length s \<noteq> 32 then None else from_hex_pairs (as_bytes s))"

definition HEX_CHARS :: string where
  "HEX_CHARS = ''0123456789abcdef''"

fun to_hex :: "bytes \<Rightarrow> string" where
  "to_hex [] = []"
| "to_hex (b # bs) = HEX_CHARS ! unat (drop_bit 4 b) # HEX_CHARS ! unat (b AND 15) # to_hex bs"

section \<open>Digits\<close>

definition is_hex_byte :: "u8 \<Rightarrow> bool" where
  "is_hex_byte c \<longleftrightarrow> 48 \<le> c \<and> c \<le> 57 \<or> 97 \<le> c \<and> c \<le> 102 \<or> 65 \<le> c \<and> c \<le> 70"

definition hex_lower :: "u8 \<Rightarrow> u8" where
  "hex_lower c = (if 65 \<le> c \<and> c \<le> 90 then c + 32 else c)"

lemma hex_digit_None_iff: "hex_digit c = None \<longleftrightarrow> \<not> is_hex_byte c"
  by (auto simp: hex_digit_def is_hex_byte_def)

text \<open>The digit is the index of the (lower-case) byte in \<^const>\<open>HEX_CHARS\<close>.\<close>

definition hex_digit_ok :: "u8 \<Rightarrow> bool" where
  "hex_digit_ok c =
     (case hex_digit c of None \<Rightarrow> False
      | Some v \<Rightarrow> v < 16 \<and> hex_lower c = of_char (HEX_CHARS ! unat v))"

lemma hex_digit_ok: "is_hex_byte c \<Longrightarrow> hex_digit_ok c"
proof -
  assume "is_hex_byte c"
  then consider "48 \<le> unat c" "unat c < 58" | "97 \<le> unat c" "unat c < 103"
    | "65 \<le> unat c" "unat c < 71"
    by (auto simp: is_hex_byte_def word_le_nat_alt)
  then show ?thesis
  proof cases
    case 1
    show ?thesis by (rule byte_range_cases [OF _ 1]) code_simp
  next
    case 2
    show ?thesis by (rule byte_range_cases [OF _ 2]) code_simp
  next
    case 3
    show ?thesis by (rule byte_range_cases [OF _ 3]) code_simp
  qed
qed

lemma hex_digit_lower: "hex_digit (hex_lower c) = hex_digit c"
proof (cases "65 \<le> c \<and> c \<le> 90")
  case True
  then have r: "65 \<le> unat c" "unat c < 91" by (auto simp: word_le_nat_alt)
  show ?thesis by (rule byte_range_cases [OF _ r]) code_simp
qed (auto simp: hex_lower_def)

lemma hex_digit_Some:
  assumes "hex_digit c = Some v"
  shows "v < 16" and "hex_lower c = of_char (HEX_CHARS ! unat v)"
proof -
  have "is_hex_byte c" using assms hex_digit_None_iff [of c] by simp
  then have "hex_digit_ok c" by (rule hex_digit_ok)
  with assms show "v < 16" and "hex_lower c = of_char (HEX_CHARS ! unat v)"
    by (auto simp: hex_digit_ok_def)
qed

lemma hex_digit_HEX_CHARS: "v < 16 \<Longrightarrow> hex_digit (of_char (HEX_CHARS ! unat v)) = Some v"
proof -
  assume "v < 16"
  then have r: "0 \<le> unat v" "unat v < 16" by (auto simp: word_less_nat_alt)
  show ?thesis by (rule byte_range_cases [OF _ r]) code_simp
qed

section \<open>Pairs of digits\<close>

lemma lt16_take_bit: "(x :: u8) < 16 \<Longrightarrow> take_bit 4 x = x"
  using less_mask_eq [of x 4] by (simp add: take_bit_eq_mask)

lemma nibbles_join:
  fixes hi lo :: u8
  assumes "hi < 16" "lo < 16"
  shows "drop_bit 4 (push_bit 4 hi OR lo) = hi" "(push_bit 4 hi OR lo) AND 15 = lo"
proof -
  have hi: "\<not> bit hi n" and lo: "\<not> bit lo n" if "4 \<le> n" for n
    using assms that by (metis bit_take_bit_iff leD lt16_take_bit)+
  have m: "(15 :: u8) = mask 4" by (simp add: mask_eq_exp_minus_1)
  have h4: "bit hi n \<Longrightarrow> n + 4 < 8" for n
    using hi [of n] by (cases "4 \<le> n") auto
  show "drop_bit 4 (push_bit 4 hi OR lo) = hi"
    using lo h4 by (intro bit_word_eqI) (auto simp: bit_simps add.commute)
  have l4: "bit lo n \<Longrightarrow> n < 4" for n
    using lo [of n] by (meson not_less)
  show "(push_bit 4 hi OR lo) AND 15 = lo"
    unfolding m by (intro bit_word_eqI) (auto simp: bit_simps dest: l4)
qed

lemma nibbles_split:
  fixes b :: u8
  shows "push_bit 4 (drop_bit 4 b) OR (b AND 15) = b" "drop_bit 4 b < 16" "b AND 15 < 16"
proof -
  have m: "(15 :: u8) = mask 4" by (simp add: mask_eq_exp_minus_1)
  show "push_bit 4 (drop_bit 4 b) OR (b AND 15) = b"
    unfolding m by (intro bit_word_eqI) (auto simp: bit_simps not_less)
  have "unat (drop_bit 4 b) < 16"
  proof -
    have "unat b < 2 ^ LENGTH(8)" by (rule unsigned_less)
    then show ?thesis by (simp add: drop_bit_eq_div unat_div_distrib)
  qed
  then show "drop_bit 4 b < 16" by (simp add: word_less_nat_alt)
  have "b AND 15 \<le> 15" by (rule word_and_le1)
  then show "b AND 15 < 16" by (simp add: word_le_nat_alt word_less_nat_alt)
qed

lemma from_hex_pairs_to_hex: "from_hex_pairs (as_bytes (to_hex h)) = Some h"
  by (induction h)
     (simp_all add: as_bytes_def hex_digit_HEX_CHARS nibbles_split)

lemma length_to_hex [simp]: "length (to_hex h) = 2 * length h"
  by (induction h) simp_all

lemma from_hex_pairs_length:
  "from_hex_pairs bs = Some h \<Longrightarrow> even (length bs) \<Longrightarrow> length bs = 2 * length h"
  by (induction bs arbitrary: h rule: from_hex_pairs.induct)
     (auto split: option.splits)

lemma from_hex_pairs_Some_iff:
  "even (length bs) \<Longrightarrow> (\<exists>h. from_hex_pairs bs = Some h) \<longleftrightarrow> list_all is_hex_byte bs"
proof (induction bs rule: from_hex_pairs.induct)
  case (1 a b cs)
  have d: "is_hex_byte c \<longleftrightarrow> (\<exists>v. hex_digit c = Some v)" for c
    using hex_digit_None_iff [of c] by auto
  from 1 show ?case by (auto simp: d split: option.splits)
qed auto

text \<open>Printing what was parsed gives back the digits, in lower case.\<close>

lemma to_hex_from_hex_pairs:
  "from_hex_pairs bs = Some h \<Longrightarrow> even (length bs) \<Longrightarrow> as_bytes (to_hex h) = map hex_lower bs"
proof (induction bs arbitrary: h rule: from_hex_pairs.induct)
  case (1 a b cs)
  from "1.prems" obtain hi lo h' where
    d: "hex_digit a = Some hi" "hex_digit b = Some lo" "from_hex_pairs cs = Some h'"
    and h: "h = (push_bit 4 hi OR lo) # h'"
    by (auto split: option.splits)
  have "as_bytes (to_hex h') = map hex_lower cs" using 1 d by auto
  moreover have "to_hex h = HEX_CHARS ! unat hi # HEX_CHARS ! unat lo # to_hex h'"
    using d by (simp only: h to_hex.simps nibbles_join hex_digit_Some(1))
  ultimately show ?case
    using d by (simp add: hex_digit_Some as_bytes_def)
qed (auto simp: as_bytes_def)

section \<open>Whole hashes\<close>

lemma from_hex_to_hex: "length h = 16 \<Longrightarrow> from_hex (to_hex h) = Some h"
  by (simp add: from_hex_def from_hex_pairs_to_hex)

lemma from_hex_Some_iff:
  "(\<exists>h. from_hex s = Some h) \<longleftrightarrow> length s = 32 \<and> list_all is_hex_byte (as_bytes s)"
  using from_hex_pairs_Some_iff [of "as_bytes s"] by (auto simp: from_hex_def)

lemma from_hex_length: "from_hex s = Some h \<Longrightarrow> length h = 16"
  using from_hex_pairs_length [of "as_bytes s" h] by (auto simp: from_hex_def split: if_splits)

lemma to_hex_from_hex: "from_hex s = Some h \<Longrightarrow> as_bytes (to_hex h) = map hex_lower (as_bytes s)"
  using to_hex_from_hex_pairs [of "as_bytes s" h] by (auto simp: from_hex_def split: if_splits)

lemma from_hex_pairs_lower: "from_hex_pairs (map hex_lower bs) = from_hex_pairs bs"
  by (induction bs rule: from_hex_pairs.induct) (auto simp: hex_digit_lower split: option.splits)

text \<open>
  Two strings denote the same hash exactly when they agree up to the case of the digits.
\<close>

lemma from_hex_eq_iff:
  assumes "from_hex s = Some h"
  shows "from_hex t = Some h \<longleftrightarrow> map hex_lower (as_bytes t) = map hex_lower (as_bytes s)"
proof
  assume "from_hex t = Some h"
  with assms show "map hex_lower (as_bytes t) = map hex_lower (as_bytes s)"
    by (metis to_hex_from_hex)
next
  assume eq: "map hex_lower (as_bytes t) = map hex_lower (as_bytes s)"
  then have "length t = length s" by (metis length_as_bytes length_map)
  moreover have "from_hex_pairs (as_bytes t) = from_hex_pairs (as_bytes s)"
    by (metis eq from_hex_pairs_lower)
  ultimately show "from_hex t = Some h"
    using assms by (simp add: from_hex_def split: if_splits)
qed

section \<open>The properties\<close>

text \<open>
  The compact form of a hash loses nothing: the 16 bytes of a hash print to 32 digits that
  parse back to them.
\<close>

theorem blob_hash_roundtrip:
  assumes "length h = 16"
  shows "from_hex (to_hex h) = Some h"
  by (rule from_hex_to_hex [OF assms])

theorem blob_hash_roundtrip_witness: "from_hex (to_hex (replicate 16 0xAB)) = Some (replicate 16 0xAB)"
  by (rule blob_hash_roundtrip) simp

text \<open>
  Membership of a hash in the set of live blobs is decided on its parsed form, and that is
  equality of the strings up to the case of the digits: a string that parses has 32 hexadecimal
  digits, and another string parses to the same hash exactly when the two agree in lower case.
\<close>

theorem blob_hash_equality:
  assumes "from_hex s = Some h"
  shows "length s = 32 \<and> list_all is_hex_byte (as_bytes s) \<and>
    (from_hex t = Some h \<longleftrightarrow> map hex_lower (as_bytes t) = map hex_lower (as_bytes s))"
  using from_hex_eq_iff [OF assms] from_hex_Some_iff [of s] assms by auto

theorem blob_hash_equality_witness:
  "from_hex (concat (replicate 16 ''aF'')) = Some (replicate 16 0xAF) \<and>
   from_hex (concat (replicate 16 ''Af'')) = Some (replicate 16 0xAF)"
proof -
  have s: "from_hex (concat (replicate 16 ''aF'')) = Some (replicate 16 0xAF)" by code_simp
  have "map hex_lower (as_bytes (concat (replicate 16 ''Af'')))
      = map hex_lower (as_bytes (concat (replicate 16 ''aF'')))" by code_simp
  with blob_hash_equality [OF s, of "concat (replicate 16 ''Af'')"] s show ?thesis by simp
qed

end
