(* ===== verification/Gc.thy ===== *)
theory Gc
  imports Manifest Gc_Lock Blob_Hash
begin

text \<open>
  \<open>src/gc.rs\<close>: garbage collection of blobs, removal of a snapshot, pruning of old snapshots.
  The listing of the shards and the deletion of batches interleave as with one shard at a time, in
  the order \<open>shard\_order\<close>; sets that the code iterates in hash order are iterated in the order of
  first appearance. \<open>instance\_id\<close> is the UUID the run draws.
\<close>

record gc_params =
  gp_codec :: manifest_codec
  gp_lock :: lock_codec
  gp_instance_id :: string
  gp_shard_order :: "nat list"
  gp_download_order :: "string list \<Rightarrow> string list"

definition bail_if_lock_lost :: "'s env \<Rightarrow> ('s, unit) io" where
  "bail_if_lock_lost env =
     io_bind (is_lock_lost env) (\<lambda>b. if b then io_fail LockLost else io_return ())"

text \<open>
  The outcome of the guarded work is returned after the lock is released; the release is skipped
  when the lock was lost, and its error is only a warning.
\<close>

definition io_result :: "'a outcome \<Rightarrow> ('s, 'a) io" where
  "io_result r w = (r, w)"

definition with_gc_lock ::
  "'s env \<Rightarrow> gc_params \<Rightarrow> storage \<Rightarrow> ('s, unit) io \<Rightarrow> ('s, unit) io"
where
  "with_gc_lock env gp st f =
     io_bind (acquire_with_retry env (gp_lock gp) st (gp_instance_id gp) 10) (\<lambda>r.
       case r of
         None \<Rightarrow> io_fail LockUnavailable
       | Some etag \<Rightarrow>
           (\<lambda>w. case select_guarded LockLost f w of
              (outcome, w') \<Rightarrow>
                if outcome = Panic \<or> outcome = Diverge then (outcome, w')
                else
                  io_bind (is_lock_lost env) (\<lambda>lost.
                    io_bind (if lost then io_return ()
                             else io_match (release env (gp_lock gp) st (gp_instance_id gp))
                                    io_return (\<lambda>_. io_return ())) (\<lambda>_.
                    io_result outcome)) w'))"

section \<open>What manifests refer to\<close>

definition union_hashes :: "manifest list \<Rightarrow> string set" where
  "union_hashes ms = (\<Union>m \<in> set ms. set (map mp_blob_hash (m_parts m)))"

definition referenced_blob_hashes ::
  "'s env \<Rightarrow> gc_params \<Rightarrow> storage \<Rightarrow> ('s, string set \<times> nat) io"
where
  "referenced_blob_hashes env gp st =
     io_bind (read_all_manifests env (gp_codec gp) st (gp_download_order gp)) (\<lambda>manifests.
       io_return (union_hashes manifests, length manifests))"

text \<open>All downloads are awaited before the first error is reported.\<close>

fun read_each ::
  "'s env \<Rightarrow> manifest_codec \<Rightarrow> storage \<Rightarrow> string list \<Rightarrow> ('s, manifest result list) io"
where
  "read_each env cd st [] = io_return []"
| "read_each env cd st (n # ns) =
     io_match (read_manifest env cd st n)
       (\<lambda>m. io_bind (read_each env cd st ns) (\<lambda>ms. io_return (Inr m # ms)))
       (\<lambda>e. io_bind (read_each env cd st ns) (\<lambda>ms. io_return (Inl e # ms)))"

definition union_hashes_for_names ::
  "'s env \<Rightarrow> gc_params \<Rightarrow> storage \<Rightarrow> string list \<Rightarrow> ('s, string set) io"
where
  "union_hashes_for_names env gp st names =
     io_bind (read_each env (gp_codec gp) st (gp_download_order gp names)) (\<lambda>manifests.
     io_bind (io_lift (map_r (\<lambda>r. r) manifests)) (\<lambda>ms.
     io_return (union_hashes ms)))"

definition exclusive_hashes :: "manifest list \<Rightarrow> string set \<Rightarrow> string list" where
  "exclusive_hashes targets others =
     filter (\<lambda>h. h \<notin> others) (remdups (map mp_blob_hash (concat (map m_parts targets))))"

section \<open>Deleting\<close>

record scan_progress =
  sp_scanned :: u64
  sp_orphans_found :: u64
  sp_orphans_deleted :: u64
  sp_bytes_found :: u64
  sp_bytes_deleted :: u64

definition new_scan_progress :: scan_progress where
  "new_scan_progress = \<lparr>sp_scanned = 0, sp_orphans_found = 0, sp_orphans_deleted = 0,
     sp_bytes_found = 0, sp_bytes_deleted = 0\<rparr>"

definition record_orphan :: "u64 \<Rightarrow> scan_progress \<Rightarrow> scan_progress" where
  "record_orphan sz p =
     p\<lparr>sp_orphans_found := sp_orphans_found p + 1, sp_bytes_found := sp_bytes_found p + sz\<rparr>"

definition record_deleted :: "u64 \<Rightarrow> u64 \<Rightarrow> scan_progress \<Rightarrow> scan_progress" where
  "record_deleted count bs p =
     p\<lparr>sp_orphans_deleted := sp_orphans_deleted p + count,
       sp_bytes_deleted := sp_bytes_deleted p + bs\<rparr>"

definition delete_exclusive_blobs :: "'s env \<Rightarrow> storage \<Rightarrow> string list \<Rightarrow> ('s, unit) io" where
  "delete_exclusive_blobs env st exclusive =
     io_bind (delete_objects_bulk env st (map blob_remote_key exclusive)) (\<lambda>stats. io_return ())"

definition delete_or_report_batch ::
  "'s env \<Rightarrow> storage \<Rightarrow> bool \<Rightarrow> (string \<times> u64) list \<Rightarrow> scan_progress \<Rightarrow> ('s, scan_progress) io"
where
  "delete_or_report_batch env st dry_run batch p =
     (let batch_bytes = sum_list (map snd batch);
          batch_count = word_of_nat (length batch)
      in
      if dry_run then io_return (record_deleted batch_count batch_bytes p)
      else
        io_bind (delete_objects_bulk env st (map (\<lambda>(h, _). blob_remote_key h) batch)) (\<lambda>stats.
          io_return (record_deleted (ds_success stats) batch_bytes p)))"

definition parse_unreferenced_blob :: "string \<Rightarrow> bytes set \<Rightarrow> string option" where
  "parse_unreferenced_blob key referenced =
     (case split_on CHR ''/'' key of
        b # d # bl # shard # hash_str # rest \<Rightarrow>
          if b = ''base'' \<and> d = ''data'' \<and> bl = ''blobs'' then
            if length shard \<noteq> 2 \<or> length hash_str \<noteq> 32 \<or> take 2 hash_str \<noteq> shard then None
            else
              (case from_hex hash_str of
                 None \<Rightarrow> None
               | Some h \<Rightarrow> if h \<in> referenced then None else Some hash_str)
          else None
      | _ \<Rightarrow> None)"

section \<open>The scan\<close>

record scan_state =
  ss_batch :: "(string \<times> u64) list"
  ss_progress :: scan_progress
  ss_scanned_count :: u64
  ss_skipped_young :: u64

definition flush_batch ::
  "'s env \<Rightarrow> storage \<Rightarrow> bool \<Rightarrow> scan_state \<Rightarrow> ('s, scan_state) io"
where
  "flush_batch env st dry_run ss =
     io_bind (bail_if_lock_lost env) (\<lambda>_.
     io_bind (delete_or_report_batch env st dry_run (ss_batch ss) (ss_progress ss)) (\<lambda>p.
     io_return (ss\<lparr>ss_batch := [], ss_progress := p\<rparr>)))"

definition scan_item ::
  "'s env \<Rightarrow> storage \<Rightarrow> bytes set \<Rightarrow> bool \<Rightarrow> int \<Rightarrow> scan_state \<Rightarrow> listed \<Rightarrow> ('s, scan_state) io"
where
  "scan_item env st referenced dry_run cutoff ss item =
     (let (key, sz, last_modified) = item;
          ss = ss\<lparr>ss_scanned_count := ss_scanned_count ss + 1\<rparr>
      in
      if cutoff < last_modified then io_return (ss\<lparr>ss_skipped_young := ss_skipped_young ss + 1\<rparr>)
      else
        (case parse_unreferenced_blob key referenced of
           None \<Rightarrow> io_return ss
         | Some hash \<Rightarrow>
             let p = record_orphan sz ((ss_progress ss)\<lparr>sp_scanned := ss_scanned_count ss\<rparr>);
                 ss = ss\<lparr>ss_progress := p, ss_batch := ss_batch ss @ [(hash, sz)]\<rparr>
             in
             if 1000 \<le> length (ss_batch ss) then flush_batch env st dry_run ss
             else io_return ss))"

fun scan_items ::
  "'s env \<Rightarrow> storage \<Rightarrow> bytes set \<Rightarrow> bool \<Rightarrow> int \<Rightarrow> scan_state \<Rightarrow> listed list \<Rightarrow> ('s, scan_state) io"
where
  "scan_items env st referenced dry_run cutoff ss [] = io_return ss"
| "scan_items env st referenced dry_run cutoff ss (i # is) =
     io_bind (scan_item env st referenced dry_run cutoff ss i) (\<lambda>ss'.
       scan_items env st referenced dry_run cutoff ss' is)"

text \<open>An error of the listing is one item of the stream: counted as scanned, and skipped.\<close>

fun scan_shards ::
  "'s env \<Rightarrow> storage \<Rightarrow> bytes set \<Rightarrow> bool \<Rightarrow> int \<Rightarrow> scan_state \<Rightarrow> nat list \<Rightarrow> ('s, scan_state) io"
where
  "scan_shards env st referenced dry_run cutoff ss [] = io_return ss"
| "scan_shards env st referenced dry_run cutoff ss (shard # rest) =
     io_match (list_objects env st (''base/data/blobs/'' @ hex2 shard @ ''/''))
       (\<lambda>items. io_bind (scan_items env st referenced dry_run cutoff ss items) (\<lambda>ss'.
          scan_shards env st referenced dry_run cutoff ss' rest))
       (\<lambda>e. scan_shards env st referenced dry_run cutoff
              (ss\<lparr>ss_scanned_count := ss_scanned_count ss + 1\<rparr>) rest)"

text \<open>
  \<open>Utc::now() - Duration::hours(grace as i64)\<close>: the cast may make the number negative; a duration
  beyond the milliseconds of an \<open>i64\<close>, or a date out of range, panics.
\<close>

definition grace_cutoff :: "manifest_codec \<Rightarrow> int \<Rightarrow> u64 \<Rightarrow> int option" where
  "grace_cutoff cd now_ns grace_period_hours =
     (let hours = sint grace_period_hours;
          cutoff = now_ns - hours * 3600 * 1000000000
      in if 9223372036854775807 div 3600000 < \<bar>hours\<bar> \<or> \<not> date_in_range cd cutoff then None
         else Some cutoff)"

definition remote_scan_and_delete ::
  "'s env \<Rightarrow> gc_params \<Rightarrow> storage \<Rightarrow> bytes set \<Rightarrow> bool \<Rightarrow> u64 \<Rightarrow> ('s, unit) io"
where
  "remote_scan_and_delete env gp st referenced dry_run grace_period_hours =
     io_bind (clock env) (\<lambda>now.
     case grace_cutoff (gp_codec gp) now grace_period_hours of
       None \<Rightarrow> io_panic
     | Some cutoff \<Rightarrow>
         io_bind (scan_shards env st referenced dry_run cutoff
             \<lparr>ss_batch = [], ss_progress = new_scan_progress, ss_scanned_count = 0,
              ss_skipped_young = 0\<rparr> (gp_shard_order gp)) (\<lambda>ss.
         io_bind (if ss_batch ss = [] then io_return ss else flush_batch env st dry_run ss) (\<lambda>ss'.
         io_return ())))"

section \<open>The three commands\<close>

definition gc_all_blobs ::
  "'s env \<Rightarrow> gc_params \<Rightarrow> storage \<Rightarrow> bool \<Rightarrow> u64 \<Rightarrow> ('s, unit) io"
where
  "gc_all_blobs env gp st dry_run grace_period_hours =
     with_gc_lock env gp st
       (io_bind (referenced_blob_hashes env gp st) (\<lambda>(referenced, manifest_count).
        let referenced_hashes = Option.these (from_hex ` referenced) in
        remote_scan_and_delete env gp st referenced_hashes dry_run grace_period_hours))"

definition gc_snapshot ::
  "'s env \<Rightarrow> gc_params \<Rightarrow> storage \<Rightarrow> string \<Rightarrow> bool \<Rightarrow> ('s, unit) io"
where
  "gc_snapshot env gp st snapshot_name dry_run =
     with_gc_lock env gp st
       (io_bind (read_manifest env (gp_codec gp) st snapshot_name) (\<lambda>target.
        io_bind (list_manifest_names env st) (\<lambda>all_names.
        let other_names = filter (\<lambda>n. n \<noteq> snapshot_name) all_names in
        io_bind (union_hashes_for_names env gp st other_names) (\<lambda>other_hashes.
        let exclusive = exclusive_hashes [target] other_hashes in
        if dry_run then io_return ()
        else
          io_bind (bail_if_lock_lost env) (\<lambda>_.
          io_bind (delete_manifest env st snapshot_name) (\<lambda>_.
          if exclusive = [] then io_return ()
          else
            io_bind (bail_if_lock_lost env) (\<lambda>_.
              delete_exclusive_blobs env st exclusive)))))))"

definition i64_minutes :: "u64 \<Rightarrow> i64" where
  "i64_minutes m = m * 60"

text \<open>The day of a time stamp, with the fallbacks of the code; grouped in order of appearance.\<close>

definition day_of :: "manifest_codec \<Rightarrow> i64 \<Rightarrow> i64 \<Rightarrow> string" where
  "day_of cd current_timestamp ts =
     (case utc_day cd ts of
        Some d \<Rightarrow> d
      | None \<Rightarrow> (case utc_day cd current_timestamp of Some d \<Rightarrow> d | None \<Rightarrow> ''1970-01-01''))"

fun add_to_day ::
  "string \<Rightarrow> string \<times> i64 \<Rightarrow> (string \<times> (string \<times> i64) list) list \<Rightarrow> (string \<times> (string \<times> i64) list) list"
where
  "add_to_day d x [] = [(d, [x])]"
| "add_to_day d x ((d', xs) # m) =
     (if d' = d then (d', xs @ [x]) # m else (d', xs) # add_to_day d x m)"

definition compute_prune_set ::
  "manifest_codec \<Rightarrow> (string \<times> i64) list \<Rightarrow> u64 \<Rightarrow> u64 option \<Rightarrow> i64 \<Rightarrow> string list"
where
  "compute_prune_set cd live_by_name retain_all_minutes retain_daily_minutes current_timestamp =
     (let all_cutoff = current_timestamp - i64_minutes retain_all_minutes in
      case retain_daily_minutes of
        None \<Rightarrow> map fst (filter (\<lambda>(name, ts). sint ts < sint all_cutoff) live_by_name)
      | Some daily_minutes \<Rightarrow>
          let daily_cutoff = current_timestamp - i64_minutes daily_minutes;
              old = filter (\<lambda>(name, ts). sint ts < sint all_cutoff) live_by_name;
              to_prune = map fst (filter (\<lambda>(name, ts). sint ts < sint daily_cutoff) old);
              daily = fold (\<lambda>(name, ts) m. add_to_day (day_of cd current_timestamp ts) (name, ts) m)
                        (filter (\<lambda>(name, ts). \<not> sint ts < sint daily_cutoff) old) []
          in to_prune @
             concat (map (\<lambda>(d, snapshots). map fst (drop 1 (sort_key (\<lambda>(_, ts). - sint ts) snapshots)))
               daily))"

definition is_live :: "manifest \<Rightarrow> bool" where
  "is_live m \<longleftrightarrow> starts_with ''live_'' (m_name m)"

text \<open>The deletion of the manifests to prune: a failure is a warning, the loss of the lock ends it.\<close>

fun delete_manifests :: "'s env \<Rightarrow> storage \<Rightarrow> string list \<Rightarrow> ('s, unit) io" where
  "delete_manifests env st [] = io_return ()"
| "delete_manifests env st (n # ns) =
     io_bind (bail_if_lock_lost env) (\<lambda>_.
     io_match (delete_manifest env st n)
       (\<lambda>_. delete_manifests env st ns)
       (\<lambda>_. delete_manifests env st ns))"

definition prune_old_live_snapshots ::
  "'s env \<Rightarrow> gc_params \<Rightarrow> storage \<Rightarrow> u64 \<Rightarrow> u64 option \<Rightarrow> i64 \<Rightarrow> bool \<Rightarrow> ('s, unit) io"
where
  "prune_old_live_snapshots env gp st retain_all_minutes retain_daily_minutes current_timestamp dry_run =
     with_gc_lock env gp st
       (io_bind (read_all_manifests env (gp_codec gp) st (gp_download_order gp)) (\<lambda>all_manifests.
        let live_by_name = sort_key (\<lambda>(_, ts). sint ts)
              (map (\<lambda>m. (m_name m, m_timestamp m)) (filter is_live all_manifests));
            to_prune = compute_prune_set (gp_codec gp) live_by_name retain_all_minutes
              retain_daily_minutes current_timestamp
        in
        if to_prune = [] then io_return ()
        else
          let targets = filter (\<lambda>m. m_name m \<in> set to_prune) all_manifests;
              others = filter (\<lambda>m. m_name m \<notin> set to_prune) all_manifests;
              exclusive = exclusive_hashes targets (union_hashes others)
          in
          if dry_run then io_return ()
          else
            io_bind (delete_manifests env st to_prune) (\<lambda>_.
            if exclusive = [] then io_return ()
            else
              io_bind (bail_if_lock_lost env) (\<lambda>_.
                delete_exclusive_blobs env st exclusive))))"

end
