(* ===== verification/Gc_Requests.thy ===== *)
theory Gc_Requests
  imports Gc Storage_Props
begin

text \<open>
  What the garbage collector asks of the bucket, whatever the bucket answers: the requests of the
  scan, of the removal of a snapshot and of the pruning, and the batches on the way.
\<close>

section \<open>The scan\<close>

text \<open>What the scan may delete for a listed item: its blob, when it is old and not referenced.\<close>

definition doomed :: "storage \<Rightarrow> string set \<Rightarrow> bytes set \<Rightarrow> int \<Rightarrow> listed \<Rightarrow> bool" where
  "doomed st D referenced cutoff item \<longleftrightarrow>
     (case item of (key, sz, t) \<Rightarrow> t \<le> cutoff \<longrightarrow>
        (\<forall>h. parse_unreferenced_blob key referenced = Some h \<longrightarrow>
           prefixed_key st (blob_remote_key h) \<in> D))"

definition batch_in :: "storage \<Rightarrow> string set \<Rightarrow> scan_state \<Rightarrow> bool" where
  "batch_in st D ss \<longleftrightarrow> (\<forall>(h, sz) \<in> set (ss_batch ss). prefixed_key st (blob_remote_key h) \<in> D)"

lemma requests_bail: "requests Q (bail_if_lock_lost env)"
  unfolding bail_if_lock_lost_def by (intro requests_intros)

lemma requests_flush:
  assumes "batch_in st D ss" and "\<And>q. \<not> dry \<Longrightarrow> deletes_only D q \<Longrightarrow> Q q"
  shows "requests Q (flush_batch env st dry ss)"
proof -
  have "requests Q (delete_or_report_batch env st dry (ss_batch ss) p)" for p
  proof (cases dry)
    case False
    have "prefixed_key st ` set (map (\<lambda>(h, _). blob_remote_key h) (ss_batch ss)) \<subseteq> D"
      using assms(1) by (auto simp: batch_in_def)
    then have "requests Q (delete_objects_bulk env st (map (\<lambda>(h, _). blob_remote_key h) (ss_batch ss)))"
      by (rule requests_mono [OF requests_bulk_delete]) (rule assms(2) [OF False])
    with False show ?thesis
      unfolding delete_or_report_batch_def Let_def by (simp add: requests_bind requests_return)
  qed (simp add: delete_or_report_batch_def requests_return)
  then show ?thesis
    unfolding flush_batch_def by (intro requests_bind requests_bail requests_return)
qed

lemma requests_scan_item:
  assumes "doomed st D referenced cutoff item" and "batch_in st D ss"
    and "\<And>q. \<not> dry \<Longrightarrow> deletes_only D q \<Longrightarrow> Q q"
  shows "requests Q (scan_item env st referenced dry cutoff ss item)"
  using assms unfolding scan_item_def Let_def
  by (cases item) (auto simp: doomed_def batch_in_def intro!: requests_return requests_flush
      split: option.split)

lemma scan_item_batch:
  assumes "doomed st D referenced cutoff item" and "batch_in st D ss"
    and "scan_item env st referenced dry cutoff ss item w = (Ok ss', w')"
  shows "batch_in st D ss'"
  using assms unfolding scan_item_def Let_def
  by (cases item) (auto simp: doomed_def batch_in_def flush_batch_def io_return_def
      elim!: io_bind_OkE split: option.splits if_splits)

lemma scan_items_facts:
  assumes "list_all (doomed st D referenced cutoff) items" and "batch_in st D ss"
    and "\<And>q. \<not> dry \<Longrightarrow> deletes_only D q \<Longrightarrow> Q q"
  shows "requests Q (scan_items env st referenced dry cutoff ss items) \<and>
    (\<forall>w ss' w'. scan_items env st referenced dry cutoff ss items w = (Ok ss', w') \<longrightarrow> batch_in st D ss')"
  using assms(1,2)
proof (induction items arbitrary: ss)
  case Nil
  then show ?case by (simp add: requests_return) (simp add: io_return_def)
next
  case (Cons i its)
  then have i: "doomed st D referenced cutoff i" by simp
  have its: "list_all (doomed st D referenced cutoff) its" using Cons.prems(1) by simp
  note ih = Cons.IH [OF its]
  show ?case
  proof (intro conjI allI impI)
    show "requests Q (scan_items env st referenced dry cutoff ss (i # its))"
      unfolding scan_items.simps
    proof (rule requests_bind_post)
      show "requests Q (scan_item env st referenced dry cutoff ss i)"
        by (rule requests_scan_item [OF i Cons.prems(2)]) (rule assms(3))
    qed (use ih scan_item_batch [OF i Cons.prems(2)] in blast)
    fix w ss' w' assume "scan_items env st referenced dry cutoff ss (i # its) w = (Ok ss', w')"
    then obtain s1 u where "scan_item env st referenced dry cutoff ss i w = (Ok s1, u)"
      "scan_items env st referenced dry cutoff s1 its u = (Ok ss', w')"
      unfolding scan_items.simps by (rule io_bind_OkE)
    with ih scan_item_batch [OF i Cons.prems(2)] show "batch_in st D ss'" by blast
  qed
qed

text \<open>\<open>lists p\<close>: what a listing of \<open>p\<close> can contain.\<close>

definition listed_doomed :: "'s env \<Rightarrow> storage \<Rightarrow> string set \<Rightarrow> bytes set \<Rightarrow> int \<Rightarrow> bool" where
  "listed_doomed env st D referenced cutoff \<longleftrightarrow>
     (\<forall>p w items w'. list_objects env st p w = (Ok items, w') \<longrightarrow>
        list_all (doomed st D referenced cutoff) items)"

lemma requests_list_pages:
  "(\<And>p t. Q (ReqList p t)) \<Longrightarrow> requests Q (list_pages env st p n t acc)"
proof (induction n arbitrary: t acc)
  case (Suc n)
  then show ?case
    unfolding list_pages.simps send_def Let_def
    by (auto intro!: requests_bind requests_await requests_return requests_fail requests_clock
        split: sum.split option.split)
qed (simp add: requests_diverge)

lemma requests_list_objects: "(\<And>p t. Q (ReqList p t)) \<Longrightarrow> requests Q (list_objects env st p)"
  unfolding list_objects_def by (rule requests_list_pages)

lemma requests_match_post:
  assumes "requests Q m" and "\<And>w x u. m w = (Ok x, u) \<Longrightarrow> requests Q (f x)"
    and "\<And>e. requests Q (g e)"
  shows "requests Q (io_match m f g)"
proof (rule requestsI)
  fix w r w' assume r: "io_match m f g w = (r, w')"
  obtain a u where m: "m w = (a, u)" by fastforce
  obtain qs where qs: "trace u = trace w @ qs" "list_all Q qs" by (rule requestsD [OF assms(1) m])
  show "\<exists>qs. trace w' = trace w @ qs \<and> list_all Q qs"
  proof (cases a)
    case (Ok x)
    with r m have "f x u = (r, w')" by (simp add: io_match_def)
    from requestsD [OF assms(2) [OF m [unfolded Ok]] this] qs show ?thesis
      by (metis append.assoc list_all_append)
  next
    case (Err e)
    with r m have "g e u = (r, w')" by (simp add: io_match_def)
    from requestsD [OF assms(3) this] qs show ?thesis by (metis append.assoc list_all_append)
  qed (use r m qs in \<open>auto simp: io_match_def\<close>)
qed

lemma scan_shards_facts:
  assumes "listed_doomed env st D referenced cutoff" and "batch_in st D ss"
    and "\<And>q. \<not> dry \<Longrightarrow> deletes_only D q \<Longrightarrow> Q q" and "\<And>p t. Q (ReqList p t)"
  shows "requests Q (scan_shards env st referenced dry cutoff ss shards) \<and>
    (\<forall>w ss' w'. scan_shards env st referenced dry cutoff ss shards w = (Ok ss', w') \<longrightarrow> batch_in st D ss')"
  using assms(2)
proof (induction shards arbitrary: ss)
  case Nil
  then show ?case by (simp add: requests_return) (simp add: io_return_def)
next
  case (Cons n ns)
  let ?l = "list_objects env st (''base/data/blobs/'' @ hex2 n @ ''/'')"
  have items: "requests Q (scan_items env st referenced dry cutoff ss items) \<and>
      (\<forall>w ss' w'. scan_items env st referenced dry cutoff ss items w = (Ok ss', w') \<longrightarrow> batch_in st D ss')"
    if "?l w = (Ok items, u)" for w items u
    using assms(1) that by (intro scan_items_facts Cons.prems assms(3)) (auto simp: listed_doomed_def)
  have err: "batch_in st D (ss\<lparr>ss_scanned_count := ss_scanned_count ss + 1\<rparr>)"
    using Cons.prems by (simp add: batch_in_def)
  show ?case
  proof (intro conjI allI impI)
    show "requests Q (scan_shards env st referenced dry cutoff ss (n # ns))"
      unfolding scan_shards.simps
    proof (rule requests_match_post)
      show "requests Q ?l" by (rule requests_list_objects) (rule assms(4))
      show "requests Q (io_bind (scan_items env st referenced dry cutoff ss items) (\<lambda>ss'.
          scan_shards env st referenced dry cutoff ss' ns))" if "?l w = (Ok items, u)" for w items u
        by (rule requests_bind_post) (use items [OF that] Cons.IH in blast)+
    qed (use Cons.IH [OF err] in blast)
    fix w ss' w' assume r: "scan_shards env st referenced dry cutoff ss (n # ns) w = (Ok ss', w')"
    obtain a u where a: "?l w = (a, u)" by fastforce
    show "batch_in st D ss'"
    proof (cases a)
      case (Ok its)
      with r a obtain s1 v where "scan_items env st referenced dry cutoff ss its u = (Ok s1, v)"
        "scan_shards env st referenced dry cutoff s1 ns v = (Ok ss', w')"
        by (auto simp: io_match_def elim!: io_bind_OkE)
      with items [OF a [unfolded Ok]] Cons.IH show ?thesis by blast
    next
      case (Err e)
      with r a have "scan_shards env st referenced dry cutoff
          (ss\<lparr>ss_scanned_count := ss_scanned_count ss + 1\<rparr>) ns u = (Ok ss', w')"
        by (simp add: io_match_def)
      with Cons.IH [OF err] show ?thesis by blast
    qed (use r a in \<open>auto simp: io_match_def\<close>)
  qed
qed

lemma requests_scan:
  assumes "\<And>cutoff. grace_cutoff (gp_codec gp) (clock_ns env (svc w)) grace = Some cutoff \<Longrightarrow>
      listed_doomed env st D referenced cutoff"
    and "\<And>q. \<not> dry \<Longrightarrow> deletes_only D q \<Longrightarrow> Q q" and "\<And>p t. Q (ReqList p t)"
    and "remote_scan_and_delete env gp st referenced dry grace w = (r, w')"
  shows "\<exists>qs. trace w' = trace w @ qs \<and> list_all Q qs"
proof (cases "grace_cutoff (gp_codec gp) (clock_ns env (svc w)) grace")
  case None
  with assms(4) show ?thesis
    by (auto simp: remote_scan_and_delete_def clock_def io_bind_def io_panic_def)
next
  case (Some cutoff)
  let ?s0 = "\<lparr>ss_batch = [], ss_progress = new_scan_progress, ss_scanned_count = 0,
      ss_skipped_young = 0\<rparr>"
  let ?scan = "io_bind (scan_shards env st referenced dry cutoff ?s0 (gp_shard_order gp)) (\<lambda>ss.
      io_bind (if ss_batch ss = [] then io_return ss else flush_batch env st dry ss)
        (\<lambda>ss'. io_return ()))"
  have "batch_in st D ?s0" by (simp add: batch_in_def)
  note shards = scan_shards_facts [where Q = Q and dry = dry, OF assms(1) [OF Some] this assms(2,3)]
  have "requests Q ?scan"
  proof (rule requests_bind_post)
    fix w ss u assume "scan_shards env st referenced dry cutoff ?s0 (gp_shard_order gp) w = (Ok ss, u)"
    with shards have "batch_in st D ss" by blast
    then have "requests Q (flush_batch env st dry ss)" by (rule requests_flush) (rule assms(2))
    then show "requests Q (io_bind (if ss_batch ss = [] then io_return ss else flush_batch env st dry ss)
        (\<lambda>ss'. io_return ()))" by (intro requests_bind requests_if requests_return)
  qed (use shards in blast)
  moreover have "?scan w = (r, w')"
    using assms(4) Some by (simp add: remote_scan_and_delete_def clock_def io_bind_Ok)
  ultimately obtain qs where "trace w' = trace w @ qs" "list_all Q qs" by (rule requestsD)
  then show ?thesis by (intro exI conjI)
qed

section \<open>Commands under the lock\<close>

lemma requests_with_gc_lock:
  assumes "\<And>q. lock_request st q \<Longrightarrow> Q q" and "requests Q f"
  shows "requests Q (with_gc_lock env gp st f)"
proof -
  have acq: "requests Q (acquire_with_retry env lc st i 10)" for lc i
    by (rule requests_mono [OF requests_acquire_with_retry]) (rule assms(1))
  have rel: "requests Q (release env lc st i)" for lc i
    by (rule requests_mono [OF requests_release]) (rule assms(1))
  have result: "requests Q (io_result oc)" for oc :: "unit outcome"
    by (simp add: requests_def io_result_def)
  have after: "requests Q (\<lambda>w. case select_guarded LockLost f w of
      (outcome, w') \<Rightarrow>
        if outcome = Panic \<or> outcome = Diverge then (outcome, w')
        else io_bind (is_lock_lost env) (\<lambda>lost.
            io_bind (if lost then io_return ()
                     else io_match (release env (gp_lock gp) st (gp_instance_id gp))
                            io_return (\<lambda>_. io_return ())) (\<lambda>_. io_result outcome)) w')"
    (is "requests Q ?m")
  proof (rule requestsI)
    fix w r w' assume m: "?m w = (r, w')"
    obtain oc u where s: "select_guarded LockLost f w = (oc, u)" by fastforce
    obtain qs where qs: "trace u = trace w @ qs" "list_all Q qs"
      by (rule requestsD [OF requests_select [OF assms(2)] s])
    let ?rest = "io_bind (is_lock_lost env) (\<lambda>lost.
            io_bind (if lost then io_return ()
                     else io_match (release env (gp_lock gp) st (gp_instance_id gp))
                            io_return (\<lambda>_. io_return ())) (\<lambda>_. io_result oc))"
    show "\<exists>qs. trace w' = trace w @ qs \<and> list_all Q qs"
    proof (cases "oc = Panic \<or> oc = Diverge")
      case True
      with m s have "w' = u" by auto
      with qs show ?thesis by blast
    next
      case False
      with m s have r: "?rest u = (r, w')" by simp
      have "requests Q ?rest"
        by (intro requests_bind requests_lock_lost requests_if requests_return requests_match rel result)
      then obtain ps where "trace w' = trace u @ ps" "list_all Q ps" using r by (rule requestsD)
      with qs show ?thesis by (intro exI [of _ "qs @ ps"]) simp
    qed
  qed
  show ?thesis
    unfolding with_gc_lock_def
    by (rule requests_bind [OF acq]) (auto intro: after requests_fail split: option.split)
qed

section \<open>The commands\<close>

lemma requests_read_manifest:
  "Q (ReqGet (prefixed_key st (manifest_key n))) \<Longrightarrow> requests Q (read_manifest env cd st n)"
  unfolding read_manifest_def by (intro requests_bind requests_storage_ops requests_lift requests_return)

lemma requests_list_names: "(\<And>p t. Q (ReqList p t)) \<Longrightarrow> requests Q (list_manifest_names env st)"
  unfolding list_manifest_names_def by (intro requests_bind requests_list_objects requests_return)

lemma requests_read_all:
  "(\<And>p t. Q (ReqList p t)) \<Longrightarrow> (\<And>k. Q (ReqGet k)) \<Longrightarrow>
     requests Q (read_all_manifests env cd st ord)"
  unfolding read_all_manifests_def
  by (intro requests_bind requests_list_names requests_map requests_read_manifest)

lemma requests_read_each: "(\<And>k. Q (ReqGet k)) \<Longrightarrow> requests Q (read_each env cd st ns)"
  by (induction ns) (auto intro!: requests_match requests_bind requests_read_manifest requests_return)

lemma requests_union_for_names:
  "(\<And>k. Q (ReqGet k)) \<Longrightarrow> requests Q (union_hashes_for_names env gp st ns)"
  unfolding union_hashes_for_names_def
  by (intro requests_bind requests_read_each requests_lift requests_return)

lemma requests_delete_manifests:
  "(\<And>n. n \<in> set ns \<Longrightarrow> Q (ReqDelete (prefixed_key st (manifest_key n)))) \<Longrightarrow>
     requests Q (delete_manifests env st ns)"
  unfolding delete_manifest_def
  by (induction ns)
     (auto intro!: requests_bind requests_bail requests_match requests_storage_ops requests_return
       simp: delete_manifest_def)

lemma requests_delete_exclusive:
  assumes "\<And>h. h \<in> set hs \<Longrightarrow> prefixed_key st (blob_remote_key h) \<in> D"
    and "\<And>q. deletes_only D q \<Longrightarrow> Q q"
  shows "requests Q (delete_exclusive_blobs env st hs)"
proof -
  have "prefixed_key st ` set (map blob_remote_key hs) \<subseteq> D" using assms(1) by auto
  then have "requests Q (delete_objects_bulk env st (map blob_remote_key hs))"
    by (rule requests_mono [OF requests_bulk_delete]) (rule assms(2))
  then show ?thesis unfolding delete_exclusive_blobs_def by (intro requests_bind requests_return)
qed

end
