(* ===== verification/Bucket.thy ===== *)
theory Bucket
  imports Gc Storage_Props
begin

text \<open>
  What S3 documents of a bucket that only this process changes, as a locale over the client's
  calls: \<open>objs\<close> is the contents of the bucket, \<open>remaining\<close> the keys a listing has still to
  deliver. A failed call may or may not have taken effect. The lemmas carry the laws from the
  client through \<open>Storage\<close>, \<open>Manifest\<close> and \<open>Gc\<close>; a bucket in memory satisfies them.
\<close>

section \<open>The laws\<close>

locale s3_bucket =
  fixes env :: "'s env"
    and objs :: "'s \<Rightarrow> string \<Rightarrow> bytes option"
    and remaining :: "'s \<Rightarrow> string \<Rightarrow> string option \<Rightarrow> string set"
  assumes head_reads: "objs (snd (s3_head env k s)) = objs s"
    and get_reads: "objs (snd (s3_get env k s)) = objs s"
    and get_value: "s3_get env k s = (Inr (Some b), s') \<Longrightarrow> objs s k = Some b"
    and put_frame: "k' \<noteq> k \<Longrightarrow> objs (snd (s3_put env k d im inm s)) k' = objs s k'"
    and put_done: "s3_put env k d im inm s = (Inr e, s') \<Longrightarrow> objs s' k = Some d"
    and put_if_none: "objs s k = Some b \<Longrightarrow> objs (snd (s3_put env k d im True s)) k = Some b"
    and put_if_none_done: "s3_put env k d im True s = (Inr e, s') \<Longrightarrow> objs s k = None"
    and delete_frame: "k' \<noteq> k \<Longrightarrow> objs (snd (s3_delete env k s)) k' = objs s k'"
    and delete_done: "s3_delete env k s = (Inr (), s') \<Longrightarrow> objs s' k = None"
    and delete_cases: "objs (snd (s3_delete env k s)) k \<in> {objs s k, None}"
    and delete_many_frame:
      "k' \<notin> set ks \<Longrightarrow> objs (snd (s3_delete_objects env ks s)) k' = objs s k'"
    and list_reads: "objs (snd (s3_list env p t s)) = objs s"
    and list_start: "objs s k \<noteq> None \<Longrightarrow> starts_with p k \<Longrightarrow> k \<in> remaining s p None"
    and list_page: "s3_list env p t s = (Inr page, s') \<Longrightarrow>
      remaining s p t \<subseteq> {k. \<exists>e \<in> set (lp_contents page). le_key e = Some k} \<union>
        (case lp_next page of None \<Rightarrow> {} | Some t' \<Rightarrow> remaining s' p (Some t'))"
    and sleep_frame: "objs (do_sleep env ms s) = objs s"
begin

end

text \<open>
  The laws of the calls that store: a head request finds what is there, a put without effect leaves
  the object, the parts of an upload are no object until it completes.
\<close>

locale upload_bucket = s3_bucket +
  assumes head_found: "s3_head env k s = (Inr len, s') \<Longrightarrow> objs s k \<noteq> None"
    and put_cases: "objs (snd (s3_put env k d im inm s)) k \<in> {objs s k, Some d}"
    and create_reads: "objs (snd (s3_create_multipart env k s)) = objs s"
    and upload_reads: "objs (snd (s3_upload_part env k i n d c s)) = objs s"
    and abort_reads: "objs (snd (s3_abort env k i s)) = objs s"
    and complete_frame: "k' \<noteq> k \<Longrightarrow> objs (snd (s3_complete env k i ps s)) k' = objs s k'"
    and complete_done: "s3_complete env k i ps s = (Inr (), s') \<Longrightarrow> objs s' k \<noteq> None"
    and complete_keeps: "objs s k \<noteq> None \<Longrightarrow> objs (snd (s3_complete env k i ps s)) k \<noteq> None"
begin

end

section \<open>Effects are logged\<close>

text \<open>The keys a request may change.\<close>

fun writes :: "request \<Rightarrow> string set" where
  "writes (ReqPut k d m n) = {k}"
| "writes (ReqDelete k) = {k}"
| "writes (ReqDeleteMany ks) = set ks"
| "writes (ReqComplete k i ps) = {k}"
| "writes _ = {}"

text \<open>An operation changes only keys that its requests name.\<close>

definition logged :: "('s \<Rightarrow> string \<Rightarrow> bytes option) \<Rightarrow> ('s, 'a) io \<Rightarrow> bool" where
  "logged objs m \<longleftrightarrow>
     (\<forall>w. \<exists>qs. trace (snd (m w)) = trace w @ qs \<and>
        (\<forall>k. k \<notin> \<Union> (writes ` set qs) \<longrightarrow> objs (svc (snd (m w))) k = objs (svc w) k))"

named_theorems logged_intros \<open>operations whose effects are logged\<close>

lemma loggedD:
  assumes "logged objs m" and "m w = (r, w')"
  obtains qs where "trace w' = trace w @ qs"
    and "\<And>k. k \<notin> \<Union> (writes ` set qs) \<Longrightarrow> objs (svc w') k = objs (svc w) k"
  using assms unfolding logged_def by (metis snd_conv)

lemma loggedI:
  "(\<And>w r w'. m w = (r, w') \<Longrightarrow> \<exists>qs. trace w' = trace w @ qs \<and>
      (\<forall>k. k \<notin> \<Union> (writes ` set qs) \<longrightarrow> objs (svc w') k = objs (svc w) k)) \<Longrightarrow> logged objs m"
  unfolding logged_def by (metis prod.collapse)

text \<open>What an operation may not change, given what it may request.\<close>

lemma logged_frame:
  assumes "logged objs m" and "requests Q m" and "m w = (r, w')"
    and "\<And>q. Q q \<Longrightarrow> k \<notin> writes q"
  shows "objs (svc w') k = objs (svc w) k"
proof -
  obtain qs where qs: "trace w' = trace w @ qs"
    "\<And>k. k \<notin> \<Union> (writes ` set qs) \<Longrightarrow> objs (svc w') k = objs (svc w) k"
    by (rule loggedD [OF assms(1,3)]) blast
  obtain qs' where "trace w' = trace w @ qs'" "list_all Q qs'" by (rule requestsD [OF assms(2,3)])
  with qs(1) assms(4) have "k \<notin> \<Union> (writes ` set qs)" by (auto simp: list_all_iff)
  with qs(2) show ?thesis by blast
qed

lemma logged_same:
  assumes "\<And>w. svc (snd (m w)) = svc w" and "\<And>w. trace (snd (m w)) = trace w"
  shows "logged objs m"
  using assms by (simp add: logged_def)

lemma logged_pure [logged_intros]:
  "logged objs (io_return x)" "logged objs (io_fail e)" "logged objs io_panic"
  "logged objs io_diverge" "logged objs (io_lift r)" "logged objs (clock env)"
  "logged objs (with_progress f)" "logged objs (is_lock_lost env)" "logged objs (io_result oc)"
  by (auto intro!: logged_same simp: io_return_def io_fail_def io_panic_def io_diverge_def
      io_lift_def clock_def with_progress_def is_lock_lost_def io_result_def split: sum.split)

lemma logged_await [logged_intros]:
  assumes "\<And>s k. k \<notin> writes q \<Longrightarrow> objs (snd (call s)) k = objs s k"
  shows "logged objs (await env q call)"
proof (rule loggedI)
  fix w r w' assume a: "await env q call w = (r, w')"
  show "\<exists>qs. trace w' = trace w @ qs \<and>
      (\<forall>k. k \<notin> \<Union> (writes ` set qs) \<longrightarrow> objs (svc w') k = objs (svc w) k)"
  proof (cases "guarded w \<and> preempt env (svc w)")
    case True
    with a show ?thesis by (auto simp: await_def)
  next
    case False
    with a have "trace w' = trace w @ [q]" "svc w' = snd (call (svc w))"
      by (auto simp: await_def split: prod.splits)
    with assms show ?thesis by (intro exI [of _ "[q]"]) simp
  qed
qed

lemma logged_match [logged_intros]:
  assumes "logged objs m" and "\<And>x. logged objs (f x)" and "\<And>e. logged objs (g e)"
  shows "logged objs (io_match m f g)"
proof (rule loggedI)
  fix w r w' assume r: "io_match m f g w = (r, w')"
  let ?logged = "\<exists>qs. trace w' = trace w @ qs \<and>
      (\<forall>k. k \<notin> \<Union> (writes ` set qs) \<longrightarrow> objs (svc w') k = objs (svc w) k)"
  obtain a u where m: "m w = (a, u)" by fastforce
  obtain qs where qs: "trace u = trace w @ qs"
    "\<And>k. k \<notin> \<Union> (writes ` set qs) \<Longrightarrow> objs (svc u) k = objs (svc w) k"
    by (rule loggedD [OF assms(1) m]) blast
  have next_step: ?logged if L: "logged objs n" and N: "n u = (r, w')" for n
  proof -
    obtain ps where "trace w' = trace u @ ps"
      "\<And>k. k \<notin> \<Union> (writes ` set ps) \<Longrightarrow> objs (svc w') k = objs (svc u) k"
      by (rule loggedD [OF L N]) blast
    with qs show ?thesis by (intro exI [of _ "qs @ ps"]) simp
  qed
  show ?logged
  proof (cases a)
    case (Ok x)
    with r m next_step [OF assms(2)] show ?thesis by (simp add: io_match_def)
  next
    case (Err e)
    with r m next_step [OF assms(3)] show ?thesis by (simp add: io_match_def)
  qed (use r m qs in \<open>auto simp: io_match_def\<close>)
qed

lemma logged_bind [logged_intros]:
  "logged objs m \<Longrightarrow> (\<And>x. logged objs (f x)) \<Longrightarrow> logged objs (io_bind m f)"
  unfolding io_match_as_bind by (intro logged_match logged_pure)

lemma logged_if [logged_intros]: "logged objs f \<Longrightarrow> logged objs g \<Longrightarrow> logged objs (if b then f else g)"
  by simp

lemma logged_map [logged_intros]:
  "(\<And>x. x \<in> set xs \<Longrightarrow> logged objs (f x)) \<Longrightarrow> logged objs (io_map f xs)"
  by (induction xs) (auto intro!: logged_intros)

lemma logged_pointwise: "(\<And>w. logged objs (g w)) \<Longrightarrow> logged objs (\<lambda>w. g w w)"
  by (simp add: logged_def)

lemma logged_select [logged_intros]: "logged objs m \<Longrightarrow> logged objs (select_guarded e m)"
proof (rule loggedI)
  fix w r w' assume m: "logged objs m" and s: "select_guarded e m w = (r, w')"
  obtain x u where x: "m (w\<lparr>guarded := True\<rparr>) = (x, u)" by fastforce
  obtain qs where "trace u = trace (w\<lparr>guarded := True\<rparr>) @ qs"
    "\<And>k. k \<notin> \<Union> (writes ` set qs) \<Longrightarrow> objs (svc u) k = objs (svc (w\<lparr>guarded := True\<rparr>)) k"
    by (rule loggedD [OF m x]) blast
  with s x show "\<exists>qs. trace w' = trace w @ qs \<and>
      (\<forall>k. k \<notin> \<Union> (writes ` set qs) \<longrightarrow> objs (svc w') k = objs (svc w) k)"
    by (auto simp: select_guarded_def)
qed


text \<open>What is known of the keys of a set is kept by an operation that does not write them.\<close>

definition unchanged ::
  "('s \<Rightarrow> string \<Rightarrow> bytes option) \<Rightarrow> string set \<Rightarrow> (string \<Rightarrow> bytes option) \<Rightarrow> 's \<Rightarrow> bool"
where
  "unchanged objs K c s \<longleftrightarrow> (\<forall>k \<in> K. objs s k = c k)"

lemma keeps_frame:
  assumes "logged objs m" and "requests Q m"
    and "\<And>s s'. I s \<Longrightarrow> (\<And>k. (\<And>q. Q q \<Longrightarrow> k \<notin> writes q) \<Longrightarrow> objs s' k = objs s k) \<Longrightarrow> I s'"
  shows "keeps I m"
proof (rule keepsI)
  fix w r w' assume i: "I (svc w)" and m: "m w = (r, w')"
  show "I (svc w')" by (rule assms(3) [OF i]) (rule logged_frame [OF assms(1,2) m])
qed

lemma keeps_unchanged:
  assumes "logged objs m" and "requests Q m" and "\<And>q. Q q \<Longrightarrow> writes q \<inter> K = {}"
  shows "keeps (unchanged objs K c) m"
proof (rule keepsI)
  fix w r w' assume "unchanged objs K c (svc w)" and m: "m w = (r, w')"
  moreover have "objs (svc w') k = objs (svc w) k" if "k \<in> K" for k
    using logged_frame [OF assms(1,2) m] assms(3) that by blast
  ultimately show "unchanged objs K c (svc w')" by (simp add: unchanged_def)
qed

section \<open>The operations of the program on such a bucket\<close>

context s3_bucket
begin

lemma logged_sleep: "logged objs (sleep env ms)"
  unfolding sleep_def by (intro logged_await) (simp add: sleep_frame)

lemma logged_get_object: "logged objs (get_object env st k)"
  unfolding get_object_def send_def Let_def
  by (auto intro!: logged_bind logged_await logged_pure simp: get_reads split: sum.split option.split)

lemma logged_put_conditional: "logged objs (put_object_conditional env st k d im inm)"
  unfolding put_object_conditional_def Let_def
  by (auto intro!: logged_bind logged_await logged_pure simp: put_frame split: sum.split)

lemma logged_delete_object: "logged objs (delete_object env st k)"
  unfolding delete_object_def send_def Let_def
  by (auto intro!: logged_bind logged_await logged_pure simp: delete_frame split: sum.split)

lemma logged_list_pages: "logged objs (list_pages env st p n t acc)"
proof (induction n arbitrary: t acc)
  case (Suc n)
  then show ?case
    unfolding list_pages.simps send_def Let_def
    by (auto intro!: logged_bind logged_await logged_pure simp: list_reads split: sum.split option.split)
qed (simp add: logged_pure)

lemma logged_list_objects: "logged objs (list_objects env st p)"
  unfolding list_objects_def by (rule logged_list_pages)

lemma logged_with_retry:
  assumes "\<And>n. logged objs (f n)"
  shows "logged objs (with_retry env cfg f)"
proof -
  have "logged objs (retry_loop env cfg f ns le)" for ns le
  proof (induction ns arbitrary: le)
    case Nil
    then show ?case by (cases le) (auto intro: logged_pure)
  next
    case (Cons n ns)
    show ?case
      unfolding retry_loop.simps Let_def
      by (intro logged_bind assms)
         (auto split: retry_result.split intro!: logged_intros Cons.IH logged_sleep
            logged_pointwise [where g = "\<lambda>w. io_bind (sleep env (unat (delay_for_attempt cfg n
               (\<lambda>m. rand_upto env m (svc w))))) (\<lambda>_. retry_loop env cfg f ns (Some _))"])
  qed
  then show ?thesis by (simp add: with_retry_def)
qed

lemma logged_delete_fallback: "logged objs (delete_fallback env ks stats)"
  by (induction ks arbitrary: stats)
     (auto intro!: logged_intros simp: delete_singly_def delete_frame split: sum.split)

lemma logged_delete_batch: "logged objs (delete_batch env st b stats)"
  unfolding delete_batch_def Let_def
  by (auto intro!: logged_if logged_bind logged_with_retry logged_await logged_pure
      logged_delete_fallback simp: delete_many_frame split: sum.split)

lemma logged_bulk_delete: "logged objs (delete_objects_bulk env st ks)"
proof -
  have "logged objs (delete_batches env st bs stats)" for bs stats
    by (induction bs arbitrary: stats) (auto intro!: logged_bind logged_delete_batch logged_pure)
  then show ?thesis unfolding delete_objects_bulk_def by (intro logged_if logged_pure)
qed

lemma logged_read_manifest: "logged objs (read_manifest env cd st n)"
  unfolding read_manifest_def by (intro logged_bind logged_get_object logged_pure)

lemma logged_list_names: "logged objs (list_manifest_names env st)"
  unfolding list_manifest_names_def by (intro logged_bind logged_list_objects logged_pure)

lemma logged_read_all: "logged objs (read_all_manifests env cd st ord)"
  unfolding read_all_manifests_def
  by (intro logged_bind logged_list_names logged_map logged_read_manifest)

lemma logged_delete_manifest: "logged objs (delete_manifest env st n)"
  unfolding delete_manifest_def by (rule logged_delete_object)

lemmas logged_storage = logged_sleep logged_get_object logged_put_conditional logged_delete_object
  logged_list_objects logged_bulk_delete logged_read_manifest logged_list_names logged_read_all
  logged_delete_manifest

text \<open>Reads change nothing, and return what is there.\<close>

lemma get_object_keeps: "keeps (\<lambda>s. objs s = c) (get_object env st k)"
  unfolding get_object_def send_def Let_def
  by (auto intro!: keeps_bind keeps_await keeps_pure simp: get_reads split: sum.split option.split)

lemma get_object_Ok:
  assumes "get_object env st k w = (Ok b, w')"
  shows "objs (svc w) (prefixed_key st k) = Some b" and "objs (svc w') = objs (svc w)"
proof -
  obtain r u where a: "await env (ReqGet (prefixed_key st k)) (s3_get env (prefixed_key st k)) w = (Ok r, u)"
    and r: "(case r of Inl e \<Rightarrow> io_fail (S3Failure e) | Inr v \<Rightarrow>
       (case v of Some b \<Rightarrow> io_return b | None \<Rightarrow> io_fail BodyReadFailed)) u = (Ok b, w')"
    using assms unfolding get_object_def send_def Let_def
    by (auto elim!: io_bind_OkE split: sum.splits simp: io_fail_def io_return_def)
  from r have "r = Inr (Some b)" by (auto simp: io_fail_def io_return_def split: sum.splits option.splits)
  with await_svc [OF a] show "objs (svc w) (prefixed_key st k) = Some b" by (auto intro: get_value)
  show "objs (svc w') = objs (svc w)"
    by (rule keepsD [OF get_object_keeps [of "objs (svc w)"] _ assms]) simp
qed

lemma delete_object_result:
  assumes "delete_object env st k w = (r, w')"
  shows "objs (svc w') (prefixed_key st k) \<in> {objs (svc w) (prefixed_key st k), None}"
    and "r = Ok () \<Longrightarrow> objs (svc w') (prefixed_key st k) = None"
proof -
  let ?k = "prefixed_key st k"
  obtain x v where v: "await env (ReqDelete ?k) (s3_delete env ?k) w = (x, v)" by fastforce
  have d: "delete_object env st k w = io_bind (await env (ReqDelete ?k) (s3_delete env ?k))
      (\<lambda>r. case r of Inl e \<Rightarrow> io_fail (S3Failure e) | Inr u \<Rightarrow> io_return u) w"
    by (simp add: delete_object_def send_def Let_def)
  have "objs (svc w') ?k \<in> {objs (svc w) ?k, None} \<and> (r = Ok () \<longrightarrow> objs (svc w') ?k = None)"
  proof (cases x)
    case (Ok y)
    from await_svc [OF v [unfolded Ok]] have s: "s3_delete env ?k (svc w) = (y, svc v)" .
    have "svc w' = svc v" "r = Ok () \<longrightarrow> y = Inr ()"
      using assms v Ok d by (auto simp: io_bind_def io_fail_def io_return_def split: sum.splits)
    with delete_cases [of ?k "svc w"] delete_done [of ?k "svc w"] s show ?thesis by auto
  next
    case (Err e)
    with v show ?thesis by simp
  next
    case Dropped
    with assms v d show ?thesis by (auto simp: io_bind_def await_def split: if_splits prod.splits)
  qed (use v in \<open>auto simp: await_def split: if_splits prod.splits\<close>)
  then show "objs (svc w') ?k \<in> {objs (svc w) ?k, None}" "r = Ok () \<Longrightarrow> objs (svc w') ?k = None"
    by blast+
qed

lemma read_manifest_keeps: "keeps (\<lambda>s. objs s = c) (read_manifest env cd st n)"
  unfolding read_manifest_def by (intro keeps_bind get_object_keeps keeps_pure)

lemma read_manifest_Ok:
  assumes "read_manifest env cd st n w = (Ok m, w')"
  shows "\<exists>b m0. objs (svc w) (prefixed_key st (manifest_key n)) = Some b \<and>
    dec_manifest cd b = Some m0 \<and> m = m0\<lparr>m_name := n\<rparr>"
proof -
  obtain b u where g: "get_object env st (manifest_key n) w = (Ok b, u)"
    and d: "io_bind (io_lift (decode cd b)) (\<lambda>m. io_return (m\<lparr>m_name := n\<rparr>)) u = (Ok m, w')"
    using assms unfolding read_manifest_def by (rule io_bind_OkE)
  from d have "\<exists>m0. dec_manifest cd b = Some m0 \<and> m = m0\<lparr>m_name := n\<rparr>"
    by (auto simp: decode_def io_lift_def io_return_def io_bind_def split: option.splits)
  with get_object_Ok(1) [OF g] show ?thesis by blast
qed

lemma list_pages_keeps: "keeps (\<lambda>s. objs s = c) (list_pages env st p n t acc)"
proof (induction n arbitrary: t acc)
  case (Suc n)
  then show ?case
    unfolding list_pages.simps send_def Let_def
    by (auto intro!: keeps_bind keeps_await keeps_pure simp: list_reads split: sum.split option.split)
qed (simp add: keeps_pure)

lemma list_names_keeps: "keeps (\<lambda>s. objs s = c) (list_manifest_names env st)"
  unfolding list_manifest_names_def list_objects_def
  by (intro keeps_bind list_pages_keeps keeps_pure)

lemma covered:
  "R \<subseteq> P \<union> R' \<Longrightarrow> f ` P \<subseteq> A \<Longrightarrow> A \<subseteq> B \<Longrightarrow> \<forall>k \<in> R'. f k \<in> B \<Longrightarrow> \<forall>k \<in> R. f k \<in> B"
  by blast

lemma list_pages_complete:
  assumes "list_pages env st p n t acc w = (Ok res, w')"
  shows "set acc \<subseteq> set res \<and> (\<forall>k \<in> remaining (svc w) p t. relative_key st k \<in> fst ` set res)"
  using assms
proof (induction n arbitrary: t acc w)
  case 0
  then show ?case by (simp add: io_diverge_def)
next
  case (Suc n)
  obtain resp u where a: "send env (ReqList p t) (s3_list env p t) w = (Ok resp, u)"
    and rest: "(let results = acc @ page_entries st (clock_ns env (svc u)) (lp_contents resp) in
       case lp_next resp of
         Some token \<Rightarrow> list_pages env st p n (Some token) results
       | None \<Rightarrow> io_return results) u = (Ok res, w')"
    using Suc.prems by (auto elim!: io_bind_OkE simp: clock_def)
  obtain r v where v: "await env (ReqList p t) (s3_list env p t) w = (Ok r, v)"
    and r: "(case r of Inl e \<Rightarrow> io_fail (S3Failure e) | Inr x \<Rightarrow> io_return x) v = (Ok resp, u)"
    using a unfolding send_def by (auto elim!: io_bind_OkE)
  from r have ri: "r = Inr resp" and vu: "v = u"
    by (auto simp: io_fail_def io_return_def split: sum.splits)
  from await_svc [OF v] ri vu have s: "s3_list env p t (svc w) = (Inr resp, svc u)" by simp
  let ?new = "page_entries st (clock_ns env (svc u)) (lp_contents resp)"
  let ?page = "{k. \<exists>e \<in> set (lp_contents resp). le_key e = Some k}"
  have page: "relative_key st ` ?page \<subseteq> fst ` set ?new"
    by (force simp: page_entries_def List.map_filter_def image_iff)
  show ?case
  proof (cases "lp_next resp")
    case None
    with rest have "res = acc @ ?new" by (auto simp: io_return_def)
    moreover have "remaining (svc w) p t \<subseteq> ?page"
      using list_page [OF s] None by simp
    ultimately show ?thesis using page by (auto simp: image_subset_iff image_Un)
  next
    case (Some t')
    with rest have "list_pages env st p n (Some t') (acc @ ?new) u = (Ok res, w')" by simp
    from Suc.IH [OF this] have ih: "set (acc @ ?new) \<subseteq> set res"
      "\<forall>k \<in> remaining (svc u) p (Some t'). relative_key st k \<in> fst ` set res" by auto
    have c: "remaining (svc w) p t \<subseteq> ?page \<union> remaining (svc u) p (Some t')"
      using list_page [OF s] Some by simp
    have "fst ` set ?new \<subseteq> fst ` set res" using ih(1) by (intro image_mono) simp
    from covered [OF c page this ih(2)] ih(1) show ?thesis by simp
  qed
qed

lemma list_names_complete:
  assumes "list_manifest_names env st w = (Ok names, w')"
    and "objs (svc w) (prefixed_key st (manifest_key n)) \<noteq> None"
  shows "n \<in> set names"
proof -
  obtain res where res: "list_objects env st MANIFEST_PREFIX w = (Ok res, w')"
    and names: "names = List.map_filter (\<lambda>(key, sz, modified). manifest_name_from_key key) res"
    using assms(1) unfolding list_manifest_names_def by (auto elim!: io_bind_OkE simp: io_return_def)
  have "starts_with (prefixed_key st MANIFEST_PREFIX) (prefixed_key st (manifest_key n))"
    by (auto simp: starts_with_iff prefixed_key_def manifest_key_def split: option.split)
  from list_start [OF assms(2) this] list_pages_complete [OF res [unfolded list_objects_def]]
  have "relative_key st (prefixed_key st (manifest_key n)) \<in> fst ` set res" by blast
  moreover have "relative_key st (prefixed_key st k) = k" for k
    using strip_prefix_append [of "the (key_prefix st) @ ''/''" k]
    by (auto simp: relative_key_def prefixed_key_def split: option.split)
  moreover have "manifest_name_from_key (manifest_key n) = Some n"
    by (auto simp: manifest_name_from_key_def manifest_key_def strip_prefix_Some strip_suffix_Some
        split: option.splits)
  ultimately show ?thesis unfolding names by (force simp: List.map_filter_def)
qed

text \<open>What manifests a run of reads has seen.\<close>

lemma io_map_seen:
  assumes "io_map f xs w = (Ok ys, w')" and "\<And>x c. keeps (\<lambda>s. objs s = c) (f x)" and "x \<in> set xs"
  shows "\<exists>y \<in> set ys. \<exists>u u'. f x u = (Ok y, u') \<and> objs (svc u) = objs (svc w)"
  using assms(1,3)
proof (induction xs arbitrary: w ys)
  case (Cons a xs)
  from Cons.prems(1) obtain y u zs where y: "f a w = (Ok y, u)" and zs: "io_map f xs u = (Ok zs, w')"
    and ys: "ys = y # zs"
    by (auto elim!: io_bind_OkE simp: io_return_def)
  have "objs (svc u) = objs (svc w)" by (rule keepsD [OF assms(2) _ y]) simp
  with Cons.IH [OF zs] Cons.prems(2) y ys show ?case by (cases "x = a") auto
qed simp

lemma io_map_origin:
  assumes "io_map f xs w = (Ok ys, w')" and "\<And>x c. keeps (\<lambda>s. objs s = c) (f x)" and "y \<in> set ys"
  shows "\<exists>x \<in> set xs. \<exists>u u'. f x u = (Ok y, u') \<and> objs (svc u) = objs (svc w)"
  using assms(1,3)
proof (induction xs arbitrary: w ys)
  case Nil
  then show ?case by (simp add: io_return_def)
next
  case (Cons a xs)
  from Cons.prems(1) obtain z u zs where z: "f a w = (Ok z, u)" and zs: "io_map f xs u = (Ok zs, w')"
    and ys: "ys = z # zs"
    by (auto elim!: io_bind_OkE simp: io_return_def)
  have "objs (svc u) = objs (svc w)" by (rule keepsD [OF assms(2) _ z]) simp
  with Cons.IH [OF zs] Cons.prems(2) z ys show ?case by (cases "y = z") auto
qed

lemma io_map_keeps: "(\<And>x. keeps I (f x)) \<Longrightarrow> keeps I (io_map f xs)"
  by (rule keeps_map)

lemma read_all_keeps: "keeps (\<lambda>s. objs s = c) (read_all_manifests env cd st ord)"
  unfolding read_all_manifests_def
  by (intro keeps_bind list_names_keeps io_map_keeps read_manifest_keeps)

lemma read_all_sound:
  assumes "read_all_manifests env cd st ord w = (Ok ms, w')" and "m \<in> set ms"
  shows "\<exists>n b m0. objs (svc w) (prefixed_key st (manifest_key n)) = Some b \<and>
    dec_manifest cd b = Some m0 \<and> m = m0\<lparr>m_name := n\<rparr>"
proof -
  obtain names u where names: "list_manifest_names env st w = (Ok names, u)"
    and ms: "io_map (read_manifest env cd st) (ord names) u = (Ok ms, w')"
    using assms(1) unfolding read_all_manifests_def by (rule io_bind_OkE)
  have u: "objs (svc u) = objs (svc w)" by (rule keepsD [OF list_names_keeps _ names]) simp
  from io_map_origin [OF ms read_manifest_keeps assms(2)] obtain n v v' where
    m: "read_manifest env cd st n v = (Ok m, v')" "objs (svc v) = objs (svc u)" by blast
  from read_manifest_Ok [OF m(1)] m(2) u show ?thesis by (metis (no_types))
qed

lemma read_all_complete:
  assumes "read_all_manifests env cd st ord w = (Ok ms, w')" and "\<And>xs. set (ord xs) = set xs"
    and "objs (svc w) (prefixed_key st (manifest_key n)) = Some b"
  shows "\<exists>m0. dec_manifest cd b = Some m0 \<and> m0\<lparr>m_name := n\<rparr> \<in> set ms"
proof -
  obtain names u where names: "list_manifest_names env st w = (Ok names, u)"
    and ms: "io_map (read_manifest env cd st) (ord names) u = (Ok ms, w')"
    using assms(1) unfolding read_all_manifests_def by (rule io_bind_OkE)
  have u: "objs (svc u) = objs (svc w)" by (rule keepsD [OF list_names_keeps _ names]) simp
  have "n \<in> set (ord names)" using list_names_complete [OF names] assms(2,3) by simp
  from io_map_seen [OF ms read_manifest_keeps this] obtain m v v' where
    m: "m \<in> set ms" "read_manifest env cd st n v = (Ok m, v')" "objs (svc v) = objs (svc u)" by blast
  from read_manifest_Ok [OF m(2)] m(1,3) u assms(3) show ?thesis by auto
qed

lemma read_each_keeps: "keeps (\<lambda>s. objs s = c) (read_each env cd st ns)"
  by (induction ns) (auto intro!: keeps_match keeps_bind read_manifest_keeps keeps_pure)

lemma logged_read_each: "logged objs (read_each env cd st ns)"
  by (induction ns) (auto intro!: logged_match logged_bind logged_read_manifest logged_pure)

lemma read_each_seen:
  assumes "read_each env cd st ns w = (Ok rs, w')" and "n \<in> set ns"
    and "objs (svc w) (prefixed_key st (manifest_key n)) = Some b"
  shows "(\<exists>e. Inl e \<in> set rs) \<or> (\<exists>m0. dec_manifest cd b = Some m0 \<and> Inr (m0\<lparr>m_name := n\<rparr>) \<in> set rs)"
  using assms
proof (induction ns arbitrary: w rs)
  case (Cons a ns)
  obtain r u where r: "read_manifest env cd st a w = (r, u)" by fastforce
  have u: "objs (svc u) = objs (svc w)" by (rule keepsD [OF read_manifest_keeps _ r]) simp
  show ?case
  proof (cases r)
    case (Ok m)
    with r Cons.prems(1) obtain zs where zs: "read_each env cd st ns u = (Ok zs, w')" "rs = Inr m # zs"
      by (auto simp: io_match_def io_return_def elim!: io_bind_OkE)
    show ?thesis
    proof (cases "n = a")
      case True
      with read_manifest_Ok [OF r [unfolded Ok]] Cons.prems(3) zs(2) show ?thesis by auto
    next
      case False
      with Cons.IH [OF zs(1)] Cons.prems(2,3) u zs(2) show ?thesis by auto
    qed
  next
    case (Err e)
    with r Cons.prems(1) obtain zs where "rs = Inl e # zs"
      by (auto simp: io_match_def io_return_def elim!: io_bind_OkE)
    then have "Inl e \<in> set rs" by simp
    then show ?thesis by blast
  qed (use r Cons.prems(1) in \<open>auto simp: io_match_def\<close>)
qed simp

end

end
