(* ===== verification/Gc_Safety.thy ===== *)
theory Gc_Safety
  imports Gc_Requests Bucket
begin

text \<open>
  What garbage collection leaves alone, in any bucket that satisfies the laws of S3: the frame of
  the lock, of the scan, of the removal of a snapshot and of the pruning.
\<close>

section \<open>Keys\<close>

definition lock_object :: "storage \<Rightarrow> string" where
  "lock_object st = prefixed_key st LOCK_KEY"

definition manifest_object :: "storage \<Rightarrow> string \<Rightarrow> string" where
  "manifest_object st n = prefixed_key st (manifest_key n)"

definition blob_object :: "storage \<Rightarrow> string \<Rightarrow> string" where
  "blob_object st h = prefixed_key st (blob_remote_key h)"

lemmas object_defs = lock_object_def manifest_object_def blob_object_def

lemma objects_disjoint [simp]:
  "lock_object st \<noteq> manifest_object st n" "manifest_object st n \<noteq> lock_object st"
  "lock_object st \<noteq> blob_object st h" "blob_object st h \<noteq> lock_object st"
  "manifest_object st n \<noteq> blob_object st h" "blob_object st h \<noteq> manifest_object st n"
  by (simp_all add: object_defs inj_eq [OF prefixed_key_inj] LOCK_KEY_def manifest_key_def
      MANIFEST_PREFIX_def blob_remote_key_def)

lemma object_inj [simp]:
  "manifest_object st n = manifest_object st n' \<longleftrightarrow> n = n'"
  "blob_object st h = blob_object st h' \<longleftrightarrow> h = h'"
  by (simp_all add: object_defs inj_eq [OF prefixed_key_inj] manifest_key_def blob_remote_key_inj)

lemma lock_request_writes: "lock_request st q \<Longrightarrow> writes q \<subseteq> {lock_object st}"
  by (cases q) (auto simp: lock_request_def lock_object_def Let_def)

lemma deletes_only_writes: "deletes_only D q \<Longrightarrow> writes q \<subseteq> D"
  by (cases q) (auto simp: deletes_only_def)

section \<open>The lock\<close>

context s3_bucket
begin

lemma logged_now: "logged objs (now_epoch_secs env)"
  unfolding now_epoch_secs_def by (intro logged_bind logged_pure)

lemma logged_try_put: "logged objs (try_put env lc st i)"
  unfolding try_put_def Let_def
  by (auto intro!: logged_bind logged_now logged_put_conditional logged_pure)

lemma logged_break_stale: "logged objs (break_stale env lc st i)"
  unfolding break_stale_def by (intro logged_match logged_delete_object logged_try_put)

lemma logged_acquire: "logged objs (acquire env lc st i)"
  unfolding acquire_def
  by (auto intro!: logged_bind logged_match logged_try_put logged_pure logged_if logged_get_object
      logged_break_stale logged_now split: option.split)

lemma logged_delete_quietly: "logged objs (delete_quietly env st k)"
  unfolding delete_quietly_def by (intro logged_match logged_delete_object logged_pure)

lemma logged_release: "logged objs (release env lc st i)"
  unfolding release_def
  by (auto intro!: logged_match logged_get_object logged_pure logged_delete_quietly split: option.split)

lemma logged_acquire_attempts: "logged objs (acquire_attempts env lc st i m ns)"
  by (induction ns)
     (auto intro!: logged_match logged_acquire logged_pure logged_bind logged_sleep split: option.split)

lemma keeps_lock:
  assumes "\<And>s s'. I s \<Longrightarrow> (\<And>k. k \<noteq> lock_object st \<Longrightarrow> objs s' k = objs s k) \<Longrightarrow> I s'"
    and "logged objs m" and "requests (lock_request st) m"
  shows "keeps I m"
proof (rule keepsI)
  fix w r w' assume i: "I (svc w)" and m: "m w = (r, w')"
  have "objs (svc w') k = objs (svc w) k" if "k \<noteq> lock_object st" for k
    by (rule logged_frame [OF assms(2,3) m]) (use that lock_request_writes in blast)
  then show "I (svc w')" by (rule assms(1) [OF i])
qed

lemma keeps_with_gc_lock:
  assumes lock_free: "\<And>s s'. I s \<Longrightarrow> (\<And>k. k \<noteq> lock_object st \<Longrightarrow> objs s' k = objs s k) \<Longrightarrow> I s'"
    and "keeps I f"
  shows "keeps I (with_gc_lock env gp st f)"
proof -
  have acq: "keeps I (acquire_with_retry env lc st i 10)" for lc i
    unfolding acquire_with_retry_def
    by (rule keeps_lock [where I = I and st = st], erule lock_free, simp,
        rule logged_acquire_attempts, rule requests_acquire_attempts)
  have rel: "keeps I (release env lc st i)" for lc i
    by (rule keeps_lock [where I = I and st = st], erule lock_free, simp,
        rule logged_release, rule requests_release)
  have res: "keeps I (io_result oc)" for oc :: "unit outcome"
    by (simp add: keeps_def io_result_def)
  have after: "keeps I (\<lambda>w. case select_guarded LockLost f w of
      (outcome, w') \<Rightarrow>
        if outcome = Panic \<or> outcome = Diverge then (outcome, w')
        else io_bind (is_lock_lost env) (\<lambda>lost.
            io_bind (if lost then io_return ()
                     else io_match (release env (gp_lock gp) st (gp_instance_id gp))
                            io_return (\<lambda>_. io_return ())) (\<lambda>_. io_result outcome)) w')"
    (is "keeps _ ?m")
  proof (rule keepsI)
    fix w r w' assume i: "I (svc w)" and m: "?m w = (r, w')"
    obtain oc u where s: "select_guarded LockLost f w = (oc, u)" by fastforce
    have u: "I (svc u)" by (rule keepsD [OF keeps_select [OF assms(2)] i s])
    let ?rest = "io_bind (is_lock_lost env) (\<lambda>lost.
            io_bind (if lost then io_return ()
                     else io_match (release env (gp_lock gp) st (gp_instance_id gp))
                            io_return (\<lambda>_. io_return ())) (\<lambda>_. io_result oc))"
    have "keeps I ?rest"
      by (intro keeps_bind keeps_lock_lost keeps_if keeps_pure keeps_match rel res)
    with u m s show "I (svc w')"
      by (auto split: if_splits dest: keepsD)
  qed
  show ?thesis
    unfolding with_gc_lock_def
    by (rule keeps_bind [OF acq]) (auto intro: after keeps_pure split: option.split)
qed

end

section \<open>The scan\<close>

text \<open>The blobs the scan may delete: those whose hash no manifest names.\<close>

definition orphan_objects :: "storage \<Rightarrow> bytes set \<Rightarrow> string set" where
  "orphan_objects st referenced =
     {blob_object st h | h. \<exists>x. from_hex h = Some x \<and> x \<notin> referenced}"

lemma parse_unreferenced:
  "parse_unreferenced_blob key referenced = Some h \<Longrightarrow> \<exists>x. from_hex h = Some x \<and> x \<notin> referenced"
  by (auto simp: parse_unreferenced_blob_def split: list.splits if_splits option.splits)

lemma doomed_orphan: "doomed st (orphan_objects st referenced) referenced cutoff item"
  by (auto simp: doomed_def orphan_objects_def blob_object_def dest!: parse_unreferenced)

definition scan_request :: "string set \<Rightarrow> request \<Rightarrow> bool" where
  "scan_request D q \<longleftrightarrow> deletes_only D q \<or> (\<exists>p t. q = ReqList p t)"

lemma scan_request_writes: "scan_request D q \<Longrightarrow> writes q \<subseteq> D"
  by (auto simp: scan_request_def dest: deletes_only_writes)

lemma requests_remote_scan:
  "requests (scan_request (orphan_objects st referenced))
     (remote_scan_and_delete env gp st referenced dry grace)"
proof (rule requestsI)
  fix w r w' assume s: "remote_scan_and_delete env gp st referenced dry grace w = (r, w')"
  show "\<exists>qs. trace w' = trace w @ qs \<and> list_all (scan_request (orphan_objects st referenced)) qs"
    by (rule requests_scan [where D = "orphan_objects st referenced", OF _ _ _ s])
       (auto simp: listed_doomed_def list_all_iff doomed_orphan scan_request_def)
qed

text \<open>A manifest in the bucket, and what it names.\<close>

definition names_blob ::
  "gc_params \<Rightarrow> storage \<Rightarrow> (string \<Rightarrow> bytes option) \<Rightarrow> string \<Rightarrow> string \<Rightarrow> bool"
where
  "names_blob gp st c n h \<longleftrightarrow>
     (\<exists>b m. c (manifest_object st n) = Some b \<and> dec_manifest (gp_codec gp) b = Some m \<and>
        h \<in> set (map mp_blob_hash (m_parts m)))"

text \<open>
  What a command that may remove the manifests \<open>R\<close> has to leave as it is: the other manifests and
  every blob one of them names.
\<close>

definition kept_objects ::
  "gc_params \<Rightarrow> storage \<Rightarrow> (string \<Rightarrow> bytes option) \<Rightarrow> string set \<Rightarrow> string set"
where
  "kept_objects gp st c R =
     {manifest_object st n | n. n \<notin> R} \<union> {blob_object st h | h. \<exists>n. n \<notin> R \<and> names_blob gp st c n h}"

lemma kept_not_lock: "lock_object st \<notin> kept_objects gp st c R"
  by (auto simp: kept_objects_def)

lemma union_hashes_names:
  "names_blob gp st c n h \<Longrightarrow> c (manifest_object st n) = Some b \<Longrightarrow>
     dec_manifest (gp_codec gp) b = Some m \<Longrightarrow> m\<lparr>m_name := n'\<rparr> \<in> set ms \<Longrightarrow> h \<in> union_hashes ms"
  by (auto simp: names_blob_def union_hashes_def intro!: bexI [of _ "m\<lparr>m_name := n'\<rparr>"])

text \<open>
  While a snapshot is removed: what the others need is as it was, and as long as the manifest stands
  so do all blobs.
\<close>

definition snapshot_inv ::
  "('s \<Rightarrow> string \<Rightarrow> bytes option) \<Rightarrow> gc_params \<Rightarrow> storage \<Rightarrow> (string \<Rightarrow> bytes option) \<Rightarrow> string \<Rightarrow> 's \<Rightarrow> bool"
where
  "snapshot_inv objs gp st c t s \<longleftrightarrow>
     unchanged objs (kept_objects gp st c {t}) c s \<and>
     objs s (manifest_object st t) \<in> {c (manifest_object st t), None} \<and>
     (objs s (manifest_object st t) = None \<or> (\<forall>h. objs s (blob_object st h) = c (blob_object st h)))"

text \<open>The names a pruning of these manifests removes.\<close>

definition prune_names ::
  "gc_params \<Rightarrow> manifest list \<Rightarrow> u64 \<Rightarrow> u64 option \<Rightarrow> i64 \<Rightarrow> string list"
where
  "prune_names gp ms retain_all retain_daily now =
     compute_prune_set (gp_codec gp)
       (sort_key (\<lambda>(_, ts). sint ts) (map (\<lambda>m. (m_name m, m_timestamp m)) (filter is_live ms)))
       retain_all retain_daily now"

text \<open>The manifests of a bucket, as they are read: named after their keys.\<close>

definition bucket_manifests ::
  "gc_params \<Rightarrow> storage \<Rightarrow> (string \<Rightarrow> bytes option) \<Rightarrow> manifest set"
where
  "bucket_manifests gp st c =
     {m\<lparr>m_name := n\<rparr> | m n. \<exists>b. c (manifest_object st n) = Some b \<and> dec_manifest (gp_codec gp) b = Some m}"

definition same_but_lock ::
  "('s \<Rightarrow> string \<Rightarrow> bytes option) \<Rightarrow> storage \<Rightarrow> 's \<Rightarrow> 's \<Rightarrow> bool"
where
  "same_but_lock objs st s s' \<longleftrightarrow> (\<forall>k. k \<noteq> lock_object st \<longrightarrow> objs s' k = objs s k)"

lemma keeps_bind_post:
  assumes "keeps I m" and "\<And>w x u. I (svc w) \<Longrightarrow> m w = (Ok x, u) \<Longrightarrow> J (svc u)"
    and "\<And>x. keeps J (f x)" and "\<And>s. J s \<Longrightarrow> I s"
  shows "keeps I (io_bind m f)"
proof (rule keepsI)
  fix w r w' assume i: "I (svc w)" and b: "io_bind m f w = (r, w')"
  obtain a u where a: "m w = (a, u)" by fastforce
  have u: "I (svc u)" by (rule keepsD [OF assms(1) i a])
  show "I (svc w')"
  proof (cases a)
    case (Ok x)
    with b a have "f x u = (r, w')" by (simp add: io_bind_def)
    then show ?thesis
      by (rule assms(4) [OF keepsD [OF assms(3) assms(2) [OF i a [unfolded Ok]]]])
  qed (use b a u in \<open>auto simp: io_bind_def\<close>)
qed

context s3_bucket
begin

lemma logged_bail: "logged objs (bail_if_lock_lost env)"
  unfolding bail_if_lock_lost_def by (intro logged_bind logged_if logged_pure)

lemma logged_flush: "logged objs (flush_batch env st dry ss)"
  unfolding flush_batch_def delete_or_report_batch_def Let_def
  by (intro logged_bind logged_bail logged_if logged_pure logged_bulk_delete)

lemma logged_scan_items: "logged objs (scan_items env st referenced dry cutoff ss items)"
proof (induction items arbitrary: ss)
  case (Cons i its)
  have "logged objs (scan_item env st referenced dry cutoff ss i)"
    unfolding scan_item_def Let_def
    by (cases i) (auto intro!: logged_pure logged_flush split: option.split)
  with Cons show ?case by (auto intro!: logged_bind)
qed (simp add: logged_pure)

lemma logged_scan_shards: "logged objs (scan_shards env st referenced dry cutoff ss shards)"
  by (induction shards arbitrary: ss)
     (auto intro!: logged_match logged_bind logged_list_objects logged_scan_items logged_pure)

lemma logged_remote_scan: "logged objs (remote_scan_and_delete env gp st referenced dry grace)"
  unfolding remote_scan_and_delete_def
  by (auto intro!: logged_bind logged_pure logged_scan_shards logged_if logged_flush split: option.split)

lemma scan_keeps:
  "K \<inter> orphan_objects st referenced = {} \<Longrightarrow>
     keeps (unchanged objs K c) (remote_scan_and_delete env gp st referenced dry grace)"
  by (rule keeps_unchanged [OF logged_remote_scan requests_remote_scan])
     (use scan_request_writes in blast)

lemma referenced_keeps: "keeps (\<lambda>s. objs s = c) (referenced_blob_hashes env gp st)"
  unfolding referenced_blob_hashes_def by (intro keeps_bind read_all_keeps keeps_pure)

lemma referenced_complete:
  assumes "referenced_blob_hashes env gp st w = (Ok (hs, k), w')"
    and "\<And>xs. set (gp_download_order gp xs) = set xs"
    and "names_blob gp st (objs (svc w)) n h"
  shows "h \<in> hs"
proof -
  from assms(1) obtain ms u where
    ms: "read_all_manifests env (gp_codec gp) st (gp_download_order gp) w = (Ok ms, u)"
    and hs: "hs = union_hashes ms"
    unfolding referenced_blob_hashes_def by (auto elim!: io_bind_OkE simp: io_return_def)
  from assms(3) obtain b where b: "objs (svc w) (manifest_object st n) = Some b"
    by (auto simp: names_blob_def)
  from read_all_complete [OF ms assms(2)] b obtain m where
    "dec_manifest (gp_codec gp) b = Some m" "m\<lparr>m_name := n\<rparr> \<in> set ms"
    unfolding manifest_object_def by blast
  with union_hashes_names [OF assms(3) b] show ?thesis by (simp add: hs)
qed

lemma keeps_locked:
  assumes "lock_object st \<notin> K" and "keeps (unchanged objs K c) f"
  shows "keeps (unchanged objs K c) (with_gc_lock env gp st f)"
proof (rule keeps_with_gc_lock [OF _ assms(2)])
  fix s s' assume "unchanged objs K c s" and "\<And>k. k \<noteq> lock_object st \<Longrightarrow> objs s' k = objs s k"
  then show "unchanged objs K c s'" using assms(1) unfolding unchanged_def by metis
qed

lemma unchanged_same: "objs s = objs s' \<Longrightarrow> unchanged objs K c s \<longleftrightarrow> unchanged objs K c s'"
  by (simp add: unchanged_def)

text \<open>A command that first reads: what it learns is true of the state it acts on.\<close>

lemma keeps_read_bind:
  assumes "\<And>c. keeps (\<lambda>s. objs s = c) m" and "\<And>s s'. objs s = objs s' \<Longrightarrow> I s \<Longrightarrow> I s'"
    and "\<And>w x u. I (svc w) \<Longrightarrow> m w = (Ok x, u) \<Longrightarrow> keeps I (f x)"
  shows "keeps I (io_bind m f)"
proof (rule keepsI)
  fix w r w' assume i: "I (svc w)" and b: "io_bind m f w = (r, w')"
  obtain a u where a: "m w = (a, u)" by fastforce
  have "objs (svc u) = objs (svc w)" by (rule keepsD [OF assms(1) _ a]) simp
  then have u: "I (svc u)" using assms(2) i by metis
  show "I (svc w')"
  proof (cases a)
    case (Ok x)
    with b a have "f x u = (r, w')" by (simp add: io_bind_def)
    then show ?thesis by (rule keepsD [OF assms(3) [OF i a [unfolded Ok]] u])
  qed (use b a u in \<open>auto simp: io_bind_def\<close>)
qed

lemma keeps_read:
  assumes "\<And>c. keeps (\<lambda>s. objs s = c) m" and "\<And>s s'. objs s = objs s' \<Longrightarrow> I s \<Longrightarrow> I s'"
  shows "keeps I m"
proof (rule keepsI)
  fix w r w' assume "I (svc w)" and m: "m w = (r, w')"
  moreover have "objs (svc w') = objs (svc w)" by (rule keepsD [OF assms(1) _ m]) simp
  ultimately show "I (svc w')" using assms(2) by metis
qed

lemma names_blob_unchanged:
  "unchanged objs (kept_objects gp st c R) c s \<Longrightarrow> n \<notin> R \<Longrightarrow>
     objs s (manifest_object st n) = c (manifest_object st n)"
  by (auto simp: unchanged_def kept_objects_def)

lemma gc_all_keeps:
  assumes "\<And>xs. set (gp_download_order gp xs) = set xs"
  shows "keeps (unchanged objs (kept_objects gp st c {}) c) (gc_all_blobs env gp st dry grace)"
    (is "keeps ?I _")
  unfolding gc_all_blobs_def
proof (intro keeps_locked kept_not_lock keeps_read_bind [OF referenced_keeps])
  fix w x u assume i: "?I (svc w)" and x: "referenced_blob_hashes env gp st w = (Ok x, u)"
  obtain hs k where hs: "x = (hs, k)" by (cases x)
  have "h \<in> hs" if "names_blob gp st c n h" for n h
    using x hs assms that names_blob_unchanged [OF i, of n]
    by (intro referenced_complete [of gp st w hs k u n]) (auto simp: names_blob_def)
  then have "kept_objects gp st c {} \<inter> orphan_objects st (Option.these (from_hex ` hs)) = {}"
    by (auto simp: kept_objects_def orphan_objects_def in_these_eq image_iff) metis
  then show "keeps ?I (case x of (referenced, manifest_count) \<Rightarrow>
      let referenced_hashes = Option.these (from_hex ` referenced)
      in remote_scan_and_delete env gp st referenced_hashes dry grace)"
    by (simp add: hs scan_keeps)
qed (auto simp: unchanged_def)

section \<open>The removal of a snapshot\<close>

lemma logged_exclusive: "logged objs (delete_exclusive_blobs env st hs)"
  unfolding delete_exclusive_blobs_def by (intro logged_bind logged_bulk_delete logged_pure)

lemma exclusive_keeps:
  assumes "\<And>h. h \<in> set hs \<Longrightarrow> blob_object st h \<notin> K"
  shows "keeps (unchanged objs K c) (delete_exclusive_blobs env st hs)"
proof (rule keeps_unchanged [OF logged_exclusive])
  show "requests (deletes_only (blob_object st ` set hs)) (delete_exclusive_blobs env st hs)"
    by (rule requests_delete_exclusive) (auto simp: blob_object_def)
  show "writes q \<inter> K = {}" if "deletes_only (blob_object st ` set hs) q" for q
    using deletes_only_writes [OF that] assms by blast
qed

lemma keeps_bail: "keeps I (bail_if_lock_lost env)"
  unfolding bail_if_lock_lost_def by (intro keeps_bind keeps_lock_lost keeps_if keeps_pure)

lemma union_for_names_keeps: "keeps (\<lambda>s. objs s = c) (union_hashes_for_names env gp st ns)"
  unfolding union_hashes_for_names_def by (intro keeps_bind read_each_keeps keeps_pure)

lemma map_r_id_Inr: "map_r (\<lambda>r. r) rs = Inr ms \<Longrightarrow> rs = map Inr ms"
  by (induction rs arbitrary: ms) (auto simp: bind_r_Inr_iff)

lemma union_for_names_complete:
  assumes "union_hashes_for_names env gp st ns w = (Ok hs, w')"
    and "\<And>xs. set (gp_download_order gp xs) = set xs"
    and "names_blob gp st (objs (svc w)) n h" and "n \<in> set ns"
  shows "h \<in> hs"
proof -
  from assms(1) obtain rs ms u where
    rs: "read_each env (gp_codec gp) st (gp_download_order gp ns) w = (Ok rs, u)"
    and ms: "rs = map Inr ms" "hs = union_hashes ms"
    unfolding union_hashes_for_names_def
    by (auto elim!: io_bind_OkE simp: io_lift_def io_return_def dest!: map_r_id_Inr split: sum.splits)
  from assms(3) obtain b where b: "objs (svc w) (manifest_object st n) = Some b"
    by (auto simp: names_blob_def)
  have "n \<in> set (gp_download_order gp ns)" using assms(2,4) by simp
  from read_each_seen [OF rs this] b ms obtain m where
    "dec_manifest (gp_codec gp) b = Some m" "m\<lparr>m_name := n\<rparr> \<in> set ms"
    unfolding manifest_object_def by auto
  with union_hashes_names [OF assms(3) b] show ?thesis by (simp add: ms)
qed

lemma set_exclusive:
  "set (exclusive_hashes targets others) = (\<Union>m \<in> set targets. mp_blob_hash ` set (m_parts m)) - others"
  by (auto simp: exclusive_hashes_def)

lemma delete_target_keeps:
  assumes "snapshot_inv objs gp st c t (svc w)" and "delete_manifest env st t w = (r, w')"
  shows "snapshot_inv objs gp st c t (svc w')"
    and "r = Ok () \<Longrightarrow> objs (svc w') (manifest_object st t) = None"
proof -
  let ?m = "manifest_object st t"
  note d = assms(2) [unfolded delete_manifest_def]
  have frame: "objs (svc w') k = objs (svc w) k" if "k \<noteq> ?m" for k
    by (rule logged_frame [where Q = "\<lambda>q. q = ReqDelete ?m", OF logged_delete_object _ d])
       (use that in \<open>auto simp: manifest_object_def intro: requests_storage_ops\<close>)
  note target = delete_object_result [OF d, folded manifest_object_def]
  have "?m \<notin> kept_objects gp st c {t}" by (auto simp: kept_objects_def)
  then have "objs (svc w') k = objs (svc w) k" if "k \<in> kept_objects gp st c {t}" for k
    using frame that by metis
  moreover have "objs (svc w') (blob_object st h) = objs (svc w) (blob_object st h)" for h
    by (rule frame) simp
  ultimately show "snapshot_inv objs gp st c t (svc w')"
    using assms(1) target(1) by (auto simp: snapshot_inv_def unchanged_def)
  show "objs (svc w') ?m = None" if "r = Ok ()" by (rule target(2) [OF that])
qed

lemma gc_snapshot_keeps:
  assumes ord: "\<And>xs. set (gp_download_order gp xs) = set xs"
  shows "keeps (snapshot_inv objs gp st c t) (gc_snapshot env gp st t dry)"
    (is "keeps ?I _")
  unfolding gc_snapshot_def
proof (rule keeps_with_gc_lock)
  fix s s' assume "?I s" and same: "\<And>k. k \<noteq> lock_object st \<Longrightarrow> objs s' k = objs s k"
  moreover have "objs s' k = objs s k" if "k \<in> kept_objects gp st c {t}" for k
    using that same kept_not_lock by metis
  ultimately show "?I s'" by (simp add: snapshot_inv_def unchanged_def)
next
  have eq: "objs s = objs s' \<Longrightarrow> ?I s \<Longrightarrow> ?I s'" for s s' by (simp add: snapshot_inv_def unchanged_def)
  have others: "objs s (manifest_object st n) = c (manifest_object st n)" if "?I s" "n \<noteq> t" for s n
    using that names_blob_unchanged [of gp st c "{t}" s n] by (simp add: snapshot_inv_def)
  have act: "keeps ?I (if dry then io_return ()
      else io_bind (bail_if_lock_lost env) (\<lambda>_. io_bind (delete_manifest env st t) (\<lambda>_.
        if hs = [] then io_return ()
        else io_bind (bail_if_lock_lost env) (\<lambda>_. delete_exclusive_blobs env st hs))))"
    if free: "\<And>n h. n \<noteq> t \<Longrightarrow> names_blob gp st c n h \<Longrightarrow> h \<notin> set hs" for hs
  proof -
    let ?K = "insert (manifest_object st t) (kept_objects gp st c {t})"
    let ?J = "unchanged objs ?K (c(manifest_object st t := None))"
    have J: "?J s \<longleftrightarrow> unchanged objs (kept_objects gp st c {t}) c s \<and> objs s (manifest_object st t) = None" for s
    proof -
      have "manifest_object st t \<notin> kept_objects gp st c {t}" by (auto simp: kept_objects_def)
      then have "(c(manifest_object st t := None)) k = c k" if "k \<in> kept_objects gp st c {t}" for k
        using that by auto
      then show ?thesis by (auto simp: unchanged_def)
    qed
    have "keeps ?I (io_bind (delete_manifest env st t) (\<lambda>_. if hs = [] then io_return ()
        else io_bind (bail_if_lock_lost env) (\<lambda>_. delete_exclusive_blobs env st hs)))"
    proof (rule keeps_bind_post [where J = ?J])
      show "keeps ?I (delete_manifest env st t)"
        by (rule keepsI) (rule delete_target_keeps)
      show "?J (svc u)" if "?I (svc w)" "delete_manifest env st t w = (Ok x, u)" for w x u
        using delete_target_keeps [OF that] unfolding J by (simp add: snapshot_inv_def)
      show "keeps ?J (if hs = [] then io_return ()
        else io_bind (bail_if_lock_lost env) (\<lambda>_. delete_exclusive_blobs env st hs))" for x :: unit
        using free by (intro keeps_if keeps_pure keeps_bind keeps_bail exclusive_keeps)
          (auto simp: kept_objects_def)
      show "?I s" if "?J s" for s using that unfolding J by (simp add: snapshot_inv_def)
    qed
    note del = this
    show ?thesis by (rule keeps_if [OF keeps_pure(1) keeps_bind [OF keeps_bail del]])
  qed
  show "keeps ?I (io_bind (read_manifest env (gp_codec gp) st t) (\<lambda>target.
        io_bind (list_manifest_names env st) (\<lambda>all_names.
        let other_names = filter (\<lambda>n. n \<noteq> t) all_names in
        io_bind (union_hashes_for_names env gp st other_names) (\<lambda>other_hashes.
        let exclusive = exclusive_hashes [target] other_hashes in
        if dry then io_return ()
        else
          io_bind (bail_if_lock_lost env) (\<lambda>_.
          io_bind (delete_manifest env st t) (\<lambda>_.
          if exclusive = [] then io_return ()
          else
            io_bind (bail_if_lock_lost env) (\<lambda>_.
              delete_exclusive_blobs env st exclusive)))))))"
    unfolding Let_def
  proof (rule keeps_bind [OF _ keeps_read_bind [OF list_names_keeps eq]])
    show "keeps ?I (read_manifest env (gp_codec gp) st t)"
      by (rule keeps_read [OF read_manifest_keeps eq])
    fix target w names u
    assume i: "?I (svc w)" and names: "list_manifest_names env st w = (Ok names, u)"
    have seen: "n \<in> set names" if "names_blob gp st c n h" "n \<noteq> t" for n h
    proof (rule list_names_complete [OF names])
      show "objs (svc w) (prefixed_key st (manifest_key n)) \<noteq> None"
        using that others [OF i that(2)] by (auto simp: names_blob_def manifest_object_def)
    qed
    show "keeps ?I (io_bind (union_hashes_for_names env gp st (filter (\<lambda>n. n \<noteq> t) names)) (\<lambda>other_hashes.
        if dry then io_return ()
        else
          io_bind (bail_if_lock_lost env) (\<lambda>_.
          io_bind (delete_manifest env st t) (\<lambda>_.
          if exclusive_hashes [target] other_hashes = [] then io_return ()
          else
            io_bind (bail_if_lock_lost env) (\<lambda>_.
              delete_exclusive_blobs env st (exclusive_hashes [target] other_hashes))))))"
    proof (rule keeps_read_bind [OF union_for_names_keeps eq], assumption, assumption, rule act)
      fix w hs u n h
      assume i: "?I (svc w)" and n: "n \<noteq> t" "names_blob gp st c n h"
        and hs: "union_hashes_for_names env gp st (filter (\<lambda>n. n \<noteq> t) names) w = (Ok hs, u)"
      have "names_blob gp st (objs (svc w)) n h"
        using others [OF i n(1)] n(2) by (simp add: names_blob_def)
      from union_for_names_complete [OF hs ord this] seen n
      show "h \<notin> set (exclusive_hashes [target] hs)" by (simp add: set_exclusive)
    qed
  qed
qed

section \<open>Pruning\<close>

lemma lock_same:
  assumes "logged objs m" and "requests (lock_request st) m" and "m v = (a, v')"
  shows "same_but_lock objs st (svc v) (svc v')"
  unfolding same_but_lock_def
proof (intro allI impI)
  fix k assume "k \<noteq> lock_object st"
  then show "objs (svc v') k = objs (svc v) k"
    by (intro logged_frame [OF assms]) (use lock_request_writes in blast)
qed

text \<open>A command under the lock: it does nothing but to the lock object, or it runs its body once.\<close>

lemma with_gc_lock_runs:
  assumes "with_gc_lock env gp st f w = (r, w')"
  shows "same_but_lock objs st (svc w) (svc w') \<or>
    (\<exists>u x u'. same_but_lock objs st (svc w) (svc u) \<and> f u = (x, u') \<and>
       same_but_lock objs st (svc u') (svc w'))"
proof -
  let ?same = "\<lambda>s. same_but_lock objs st s"
  obtain a u where a: "acquire_with_retry env (gp_lock gp) st (gp_instance_id gp) 10 w = (a, u)"
    by fastforce
  have u: "?same (svc w) (svc u)"
    by (rule lock_same [OF logged_acquire_attempts requests_acquire_attempts a [unfolded acquire_with_retry_def]])
  show ?thesis
  proof (cases "\<exists>e. a = Ok (Some e)")
    case False
    with assms a have "w' = u"
      by (auto simp: with_gc_lock_def io_bind_def io_fail_def split: outcome.splits option.splits)
    with u show ?thesis by simp
  next
    case True
    obtain oc v where s: "select_guarded LockLost f u = (oc, v)" by fastforce
    then obtain x u' where f: "f (u\<lparr>guarded := True\<rparr>) = (x, u')" "svc v = svc u'"
      by (cases "f (u\<lparr>guarded := True\<rparr>)") (auto simp: select_guarded_def)
    let ?rest = "io_bind (is_lock_lost env) (\<lambda>lost.
        io_bind (if lost then io_return ()
                 else io_match (release env (gp_lock gp) st (gp_instance_id gp))
                        io_return (\<lambda>_. io_return ())) (\<lambda>_. io_result oc))"
    have "w' = v \<or> ?rest v = (r, w')"
      using assms a True s by (auto simp: with_gc_lock_def io_bind_Ok split: if_splits)
    moreover have "?same (svc v) (svc w')" if r: "?rest v = (r, w')"
    proof (rule lock_same [where m = ?rest and v = v and a = r])
      show "logged objs ?rest"
        by (intro logged_bind logged_pure logged_if logged_match logged_release)
      show "requests (lock_request st) ?rest"
        by (intro requests_bind requests_lock_lost requests_if requests_return requests_match
            requests_release) (simp add: requests_def io_result_def)
    qed (rule r)
    ultimately have "?same (svc u') (svc w')" using f(2) by (auto simp: same_but_lock_def)
    moreover have "?same (svc w) (svc (u\<lparr>guarded := True\<rparr>))" using u by simp
    ultimately show ?thesis using f(1) by blast
  qed
qed

lemma read_all_manifests_set:
  assumes "read_all_manifests env (gp_codec gp) st (gp_download_order gp) w = (Ok ms, w')"
    and "\<And>xs. set (gp_download_order gp xs) = set xs"
  shows "set ms = bucket_manifests gp st (objs (svc w))"
  using read_all_sound [OF assms(1)] read_all_complete [OF assms]
  unfolding bucket_manifests_def manifest_object_def by fastforce

lemma delete_manifests_keeps:
  assumes "\<And>n. n \<in> set ns \<Longrightarrow> manifest_object st n \<notin> K"
  shows "keeps (unchanged objs K c) (delete_manifests env st ns)"
proof (rule keeps_unchanged)
  let ?Q = "\<lambda>q. \<exists>n \<in> set ns. q = ReqDelete (manifest_object st n)"
  show "logged objs (delete_manifests env st ns)"
    by (induction ns) (auto intro!: logged_pure logged_bind logged_bail logged_match logged_delete_manifest)
  show "requests ?Q (delete_manifests env st ns)"
    by (rule requests_delete_manifests) (auto simp: manifest_object_def)
  show "writes q \<inter> K = {}" if "?Q q" for q using that assms by auto
qed

lemma prune_result:
  assumes run: "prune_old_live_snapshots env gp st retain_all retain_daily now dry w = (r, w')"
    and ord: "\<And>xs. set (gp_download_order gp xs) = set xs"
  shows "same_but_lock objs st (svc w) (svc w') \<or>
    (\<exists>ms. set ms = bucket_manifests gp st (objs (svc w)) \<and>
       unchanged objs
         (kept_objects gp st (objs (svc w)) (set (prune_names gp ms retain_all retain_daily now)))
         (objs (svc w)) (svc w'))"
proof -
  let ?same = "\<lambda>s. same_but_lock objs st s"
  define act where "act ms = (let to_prune = prune_names gp ms retain_all retain_daily now in
        if to_prune = [] then io_return ()
        else
          let targets = filter (\<lambda>m. m_name m \<in> set to_prune) ms;
              others = filter (\<lambda>m. m_name m \<notin> set to_prune) ms;
              exclusive = exclusive_hashes targets (union_hashes others)
          in
          if dry then io_return ()
          else
            io_bind (delete_manifests env st to_prune) (\<lambda>_.
            if exclusive = [] then io_return ()
            else
              io_bind (bail_if_lock_lost env) (\<lambda>_.
                delete_exclusive_blobs env st exclusive)))" for ms
  have "with_gc_lock env gp st
      (io_bind (read_all_manifests env (gp_codec gp) st (gp_download_order gp)) act) w = (r, w')"
    using run unfolding prune_old_live_snapshots_def act_def prune_names_def Let_def by simp
  from with_gc_lock_runs [OF this] show ?thesis
  proof
    assume "\<exists>u x u'. ?same (svc w) (svc u) \<and>
      io_bind (read_all_manifests env (gp_codec gp) st (gp_download_order gp)) act u = (x, u') \<and>
      ?same (svc u') (svc w')"
    then obtain u x u' where u: "?same (svc w) (svc u)" and w': "?same (svc u') (svc w')"
      and x: "io_bind (read_all_manifests env (gp_codec gp) st (gp_download_order gp)) act u = (x, u')"
      by blast
    obtain a v where a: "read_all_manifests env (gp_codec gp) st (gp_download_order gp) u = (a, v)"
      by fastforce
    have v: "objs (svc v) = objs (svc u)" by (rule keepsD [OF read_all_keeps _ a]) simp
    show ?thesis
    proof (cases "\<exists>ms. a = Ok ms")
      case False
      with x a have "u' = v" by (auto simp: io_bind_def split: outcome.splits)
      with u v w' have "?same (svc w) (svc w')" by (simp add: same_but_lock_def)
      then show ?thesis ..
    next
      case True
      then obtain ms where ms: "a = Ok ms" ..
      have m: "objs (svc u) (manifest_object st n) = objs (svc w) (manifest_object st n)" for n
        using u by (simp add: same_but_lock_def)
      have set_ms: "set ms = bucket_manifests gp st (objs (svc w))"
        using read_all_manifests_set [OF a [unfolded ms] ord] by (simp add: bucket_manifests_def m)
      let ?c = "objs (svc w)"
      let ?K = "kept_objects gp st ?c (set (prune_names gp ms retain_all retain_daily now))"
      have nolock: "k \<noteq> lock_object st" if "k \<in> ?K" for k using that kept_not_lock by metis
      have "h \<in> union_hashes (filter (\<lambda>m. m_name m \<notin> R) ms)"
        if n: "n \<notin> R" and h: "names_blob gp st ?c n h" for n h R
      proof -
        from h obtain b m where b: "?c (manifest_object st n) = Some b"
          "dec_manifest (gp_codec gp) b = Some m" by (auto simp: names_blob_def)
        then have "m\<lparr>m_name := n\<rparr> \<in> set ms" unfolding set_ms bucket_manifests_def by blast
        with n have "m\<lparr>m_name := n\<rparr> \<in> set (filter (\<lambda>m. m_name m \<notin> R) ms)" by simp
        with union_hashes_names [OF h b] show ?thesis by simp
      qed
      then have "keeps (unchanged objs ?K ?c) (act ms)"
        unfolding act_def Let_def
        by (intro keeps_if keeps_pure keeps_bind keeps_bail delete_manifests_keeps exclusive_keeps)
           (auto simp: kept_objects_def set_exclusive)
      moreover have "unchanged objs ?K ?c (svc v)"
        using u nolock by (simp add: unchanged_def v same_but_lock_def)
      moreover have "act ms v = (x, u')" using x a ms by (simp add: io_bind_def)
      ultimately have "unchanged objs ?K ?c (svc u')" by (rule keepsD)
      then have "unchanged objs ?K ?c (svc w')"
        using w' nolock by (simp add: unchanged_def same_but_lock_def)
      with set_ms show ?thesis by blast
    qed
  qed simp
qed

end

end
