(* ===== verification/Mem_Bucket.thy ===== *)
theory Mem_Bucket
  imports Bucket
begin

text \<open>
  A bucket in memory: objects with their modification times, conditional puts answered with 412,
  listings in pages of 1000 keys, deletions refused for the keys a policy protects, and a clock
  that sleeping advances. It satisfies the laws of \<open>s3\_bucket\<close>, so the theorems that rest on them
  are about something; the witnesses run on it.
\<close>

record mem =
  mem_objs :: "(string \<times> bytes \<times> int) list"
  mem_now :: int
  mem_parts :: "(string \<times> nat \<times> bytes) list"

definition mem_lookup :: "'z mem_scheme \<Rightarrow> string \<Rightarrow> bytes option" where
  "mem_lookup s k = map_option fst (map_of (mem_objs s) k)"

definition mem_put ::
  "string \<Rightarrow> bytes \<Rightarrow> string option \<Rightarrow> bool \<Rightarrow> ('z mem_scheme, string option) sdk_call"
where
  "mem_put k d if_match if_none_match s =
     (let failed = (ServiceError (Some ''PreconditionFailed'') 412 False);
          refused = (case mem_lookup s k of
             None \<Rightarrow> if_match \<noteq> None
           | Some b \<Rightarrow> if_none_match \<or> (if_match \<noteq> None \<and> if_match \<noteq> Some (of_bytes b)))
      in if refused then (Inl failed, s)
         else (Inr (Some (of_bytes d)), s\<lparr>mem_objs := (k, d, mem_now s) # mem_objs s\<rparr>))"

definition mem_remove :: "string set \<Rightarrow> 'z mem_scheme \<Rightarrow> 'z mem_scheme" where
  "mem_remove K s = s\<lparr>mem_objs := filter (\<lambda>x. fst x \<notin> K) (mem_objs s)\<rparr>"

definition access_denied :: sdk_error where
  "access_denied = ServiceError (Some ''AccessDenied'') 403 False"

definition mem_matching :: "'z mem_scheme \<Rightarrow> string \<Rightarrow> string option \<Rightarrow> (string \<times> bytes \<times> int) list" where
  "mem_matching s p t =
     (let xs = filter (\<lambda>x. starts_with p (fst x)) (mem_objs s)
      in case t of None \<Rightarrow> xs | Some k \<Rightarrow> tl (dropWhile (\<lambda>x. fst x \<noteq> k) xs))"

definition mem_list :: "string \<Rightarrow> string option \<Rightarrow> ('z mem_scheme, list_page) sdk_call" where
  "mem_list p t s =
     (let xs = mem_matching s p t;
          page = take 1000 xs
      in (Inr \<lparr>lp_contents = map (\<lambda>(k, b, m). \<lparr>le_key = Some k, le_size = Some (word_of_nat (length b)),
                 le_modified = Some m\<rparr>) page,
               lp_next = (if length xs \<le> 1000 then None else Some (fst (last page)))\<rparr>, s))"

text \<open>Multipart uploads: the upload id is the key; completing stores the named parts in order.\<close>

definition mem_complete :: "string \<Rightarrow> string \<Rightarrow> completed_part list \<Rightarrow> ('z mem_scheme, unit) sdk_call" where
  "mem_complete k i ps s =
     (let data = concat (map (\<lambda>p. case map_of (map snd (filter (\<lambda>x. fst x = i) (mem_parts s))) (cp_number p) of
                Some d \<Rightarrow> d | None \<Rightarrow> []) ps)
      in (Inr (), s\<lparr>mem_objs := (k, data, mem_now s) # mem_objs s,
                    mem_parts := filter (\<lambda>x. fst x \<noteq> i) (mem_parts s)\<rparr>))"

definition mem_remaining :: "'z mem_scheme \<Rightarrow> string \<Rightarrow> string option \<Rightarrow> string set" where
  "mem_remaining s p t = fst ` set (mem_matching s p t)"

definition mem_env :: "string set \<Rightarrow> 'z mem_scheme env" where
  "mem_env protected = null_env\<lparr>
     s3_head := \<lambda>k s. (case mem_lookup s k of
         None \<Rightarrow> Inl (ServiceError (Some ''NotFound'') 404 True)
       | Some b \<Rightarrow> Inr (Some (word_of_nat (length b))), s),
     s3_create_multipart := \<lambda>k s. (Inr (Some k), s\<lparr>mem_parts := filter (\<lambda>x. fst x \<noteq> k) (mem_parts s)\<rparr>),
     s3_upload_part := \<lambda>k i n d c s.
       (Inr \<lparr>up_etag = None, up_crc32 = Some c\<rparr>, s\<lparr>mem_parts := (i, n, d) # mem_parts s\<rparr>),
     s3_complete := mem_complete,
     s3_abort := \<lambda>k i s. (Inr (), s\<lparr>mem_parts := filter (\<lambda>x. fst x \<noteq> i) (mem_parts s)\<rparr>),
     s3_get := \<lambda>k s. (case mem_lookup s k of
         None \<Rightarrow> Inl (ServiceError (Some ''NoSuchKey'') 404 True)
       | Some b \<Rightarrow> Inr (Some b), s),
     s3_put := mem_put,
     s3_delete := \<lambda>k s. (if k \<in> protected then (Inl access_denied, s) else (Inr (), mem_remove {k} s)),
     s3_delete_objects := \<lambda>ks s.
       (Inr (map (\<lambda>k. (Some k, Some ''AccessDenied'')) (filter (\<lambda>k. k \<in> protected) ks)),
        mem_remove (set ks - protected) s),
     s3_list := mem_list,
     clock_ns := mem_now,
     do_sleep := \<lambda>ms s. s\<lparr>mem_now := mem_now s + int ms * 1000000\<rparr>\<rparr>"

lemma mem_env_simps [simp]:
  "s3_head (mem_env P) k s = (case mem_lookup s k of
         None \<Rightarrow> Inl (ServiceError (Some ''NotFound'') 404 True)
       | Some b \<Rightarrow> Inr (Some (word_of_nat (length b))), s)"
  "s3_create_multipart (mem_env P) k s =
     (Inr (Some k), s\<lparr>mem_parts := filter (\<lambda>x. fst x \<noteq> k) (mem_parts s)\<rparr>)"
  "s3_upload_part (mem_env P) k i n d c s =
     (Inr \<lparr>up_etag = None, up_crc32 = Some c\<rparr>, s\<lparr>mem_parts := (i, n, d) # mem_parts s\<rparr>)"
  "s3_complete (mem_env P) = mem_complete"
  "s3_abort (mem_env P) k i s =
     (Inr (), s\<lparr>mem_parts := filter (\<lambda>x. fst x \<noteq> i) (mem_parts s)\<rparr>)"
  "s3_get (mem_env P) k s = (case mem_lookup s k of
         None \<Rightarrow> Inl (ServiceError (Some ''NoSuchKey'') 404 True)
       | Some b \<Rightarrow> Inr (Some b), s)"
  "s3_put (mem_env P) = mem_put"
  "s3_delete (mem_env P) k s = (if k \<in> P then (Inl access_denied, s) else (Inr (), mem_remove {k} s))"
  "s3_delete_objects (mem_env P) ks s =
       (Inr (map (\<lambda>k. (Some k, Some ''AccessDenied'')) (filter (\<lambda>k. k \<in> P) ks)),
        mem_remove (set ks - P) s)"
  "s3_list (mem_env P) = mem_list"
  "clock_ns (mem_env P) = mem_now"
  "do_sleep (mem_env P) ms s = s\<lparr>mem_now := mem_now s + int ms * 1000000\<rparr>"
  "preempt (mem_env P) s = False"
  "lock_lost (mem_env P) s = False"
  "page_fuel (mem_env P) = 2"
  "rand_upto (mem_env P) m s = 0"
  by (simp_all add: mem_env_def null_env_def)

lemma mem_lookup_remove [simp]: "mem_lookup (mem_remove K s) k = (if k \<in> K then None else mem_lookup s k)"
proof -
  have "map_of (filter (\<lambda>x. fst x \<notin> K) xs) k = (if k \<in> K then None else map_of xs k)"
    for xs :: "(string \<times> bytes \<times> int) list"
    by (induction xs) auto
  then show ?thesis by (simp add: mem_lookup_def mem_remove_def)
qed

lemma mem_lookup_now [simp]:
  "mem_lookup (s\<lparr>mem_now := t\<rparr>) = mem_lookup s" "mem_lookup (s\<lparr>mem_parts := ps\<rparr>) = mem_lookup s"
  by (rule ext, simp add: mem_lookup_def)+

lemma mem_lookup_complete [simp]:
  "fst (mem_complete k i ps s) = Inr ()"
  "mem_lookup (snd (mem_complete k i ps s)) k' =
     (if k' = k then Some (concat (map (\<lambda>p. case map_of (map snd (filter (\<lambda>x. fst x = i) (mem_parts s)))
        (cp_number p) of Some d \<Rightarrow> d | None \<Rightarrow> []) ps)) else mem_lookup s k')"
  by (simp_all add: mem_complete_def mem_lookup_def)

lemma mem_page:
  fixes xs ys :: "(string \<times> bytes \<times> int) list"
  assumes suffix: "ys = zs @ xs" and n: "0 < n"
  shows "set xs \<subseteq> set (take n xs) \<union> set (if length xs \<le> n then [] else
     tl (dropWhile (\<lambda>x. fst x \<noteq> fst (last (take n xs))) ys))"
proof (cases "length xs \<le> n")
  case False
  let ?p = "take n xs" and ?r = "drop n xs"
  have p: "?p \<noteq> []" using False n by auto
  have ys: "ys = (zs @ butlast ?p) @ last ?p # ?r"
    using suffix p by (metis append.assoc append_Cons append_Nil append_butlast_last_id append_take_drop_id)
  have "set ?r \<subseteq> set (tl (dropWhile (\<lambda>x. fst x \<noteq> fst (last ?p)) ys))"
  proof -
    have "set r \<subseteq> set (tl (dropWhile (\<lambda>x. fst x \<noteq> fst l) (a @ l # r)))"
      for a r and l :: "string \<times> bytes \<times> int"
      by (induction a) auto
    from this [of ?r "last ?p" "zs @ butlast ?p"] show ?thesis unfolding ys .
  qed
  moreover have "set xs = set ?p \<union> set ?r" by (metis append_take_drop_id set_append)
  ultimately show ?thesis using False by auto
qed simp

lemma mem_matching_Some:
  "mem_matching s p (Some k) = tl (dropWhile (\<lambda>x. fst x \<noteq> k) (mem_matching s p None))"
  by (simp add: mem_matching_def)

lemma mem_put_frame: "k' \<noteq> k \<Longrightarrow> mem_lookup (snd (mem_put k d im inm s)) k' = mem_lookup s k'"
  by (simp add: mem_put_def Let_def mem_lookup_def)

lemma mem_put_done: "mem_put k d im inm s = (Inr e, s') \<Longrightarrow> mem_lookup s' k = Some d"
  unfolding mem_put_def Let_def by (auto simp: mem_lookup_def simp del: if_split_asm split: if_splits)

lemma mem_put_none:
  "mem_lookup s k = Some b \<Longrightarrow> mem_lookup (snd (mem_put k d im True s)) k = Some b"
  by (simp add: mem_put_def Let_def)

lemma mem_put_none_done: "mem_put k d im True s = (Inr e, s') \<Longrightarrow> mem_lookup s k = None"
  by (cases "mem_lookup s k") (simp_all add: mem_put_def Let_def)

lemma mem_list_state: "snd (mem_list p t s) = s"
  by (simp add: mem_list_def Let_def)

interpretation mem: s3_bucket "mem_env P" mem_lookup mem_remaining for P
proof
  fix p t page s s'
  assume r: "s3_list (mem_env P) p t s = (Inr page, s')"
  let ?xs = "mem_matching s p t" and ?ys = "mem_matching s p None"
  have "\<exists>zs. ?ys = zs @ ?xs"
  proof (cases t)
    case (Some k)
    have "\<exists>a. ys = a @ tl (dropWhile f ys)" for ys :: "(string \<times> bytes \<times> int) list" and f
    proof (cases "dropWhile f ys")
      case (Cons x xs)
      with takeWhile_dropWhile_id [of f ys] show ?thesis
        by (intro exI [of _ "takeWhile f ys @ [x]"]) simp
    next
      case Nil
      then show ?thesis by (intro exI [of _ ys]) (simp only: Nil list.sel append_Nil2)
    qed
    with Some show ?thesis by (simp add: mem_matching_Some)
  qed simp
  then obtain zs where zs: "?ys = zs @ ?xs" ..
  let ?next = "if length ?xs \<le> 1000 then [] else
     tl (dropWhile (\<lambda>x. fst x \<noteq> fst (last (take 1000 ?xs))) ?ys)"
  have sub: "set ?xs \<subseteq> set (take 1000 ?xs) \<union> set ?next" using mem_page [OF zs, of 1000] by simp
  have s': "s' = s" using r by (auto simp: mem_list_def Let_def)
  have keys: "{k. \<exists>e \<in> set (lp_contents page). le_key e = Some k} = fst ` set (take 1000 ?xs)"
    using r by (force simp: mem_list_def Let_def image_iff)
  have rest: "(case lp_next page of None \<Rightarrow> {} | Some t' \<Rightarrow> mem_remaining s p (Some t')) = fst ` set ?next"
  proof -
    have "lp_next page = (if length ?xs \<le> 1000 then None else Some (fst (last (take 1000 ?xs))))"
      using r by (auto simp: mem_list_def Let_def)
    then show ?thesis by (simp add: mem_remaining_def mem_matching_Some)
  qed
  show "mem_remaining s p t \<subseteq> {k. \<exists>e \<in> set (lp_contents page). le_key e = Some k} \<union>
        (case lp_next page of None \<Rightarrow> {} | Some t' \<Rightarrow> mem_remaining s' p (Some t'))"
    unfolding s' keys rest unfolding mem_remaining_def
    using image_mono [OF sub, of fst] by (simp only: image_Un)
next
  fix s k p assume "mem_lookup s k \<noteq> None" "starts_with p k"
  then show "k \<in> mem_remaining s p None"
    by (auto simp: mem_lookup_def mem_remaining_def mem_matching_def image_iff dest: map_of_SomeD)
next
  fix k s b s' assume "s3_get (mem_env P) k s = (Inr (Some b), s')"
  then show "mem_lookup s k = Some b" by (auto split: option.splits)
next
  fix k s s' assume "s3_delete (mem_env P) k s = (Inr (), s')"
  then show "mem_lookup s' k = None" by (auto split: if_splits)
qed (simp_all add: mem_put_frame mem_put_done mem_put_none mem_put_none_done mem_list_state)

lemma mem_put_cases: "mem_lookup (snd (mem_put k d im inm s)) k \<in> {mem_lookup s k, Some d}"
  by (simp add: mem_put_def Let_def mem_lookup_def)

interpretation mem: upload_bucket "mem_env P" mem_lookup mem_remaining for P
proof
  fix k s n s' assume "s3_head (mem_env P) k s = (Inr n, s')"
  then show "mem_lookup s k \<noteq> None" by (auto split: option.splits)
next
  fix k i ps s s' assume "s3_complete (mem_env P) k i ps s = (Inr (), s')"
  then have "s' = snd (mem_complete k i ps s)" by simp
  then show "mem_lookup s' k \<noteq> None" by simp
next
  fix k d im inm s
  show "mem_lookup (snd (s3_put (mem_env P) k d im inm s)) k \<in> {mem_lookup s k, Some d}"
    using mem_put_cases by simp
qed simp_all

end
