(* ===== verification/Gc_Lock_Theorems.thy ===== *)
theory Gc_Lock_Theorems
  imports Gc_Safety Mem_Bucket
begin

text \<open>
  Theorems about the lock of \<open>src/gc/lock.rs\<close>: a lock that has not expired cannot be taken, and
  without it no command does anything.
\<close>

section \<open>A held lock\<close>

context s3_bucket
begin

lemma try_put_held:
  assumes "objs (svc w) (lock_object st) = Some b" and "try_put env lc st i w = (r, w')"
  shows "(\<forall>e. r \<noteq> Ok (Some e)) \<and> objs (svc w') (lock_object st) = Some b"
proof -
  obtain now u where now: "now_epoch_secs env w = (Ok now, u)" "svc u = svc w"
    by (simp add: now_epoch_secs_def clock_def io_bind_def io_return_def)
  let ?b = "enc_lock lc (new_lock_info lc i now)"
  let ?q = "ReqPut (lock_object st) ?b None True"
  let ?call = "s3_put env (lock_object st) ?b None True"
  have put: "put_object_conditional env st LOCK_KEY ?b None True = io_bind (await env ?q ?call) (\<lambda>r.
      case r of Inr etag \<Rightarrow> io_return (case etag of Some t \<Rightarrow> t | None \<Rightarrow> [], False)
        | Inl e \<Rightarrow> if is_precondition_failed e then io_return ([], True) else io_fail (S3Failure e))"
    by (simp add: put_object_conditional_def lock_object_def Let_def)
  obtain a v where a: "await env ?q ?call u = (a, v)" by fastforce
  have run: "io_bind (put_object_conditional env st LOCK_KEY ?b None True)
      (\<lambda>(etag, conflict). io_return (if \<not> conflict then Some etag else None)) u = (r, w')"
    using assms(2) now(1) unfolding try_put_def Let_def by (simp add: io_bind_Ok)
  have held: "objs (svc v) (lock_object st) = Some b"
    using a put_if_none [of "svc u" "lock_object st" b ?b None] assms(1) now(2)
    by (auto simp: await_def split: if_splits prod.splits)
  have refused: "a \<noteq> Ok (Inr t)" for t
  proof
    assume "a = Ok (Inr t)"
    from await_svc [OF a [unfolded this]] put_if_none_done assms(1) now(2) show False by fastforce
  qed
  have "w' = v" and "\<forall>e. r \<noteq> Ok (Some e)"
    using run a refused unfolding put
    by (auto simp: io_bind_def io_return_def io_fail_def split: outcome.splits sum.splits if_splits)
  with held show ?thesis by simp
qed

lemma acquire_held:
  assumes "objs (svc w) (lock_object st) = Some b" and "dec_lock lc b = Some li"
    and "\<And>s. \<not> is_expired (epoch_secs (clock_ns env s)) li" and "acquire env lc st i w = (r, w')"
  shows "(\<forall>e. r \<noteq> Ok (Some e)) \<and> objs (svc w') (lock_object st) = Some b"
proof -
  obtain a u where a: "try_put env lc st i w = (a, u)" by fastforce
  note tp = try_put_held [OF assms(1) a]
  show ?thesis
  proof (cases "a = Ok None")
    case False
    with tp assms(4) a show ?thesis by (auto simp: acquire_def io_bind_def split: outcome.splits option.splits)
  next
    case True
    obtain g v where g: "get_object env st LOCK_KEY u = (g, v)" by fastforce
    have ov: "objs (svc v) = objs (svc u)" by (rule keepsD [OF get_object_keeps _ g]) simp
    have run: "io_match (get_object env st LOCK_KEY)
        (\<lambda>data. case dec_lock lc data of None \<Rightarrow> break_stale env lc st i
           | Some existing \<Rightarrow> io_bind (now_epoch_secs env) (\<lambda>now.
               if is_expired now existing then break_stale env lc st i else io_return None))
        (\<lambda>_. try_put env lc st i) u = (r, w')"
      using assms(4) a True by (simp add: acquire_def io_bind_def)
    show ?thesis
    proof (cases g)
      case (Ok data)
      have "objs (svc u) (lock_object st) = Some data"
        using get_object_Ok(1) [OF g [unfolded Ok]] by (simp add: lock_object_def)
      with tp have "data = b" by simp
      with run g Ok assms(2,3) tp ov show ?thesis
        by (auto simp: io_match_def io_bind_def io_return_def now_epoch_secs_def clock_def)
    next
      case (Err e)
      with run g have "try_put env lc st i v = (r, w')" by (simp add: io_match_def)
      then show ?thesis by (intro try_put_held) (simp_all add: ov tp)
    qed (use run g tp ov in \<open>auto simp: io_match_def\<close>)
  qed
qed

lemma acquire_attempts_held:
  assumes "objs (svc w) (lock_object st) = Some b" and "dec_lock lc b = Some li"
    and "\<And>s. \<not> is_expired (epoch_secs (clock_ns env s)) li"
    and "acquire_attempts env lc st i m ns w = (r, w')"
  shows "(\<forall>e. r \<noteq> Ok (Some e)) \<and> objs (svc w') (lock_object st) = Some b"
  using assms(1,4)
proof (induction ns arbitrary: w)
  case Nil
  then show ?case by (auto simp: io_return_def)
next
  case (Cons n ns)
  obtain a u where a: "acquire env lc st i w = (a, u)" by fastforce
  note u = acquire_held [OF Cons.prems(1) assms(2,3) a]
  have again: ?case if "io_bind (sleep env ms) (\<lambda>_. acquire_attempts env lc st i m ns) u = (r, w')" for ms
  proof -
    obtain x v where x: "sleep env ms u = (x, v)" by fastforce
    have v: "objs (svc v) = objs (svc u)"
      using x by (auto simp: sleep_def await_def sleep_frame split: if_splits)
    show ?thesis
    proof (cases x)
      case (Ok y)
      with that x have "acquire_attempts env lc st i m ns v = (r, w')" by (simp add: io_bind_def)
      then show ?thesis by (intro Cons.IH) (simp_all add: v u)
    qed (use that x v u in \<open>auto simp: io_bind_def\<close>)
  qed
  show ?case
  proof (cases a)
    case (Ok y)
    with u Cons.prems(2) a again show ?thesis
      by (cases y) (auto simp: io_match_def io_return_def split: if_splits)
  next
    case (Err e)
    with u Cons.prems(2) a again show ?thesis
      by (auto simp: io_match_def io_fail_def split: if_splits)
  qed (use u Cons.prems(2) a in \<open>auto simp: io_match_def\<close>)
qed

end

section \<open>The theorems\<close>

text \<open>
  C17. A lock that has not expired cannot be taken: as long as it stays unexpired, no run of the
  acquisition, with any number of attempts, any failing calls and any pauses, returns the lock, and
  the lock object is left as its holder wrote it.
\<close>

theorem lock_exclusion:
  assumes "s3_bucket env objs remaining" and "objs (svc w) (lock_object st) = Some b"
    and "dec_lock lc b = Some li" and "\<And>s. \<not> is_expired (epoch_secs (clock_ns env s)) li"
    and "acquire_with_retry env lc st i m w = (r, w')"
  shows "(\<forall>e. r \<noteq> Ok (Some e)) \<and> objs (svc w') (lock_object st) = Some b"
  by (rule s3_bucket.acquire_attempts_held
      [OF assms(1-4) assms(5) [unfolded acquire_with_retry_def]])

definition long_lock :: lock_info where
  "long_lock = \<lparr>li_instance_id = ''other'', li_hostname = [], li_acquired_at = 0x7FFFFFFFFFFFFFFF,
     li_ttl_secs = 0\<rparr>"

lemma long_lock_valid [simp]: "\<not> is_expired now long_lock"
proof -
  have "sint now \<le> 2 ^ 63 - 1" using sint_less [of now] by simp
  moreover have "sint (0x7FFFFFFFFFFFFFFF :: i64) = 2 ^ 63 - 1" by simp
  ultimately show ?thesis by (simp add: is_expired_def long_lock_def del: sint_numeral)
qed

definition held_codec :: lock_codec where
  "held_codec = \<lparr>enc_lock = \<lambda>l. [9], dec_lock = \<lambda>b. Some long_lock, this_host = []\<rparr>"

lemma held_codec_simps [simp]: "enc_lock held_codec l = [9]" "dec_lock held_codec b = Some long_lock"
  "this_host held_codec = []"
  by (simp_all add: held_codec_def)

definition held_bucket :: mem where
  "held_bucket = \<lparr>mem_objs = [(lock_object plain_storage, [5], 0)], mem_now = 0, mem_parts = []\<rparr>"

lemma held_lookup [simp]: "mem_lookup held_bucket (lock_object plain_storage) = Some [5]"
  by (simp add: mem_lookup_def held_bucket_def)

theorem lock_exclusion_witness:
  "(\<forall>e. fst (acquire_with_retry (mem_env {}) held_codec plain_storage ''i'' 3 (start_world held_bucket)) \<noteq> Ok (Some e)) \<and>
   mem_lookup (svc (snd (acquire_with_retry (mem_env {}) held_codec plain_storage ''i'' 3 (start_world held_bucket))))
     (lock_object plain_storage) = Some [5]"
proof -
  obtain r w' where e: "acquire_with_retry (mem_env {}) held_codec plain_storage ''i'' 3
      (start_world held_bucket) = (r, w')" by fastforce
  from lock_exclusion [OF mem.s3_bucket_axioms, of "start_world held_bucket" plain_storage "[5]"
      held_codec long_lock "{}" "''i''" 3 r w'] e show ?thesis
    by (simp add: start_world_def)
qed

end
