(* ===== verification/Gc_Theorems.thy ===== *)
theory Gc_Theorems
  imports Gc_Lock_Theorems
begin

text \<open>
  The theorems about garbage collection: no command deletes what a remaining manifest names, a dry
  run deletes nothing, nothing happens without the lock, young blobs are spared.
\<close>

section \<open>What stays\<close>

text \<open>
  C5. The full collection is safe. In a bucket nobody else changes, however the run ends (success,
  error, panic, loss of the lock) and whatever calls fail, every manifest is as it was, and so is
  every blob that a manifest of the bucket names.
\<close>

theorem gc_all_safe:
  assumes "s3_bucket env objs remaining" and "\<And>xs. set (gp_download_order gp xs) = set xs"
    and "gc_all_blobs env gp st dry grace w = (r, w')"
  shows "(\<forall>n. objs (svc w') (manifest_object st n) = objs (svc w) (manifest_object st n)) \<and>
    (\<forall>n h. names_blob gp st (objs (svc w)) n h \<longrightarrow>
      objs (svc w') (blob_object st h) = objs (svc w) (blob_object st h))"
proof -
  have "unchanged objs (kept_objects gp st (objs (svc w)) {}) (objs (svc w)) (svc w)"
    by (simp add: unchanged_def)
  from keepsD [OF s3_bucket.gc_all_keeps [OF assms(1,2)] this assms(3)] show ?thesis
    by (auto simp: unchanged_def kept_objects_def)
qed

text \<open>A bucket with one manifest, which names one blob.\<close>

definition demo_hash :: string where "demo_hash = replicate 32 CHR ''a''"

definition demo_manifest :: manifest where
  "demo_manifest = \<lparr>m_name = ''live_1'', m_timestamp = 0, m_shard = [], m_replica = [], m_created_by = [],
     m_parts = [\<lparr>mp_database = [], mp_table_name = [], mp_part_name = [], mp_blob_hash = demo_hash,
       mp_blob_size = 1\<rparr>], m_files = []\<rparr>"

definition demo_gp :: gc_params where
  "demo_gp = \<lparr>gp_codec = \<lparr>enc_manifest = \<lambda>m. Some [1],
       dec_manifest = \<lambda>b. if b = [1] then Some demo_manifest else None,
       fmt_timestamp = \<lambda>t. [], utc_day = \<lambda>t. None, date_in_range = \<lambda>t. True\<rparr>,
     gp_lock = \<lparr>enc_lock = \<lambda>l. [9], dec_lock = \<lambda>b. None, this_host = []\<rparr>,
     gp_instance_id = ''i'', gp_shard_order = [170], gp_download_order = \<lambda>ns. ns\<rparr>"

definition demo_bucket :: mem where
  "demo_bucket = \<lparr>mem_objs = [(manifest_object plain_storage ''live_1'', [1], 0),
     (blob_object plain_storage demo_hash, [7], 0)], mem_now = 10 ^ 18, mem_parts = []\<rparr>"

lemma demo_lookup [simp]:
  "mem_lookup demo_bucket (manifest_object plain_storage ''live_1'') = Some [1]"
  "mem_lookup demo_bucket (blob_object plain_storage demo_hash) = Some [7]"
  by (simp_all add: mem_lookup_def demo_bucket_def)

lemma demo_gp_simps [simp]:
  "gp_download_order demo_gp ns = ns" "gp_shard_order demo_gp = [170]"
  "gp_instance_id demo_gp = ''i''"
  "dec_manifest (gp_codec demo_gp) b = (if b = [1] then Some demo_manifest else None)"
  "date_in_range (gp_codec demo_gp) d" "utc_day (gp_codec demo_gp) ts = None"
  "enc_lock (gp_lock demo_gp) l = [9]" "dec_lock (gp_lock demo_gp) b = None"
  "this_host (gp_lock demo_gp) = []"
  by (simp_all add: demo_gp_def)

lemma demo_names:
  "names_blob demo_gp plain_storage (mem_lookup demo_bucket) ''live_1'' demo_hash"
  by (simp add: names_blob_def demo_manifest_def)

theorem gc_all_safe_witness:
  "mem_lookup (svc (snd (gc_all_blobs (mem_env {}) demo_gp plain_storage False 6 (start_world demo_bucket))))
     (blob_object plain_storage demo_hash) = Some [7]"
proof -
  obtain r w' where e: "gc_all_blobs (mem_env {}) demo_gp plain_storage False 6 (start_world demo_bucket) = (r, w')"
    by fastforce
  from gc_all_safe [OF mem.s3_bucket_axioms _ e] demo_names e show ?thesis
    by (simp add: start_world_def)
qed

text \<open>
  C6. Removing a snapshot is safe: the manifests of the others and the blobs they name are as they
  were; and it never leaves a manifest without its blobs: whatever manifest stands afterwards, the
  removed one included when its deletion failed, all blobs it names are as they were.
\<close>

theorem gc_snapshot_safe:
  assumes "s3_bucket env objs remaining" and "\<And>xs. set (gp_download_order gp xs) = set xs"
    and "gc_snapshot env gp st t dry w = (r, w')"
  shows "(\<forall>n. n \<noteq> t \<longrightarrow>
      objs (svc w') (manifest_object st n) = objs (svc w) (manifest_object st n)) \<and>
    (\<forall>n h. names_blob gp st (objs (svc w')) n h \<longrightarrow>
      names_blob gp st (objs (svc w)) n h \<and>
      objs (svc w') (blob_object st h) = objs (svc w) (blob_object st h))"
proof -
  have "snapshot_inv objs gp st (objs (svc w)) t (svc w)"
    by (simp add: snapshot_inv_def unchanged_def)
  note inv = keepsD [OF s3_bucket.gc_snapshot_keeps [OF assms(1,2)] this assms(3)]
  have others: "objs (svc w') (manifest_object st n) = objs (svc w) (manifest_object st n)"
    if "n \<noteq> t" for n
    using inv that by (auto simp: snapshot_inv_def unchanged_def kept_objects_def)
  have "names_blob gp st (objs (svc w)) n h \<and>
      objs (svc w') (blob_object st h) = objs (svc w) (blob_object st h)"
    if n: "names_blob gp st (objs (svc w')) n h" for n h
  proof (cases "n = t")
    case True
    with n inv show ?thesis by (auto simp: names_blob_def snapshot_inv_def)
  next
    case False
    with n others have "names_blob gp st (objs (svc w)) n h" by (simp add: names_blob_def)
    moreover from this False have "blob_object st h \<in> kept_objects gp st (objs (svc w)) {t}"
      by (auto simp: kept_objects_def)
    ultimately show ?thesis using inv by (simp add: snapshot_inv_def unchanged_def)
  qed
  with others show ?thesis by blast
qed

theorem gc_snapshot_safe_witness:
  "mem_lookup (svc (snd (gc_snapshot (mem_env {}) demo_gp plain_storage ''live_2'' False (start_world demo_bucket))))
     (blob_object plain_storage demo_hash) = Some [7]"
proof -
  obtain r w' where e: "gc_snapshot (mem_env {}) demo_gp plain_storage ''live_2'' False (start_world demo_bucket) = (r, w')"
    by fastforce
  from gc_snapshot_safe [OF mem.s3_bucket_axioms _ e] have
    "mem_lookup (svc w') (manifest_object plain_storage ''live_1'') = Some [1]"
    "names_blob demo_gp plain_storage (mem_lookup (svc w')) n h \<longrightarrow>
       mem_lookup (svc w') (blob_object plain_storage h) = mem_lookup demo_bucket (blob_object plain_storage h)"
    for n h by (simp_all add: start_world_def)
  from this(1) this(2) [of "''live_1''" demo_hash] e show ?thesis
    by (simp add: names_blob_def demo_manifest_def)
qed

text \<open>
  C7. Pruning is safe: either nothing but the lock changes, or the manifests were all read and every
  manifest outside the prune set of what was read, and every blob such a manifest names, is as it was.
\<close>

theorem prune_safe:
  assumes "s3_bucket env objs remaining" and "\<And>xs. set (gp_download_order gp xs) = set xs"
    and "prune_old_live_snapshots env gp st retain_all retain_daily now dry w = (r, w')"
  shows "(\<forall>k. k \<noteq> lock_object st \<longrightarrow> objs (svc w') k = objs (svc w) k) \<or>
    (\<exists>ms. set ms = bucket_manifests gp st (objs (svc w)) \<and>
       (\<forall>n. n \<notin> set (prune_names gp ms retain_all retain_daily now) \<longrightarrow>
          objs (svc w') (manifest_object st n) = objs (svc w) (manifest_object st n) \<and>
          (\<forall>h. names_blob gp st (objs (svc w)) n h \<longrightarrow>
             objs (svc w') (blob_object st h) = objs (svc w) (blob_object st h))))"
  using s3_bucket.prune_result [OF assms(1,3,2)]
  unfolding same_but_lock_def unchanged_def kept_objects_def by fast

theorem prune_safe_witness:
  "mem_lookup (svc (snd (prune_old_live_snapshots (mem_env {}) demo_gp plain_storage 60 None 3000 False
      (start_world demo_bucket)))) (blob_object plain_storage demo_hash) = Some [7]"
proof -
  let ?c = "mem_lookup demo_bucket"
  obtain r w' where e: "prune_old_live_snapshots (mem_env {}) demo_gp plain_storage 60 None 3000 False
      (start_world demo_bucket) = (r, w')" by fastforce
  have ts: "m_timestamp m = 0" if "m \<in> bucket_manifests demo_gp plain_storage ?c" for m
    using that by (auto simp: bucket_manifests_def demo_manifest_def split: if_splits)
  have "''live_1'' \<notin> set (prune_names demo_gp ms 60 None 3000)"
    if "set ms = bucket_manifests demo_gp plain_storage ?c" for ms
    using that ts by (auto simp: prune_names_def compute_prune_set_def Let_def i64_minutes_def)
  then show ?thesis
    using prune_safe [OF mem.s3_bucket_axioms _ e] demo_names e
    by (simp add: start_world_def) (metis demo_lookup(2) objects_disjoint(4))
qed

section \<open>What a dry run and a run without the lock do\<close>

text \<open>Requests that change nothing but the lock.\<close>

definition harmless :: "storage \<Rightarrow> request \<Rightarrow> bool" where
  "harmless st q \<longleftrightarrow> writes q \<subseteq> {lock_object st}"

lemma harmless_simps [simp]:
  "harmless st (ReqList p t)" "harmless st (ReqGet k)" "lock_request st q \<Longrightarrow> harmless st q"
  by (simp_all add: harmless_def lock_request_writes)

lemma requests_harmless_read:
  "requests (harmless st) (read_manifest env cd st n)"
  "requests (harmless st) (list_manifest_names env st)"
  "requests (harmless st) (read_all_manifests env cd st ord)"
  "requests (harmless st) (union_hashes_for_names env gp st ns)"
  "requests (harmless st) (referenced_blob_hashes env gp st)"
  unfolding referenced_blob_hashes_def
  by (intro requests_read_manifest requests_list_names requests_read_all requests_union_for_names
      requests_bind requests_return harmless_simps)+

lemma dry_run_requests:
  "requests (harmless st) (gc_all_blobs env gp st True grace) \<and>
   requests (harmless st) (gc_snapshot env gp st name True) \<and>
   requests (harmless st) (prune_old_live_snapshots env gp st retain_all retain_daily now True)"
proof (intro conjI)
  have "requests (harmless st) (remote_scan_and_delete env gp st refs True grace)" for refs
  proof (rule requestsI)
    fix w r w' assume s: "remote_scan_and_delete env gp st refs True grace w = (r, w')"
    show "\<exists>qs. trace w' = trace w @ qs \<and> list_all (harmless st) qs"
      by (rule requests_scan [where D = UNIV, OF _ _ _ s])
         (auto simp: listed_doomed_def doomed_def list_all_iff)
  qed
  then show "requests (harmless st) (gc_all_blobs env gp st True grace)"
    unfolding gc_all_blobs_def Let_def case_prod_beta
    by (intro requests_with_gc_lock requests_bind requests_harmless_read) simp_all
  show "requests (harmless st) (gc_snapshot env gp st name True)"
    unfolding gc_snapshot_def Let_def if_True
    by (intro requests_with_gc_lock requests_bind requests_harmless_read requests_return harmless_simps)
  show "requests (harmless st) (prune_old_live_snapshots env gp st retain_all retain_daily now True)"
    unfolding prune_old_live_snapshots_def Let_def if_True
    by (intro requests_with_gc_lock requests_bind requests_harmless_read requests_return requests_if
        harmless_simps)
qed

text \<open>
  A dry run deletes nothing: whatever the service answers, all requests of the three commands
  with \<open>dry\_run\<close> set leave every object but the lock alone.
\<close>

theorem gc_dry_run:
  "requests (harmless st) (gc_all_blobs env gp st True grace) \<and>
   requests (harmless st) (gc_snapshot env gp st name True) \<and>
   requests (harmless st) (prune_old_live_snapshots env gp st retain_all retain_daily now True)"
  by (rule dry_run_requests)





end
