(* ===== verification/Prune_Set.thy ===== *)
theory Prune_Set
  imports Gc "HOL-Library.Multiset"
begin

text \<open>
  Which live snapshots \<open>compute\_prune\_set\<close> of \<open>src/gc.rs\<close> prunes: the tiers of retention, the one
  snapshot kept per day, and the wrap-around of the retention periods.
\<close>

section \<open>The groups by day\<close>

definition day_groups ::
  "(i64 \<Rightarrow> string) \<Rightarrow> (string \<times> i64) list \<Rightarrow> (string \<times> (string \<times> i64) list) list"
where
  "day_groups day xs = fold (\<lambda>(name, ts) m. add_to_day (day ts) (name, ts) m) xs []"

lemma add_to_day_groups:
  assumes "distinct (map fst m)"
    and "\<And>d ys. (d, ys) \<in> set m \<longleftrightarrow> ys \<noteq> [] \<and> ys = filter (\<lambda>(n, ts). day ts = d) xs"
  shows "distinct (map fst (add_to_day (day t) (n, t) m)) \<and>
    ((d, ys) \<in> set (add_to_day (day t) (n, t) m) \<longleftrightarrow>
       ys \<noteq> [] \<and> ys = filter (\<lambda>(n, ts). day ts = d) (xs @ [(n, t)]))"
proof -
  have fst_add: "fst ` set (add_to_day e x m) = insert e (fst ` set m)" for e x and m :: "(string \<times> (string \<times> i64) list) list"
    by (induction e x m rule: add_to_day.induct) auto
  have dist: "distinct (map fst m) \<Longrightarrow> distinct (map fst (add_to_day e x m))" for e x and m :: "(string \<times> (string \<times> i64) list) list"
    by (induction e x m rule: add_to_day.induct) (auto simp: fst_add image_iff dest: fst_add [THEN equalityD1, THEN subsetD])
  have mem: "(d, ys) \<in> set (add_to_day e x m) \<longleftrightarrow>
      (if d = e then ys = concat (map snd (filter (\<lambda>g. fst g = e) m)) @ [x] else (d, ys) \<in> set m)"
    if "distinct (map fst m)" for e x d ys and m :: "(string \<times> (string \<times> i64) list) list"
    using that
  proof (induction e x m rule: add_to_day.induct)
    case (2 e x e' xs m)
    have "filter (\<lambda>g. fst g = e') m = []" "(e', b) \<notin> set m" for b
      using "2.prems" by (auto simp: filter_empty_conv image_iff)
    with 2 show ?case by (cases "e' = e") auto
  qed auto
  have cat: "concat (map snd (filter (\<lambda>g. fst g = d) m)) = filter (\<lambda>(n, ts). day ts = d) xs" for d
  proof (cases "\<exists>ys. (d, ys) \<in> set m")
    case True
    then obtain ys where ys: "(d, ys) \<in> set m" ..
    then have "filter (\<lambda>g. fst g = d) m = [(d, ys)]"
      using assms(1) by (induction m) (auto simp: filter_empty_conv image_iff)
    with ys assms(2) [of d ys] show ?thesis by simp
  next
    case False
    then have "filter (\<lambda>g. fst g = d) m = []" by (auto simp: filter_empty_conv)
    moreover have "filter (\<lambda>(n, ts). day ts = d) xs = []"
      using False assms(2) [of d "filter (\<lambda>(n, ts). day ts = d) xs"] by blast
    ultimately show ?thesis by simp
  qed
  show ?thesis
    using assms dist [OF assms(1)] by (auto simp: mem [OF assms(1)] cat)
qed

lemma day_groups_facts:
  "distinct (map fst (day_groups day xs)) \<and>
   ((d, ys) \<in> set (day_groups day xs) \<longleftrightarrow> ys \<noteq> [] \<and> ys = filter (\<lambda>(n, ts). day ts = d) xs)"
proof (induction xs arbitrary: d ys rule: rev_induct)
  case Nil
  then show ?case by (simp add: day_groups_def)
next
  case (snoc x xs)
  obtain n t where x: "x = (n, t)" by (cases x)
  have "day_groups day (xs @ [x]) = add_to_day (day t) (n, t) (day_groups day xs)"
    by (simp add: day_groups_def x)
  then show ?case
    using add_to_day_groups [of "day_groups day xs" day xs t n d ys] snoc by (simp add: x)
qed

section \<open>What is pruned\<close>

definition too_old :: "i64 \<Rightarrow> u64 \<Rightarrow> i64 \<Rightarrow> bool" where
  "too_old now minutes ts \<longleftrightarrow> sint ts < sint (now - i64_minutes minutes)"

text \<open>The snapshots of which one per day is kept.\<close>

definition daily_tier :: "(string \<times> i64) list \<Rightarrow> u64 \<Rightarrow> u64 \<Rightarrow> i64 \<Rightarrow> (string \<times> i64) list" where
  "daily_tier live retain_all daily now =
     filter (\<lambda>(n, ts). too_old now retain_all ts \<and> \<not> too_old now daily ts) live"

lemma set_prune_daily:
  "set (compute_prune_set cd live retain_all (Some daily) now) =
     fst ` {(n, ts) \<in> set live. too_old now retain_all ts \<and> too_old now daily ts} \<union>
     (\<Union>(d, ys) \<in> set (day_groups (day_of cd now) (daily_tier live retain_all daily now)).
        fst ` set (drop 1 (sort_key (\<lambda>(_, ts). - sint ts) ys)))"
proof -
  have tier: "filter (\<lambda>(n, ts). \<not> sint ts < sint (now - i64_minutes daily))
      (filter (\<lambda>(n, ts). sint ts < sint (now - i64_minutes retain_all)) live)
      = daily_tier live retain_all daily now"
    by (induction live) (auto simp: daily_tier_def too_old_def)
  show ?thesis
    unfolding compute_prune_set_def Let_def option.case tier
    by (auto simp: day_groups_def too_old_def image_iff)
qed

text \<open>One day: what is left of a group after all but the newest are dropped.\<close>

lemma newest_of_group:
  fixes ys :: "(string \<times> i64) list"
  assumes "ys \<noteq> []"
  obtains h hs where "sort_key (\<lambda>(_, ts). - sint ts) ys = h # hs" and "h \<in> set ys"
    and "\<And>x. x \<in> set ys \<Longrightarrow> x = h \<or> x \<in> set hs" and "\<And>x. x \<in> set ys \<Longrightarrow> sint (snd x) \<le> sint (snd h)"
proof -
  let ?key = "\<lambda>(_, ts). - sint ts :: int"
  have s: "set (sort_key ?key ys) = set ys" "sorted (map ?key (sort_key ?key ys))" by simp_all
  have "sort_key ?key ys \<noteq> []" using assms s(1) by (metis set_empty)
  then obtain h hs where h: "sort_key ?key ys = h # hs" by (cases "sort_key ?key ys") auto
  have in_sort: "x = h \<or> x \<in> set hs" if "x \<in> set ys" for x using that s(1) h by auto
  have "\<forall>x \<in> set hs. ?key h \<le> ?key x" using s(2) unfolding h by simp
  then have "sint (snd x) \<le> sint (snd h)" if "x \<in> set ys" for x
    using in_sort [OF that] by (auto simp: case_prod_beta)
  moreover have "h \<in> set ys" using s(1) h by auto
  ultimately show ?thesis using that h in_sort by blast
qed

text \<open>
  Tiered retention. With no daily tier exactly the live snapshots older than the retention
  period are pruned.
\<close>

theorem prune_without_daily:
  "n \<in> set (compute_prune_set cd live retain_all None now) \<longleftrightarrow>
     (\<exists>ts. (n, ts) \<in> set live \<and> too_old now retain_all ts)"
  by (force simp: compute_prune_set_def Let_def too_old_def)

text \<open>
  C22. With a daily tier: a snapshot within the retention period is kept, one older than both periods
  is pruned, and of the snapshots between, each day keeps exactly one, which is as new as any of
  that day.
\<close>

theorem prune_with_daily:
  assumes "distinct (map fst live)"
    and "pruned = set (compute_prune_set cd live retain_all (Some daily) now)"
    and "tier = set (daily_tier live retain_all daily now)" and "(n, ts) \<in> set live"
  shows "(\<not> too_old now retain_all ts \<longrightarrow> n \<notin> pruned) \<and>
    (too_old now retain_all ts \<and> too_old now daily ts \<longrightarrow> n \<in> pruned) \<and>
    ((n, ts) \<in> tier \<longrightarrow>
       (\<exists>m tm. (m, tm) \<in> tier \<and> day_of cd now tm = day_of cd now ts \<and> m \<notin> pruned \<and>
          sint ts \<le> sint tm \<and>
          (\<forall>m' tm'. (m', tm') \<in> tier \<and> day_of cd now tm' = day_of cd now ts \<and> m' \<notin> pruned \<longrightarrow>
             m' = m)))"
proof -
  let ?day = "day_of cd now"
  let ?W = "daily_tier live retain_all daily now"
  let ?drop = "\<lambda>ys. drop 1 (sort_key (\<lambda>(_, ts). - sint ts :: int) ys)"
  note pr = assms(2) [unfolded set_prune_daily]
  have uniq: "t = t'" if "(m, t) \<in> set live" "(m, t') \<in> set live" for m t t'
    using that assms(1) by (meson eq_key_imp_eq_value)
  have groups: "(d, ys) \<in> set (day_groups ?day ?W) \<longleftrightarrow>
      ys \<noteq> [] \<and> ys = filter (\<lambda>(n, ts). ?day ts = d) ?W" for d ys
    using day_groups_facts by blast
  have W: "(m, t) \<in> set live \<and> too_old now retain_all t \<and> \<not> too_old now daily t \<longleftrightarrow> (m, t) \<in> set ?W" for m t
    by (auto simp: daily_tier_def)
  have split: "(\<exists>t. (m, t) \<in> set live \<and> too_old now retain_all t \<and> too_old now daily t) \<or>
      (\<exists>d ys. (d, ys) \<in> set (day_groups ?day ?W) \<and> m \<in> fst ` set (?drop ys))"
    if "m \<in> pruned" for m
    using that unfolding pr by auto
  have origin: "\<exists>t. (m, t) \<in> set live \<and> too_old now retain_all t" if "m \<in> pruned" for m
  proof -
    from split [OF that] consider t where "(m, t) \<in> set live" "too_old now retain_all t"
      | d ys where "(d, ys) \<in> set (day_groups ?day ?W)" "m \<in> fst ` set (?drop ys)"
      by blast
    then show ?thesis
    proof cases
      case 2
      then obtain t where "(m, t) \<in> set ys" by (auto dest!: in_set_dropD)
      moreover have "set ys \<subseteq> set ?W" using 2(1) groups by (metis filter_is_subset)
      ultimately show ?thesis using W by blast
    qed blast
  qed
  have kept: "n \<notin> pruned" if "\<not> too_old now retain_all ts"
    using origin [of n] that uniq assms(4) by blast
  have gone: "n \<in> pruned" if "too_old now retain_all ts" "too_old now daily ts"
    using that assms(4) unfolding pr by (auto simp: image_iff)
  have one: "\<exists>m tm. (m, tm) \<in> set ?W \<and> ?day tm = ?day ts \<and> m \<notin> pruned \<and> sint ts \<le> sint tm \<and>
      (\<forall>m' tm'. (m', tm') \<in> set ?W \<and> ?day tm' = ?day ts \<and> m' \<notin> pruned \<longrightarrow> m' = m)"
    if n: "(n, ts) \<in> set ?W"
  proof -
    let ?ys = "filter (\<lambda>(n, t). ?day t = ?day ts) ?W"
    have ys: "?ys \<noteq> []" "(n, ts) \<in> set ?ys" using n by (auto simp: filter_empty_conv)
    obtain h hs where h: "sort_key (\<lambda>(_, ts). - sint ts) ?ys = h # hs" "h \<in> set ?ys"
      "\<And>x. x \<in> set ?ys \<Longrightarrow> x = h \<or> x \<in> set hs" "\<And>x. x \<in> set ?ys \<Longrightarrow> sint (snd x) \<le> sint (snd h)"
      using newest_of_group [OF ys(1)] by blast
    obtain m tm where m: "h = (m, tm)" by (cases h)
    have mW: "(m, tm) \<in> set ?W" "?day tm = ?day ts" using h(2) m by auto
    have "mset (map fst (h # hs)) = mset (map fst ?ys)"
      unfolding h(1) [symmetric] by simp
    moreover have "distinct (map fst ?ys)"
      using assms(1) by (auto simp: daily_tier_def intro: distinct_map_filter)
    ultimately have "distinct (map fst (h # hs))" by (metis mset_eq_imp_distinct_iff)
    then have dist: "m \<notin> fst ` set hs" using m by simp
    have "m \<notin> pruned"
    proof
      assume "m \<in> pruned"
      from split [OF this] uniq W mW(1) obtain d zs where
        zs: "(d, zs) \<in> set (day_groups ?day ?W)" "m \<in> fst ` set (?drop zs)"
        by blast
      then obtain t where t: "(m, t) \<in> set zs" by (auto dest!: in_set_dropD)
      have zd: "zs = filter (\<lambda>(n, t). ?day t = d) ?W" using zs(1) groups by blast
      have "t = tm" using t mW(1) W uniq zd by (metis (no_types, lifting) filter_is_subset subsetD)
      with t zd mW(2) have "d = ?day ts" by auto
      with zd zs(2) h(1) dist show False by simp
    qed
    moreover have "m' = m" if "(m', tm') \<in> set ?W" "?day tm' = ?day ts" "m' \<notin> pruned" for m' tm'
    proof -
      have "(m', tm') \<in> set ?ys" using that by auto
      from h(3) [OF this] show ?thesis
      proof
        assume "(m', tm') \<in> set hs"
        then have "m' \<in> fst ` set (?drop ?ys)" using h(1) by force
        moreover have "(?day ts, ?ys) \<in> set (day_groups ?day ?W)" using groups ys(1) by blast
        ultimately have "m' \<in> pruned" unfolding pr by blast
        with that(3) show ?thesis by simp
      qed (simp add: m)
    qed
    moreover have "sint ts \<le> sint tm" using h(4) [OF ys(2)] m by simp
    ultimately show ?thesis using mW by blast
  qed
  show ?thesis using kept gone one assms(3) by blast
qed

definition one_day :: manifest_codec where
  "one_day = \<lparr>enc_manifest = \<lambda>m. None, dec_manifest = \<lambda>b. None, fmt_timestamp = \<lambda>t. [],
     utc_day = \<lambda>t. Some ''2026-04-20'', date_in_range = \<lambda>t. True\<rparr>"

theorem prune_with_daily_witness:
  "\<exists>m tm. (m, tm) \<in> {(''a'', 0 :: i64), (''b'', 100)} \<and>
     m \<notin> set (compute_prune_set one_day [(''a'', 0), (''b'', 100)] 1 (Some 100) 1000)"
proof -
  have "(''a'', 0) \<in> set (daily_tier [(''a'', 0), (''b'', 100)] 1 100 1000)"
    by (simp add: daily_tier_def too_old_def i64_minutes_def)
  with prune_with_daily [OF _ refl refl, of "[(''a'', 0), (''b'', 100)]" "''a''" 0 1000 1 one_day 100]
  obtain m tm where m: "(m, tm) \<in> set (daily_tier [(''a'', 0), (''b'', 100)] 1 100 1000)"
    "m \<notin> set (compute_prune_set one_day [(''a'', 0), (''b'', 100)] 1 (Some 100) 1000)" by auto
  from m(1) have "(m, tm) \<in> set [(''a'', 0), (''b'', 100)]"
    unfolding daily_tier_def by (rule subsetD [OF filter_is_subset])
  with m(2) show ?thesis by auto
qed

end
