(* ===== verification/Gc_Grace.thy ===== *)
theory Gc_Grace
  imports Gc_Theorems Prune_Set
begin

text \<open>
  Theorems about what the scan takes for an orphan, the grace period, and the runs in which the
  collector does more than it promises: periods that wrap around, keys below the key of a blob, a
  pruning that cannot delete a manifest.
\<close>

section \<open>The keys the scan takes for blobs\<close>

lemma hex_no_slash: "from_hex h = Some x \<Longrightarrow> CHR ''/'' \<notin> set h"
proof
  assume x: "from_hex h = Some x" and s: "CHR ''/'' \<in> set h"
  have "list_all is_hex_byte (as_bytes h)" using from_hex_Some_iff x by blast
  then have "is_hex_byte (of_char CHR ''/'')" using s by (auto simp: list_all_iff as_bytes_def)
  then show False by (simp add: is_hex_byte_def)
qed

lemma split_blob_key:
  assumes "CHR ''/'' \<notin> set h" and "length h = 32" and "rest = [] \<or> hd rest = CHR ''/''"
  shows "\<exists>segs. split_on CHR ''/'' (blob_remote_key h @ rest)
    = ''base'' # ''data'' # ''blobs'' # take 2 h # h # segs"
proof -
  have k: "blob_remote_key h @ rest =
      ''base'' @ CHR ''/'' # ''data'' @ CHR ''/'' # ''blobs'' @ CHR ''/'' # take 2 h @ CHR ''/'' # h @ rest"
    using assms(2) by (simp add: blob_remote_key_def blob_shard_def)
  have t: "CHR ''/'' \<notin> set (take 2 h)" using assms(1) by (auto dest: in_set_takeD)
  have "\<exists>segs. split_on CHR ''/'' (h @ rest) = h # segs"
  proof (cases rest)
    case Nil
    then show ?thesis using split_on_no_sep [OF assms(1)] by simp
  next
    case (Cons a b)
    then show ?thesis using assms(1,3) by (simp add: split_on_append_sep)
  qed
  then show ?thesis unfolding k using t by (simp add: split_on_append_sep)
qed

lemma join_blob_key:
  assumes "length h = 32"
  shows "\<exists>rest. join_on CHR ''/'' (''base'' # ''data'' # ''blobs'' # take 2 h # h # segs)
    = blob_remote_key h @ rest \<and> (rest = [] \<or> hd rest = CHR ''/'')"
  using assms by (cases segs) (auto simp: blob_remote_key_def blob_shard_def)

lemma parse_key:
  "parse_unreferenced_blob key referenced = Some h \<longleftrightarrow>
     (\<exists>rest. key = blob_remote_key h @ rest \<and> (rest = [] \<or> hd rest = CHR ''/'')) \<and>
     (\<exists>x. from_hex h = Some x \<and> x \<notin> referenced)"
    (is "?l \<longleftrightarrow> ?k \<and> ?h")
proof
  assume l: ?l
  then obtain sh segs where s: "split_on CHR ''/'' key = ''base'' # ''data'' # ''blobs'' # sh # h # segs"
    and h: "length h = 32" "take 2 h = sh" "?h"
    by (auto simp: parse_unreferenced_blob_def split: list.splits if_splits option.splits)
  have "join_on CHR ''/'' (split_on CHR ''/'' key) = key" by simp
  then have ?k using join_blob_key [OF h(1), of segs] by (simp only: s h(2))
  with h(3) show "?k \<and> ?h" by blast
next
  assume r: "?k \<and> ?h"
  then obtain rest x where key: "key = blob_remote_key h @ rest" "rest = [] \<or> hd rest = CHR ''/''"
    and x: "from_hex h = Some x" "x \<notin> referenced" by blast
  have len: "length h = 32" using x(1) by (auto simp: from_hex_def split: if_splits)
  from split_blob_key [OF hex_no_slash [OF x(1)] len key(2)] key(1) x len show ?l
    by (auto simp: parse_unreferenced_blob_def)
qed

text \<open>
  What the scan takes for an orphan, exactly: a key names the blob \<open>h\<close> when it is the key of \<open>h\<close>
  or continues it after a slash, \<open>h\<close> is 32 hexadecimal digits, and no manifest names that hash in
  either case of its letters.
\<close>

theorem scanned_orphans:
  "parse_unreferenced_blob key referenced = Some h \<longleftrightarrow>
     (\<exists>rest. key = blob_remote_key h @ rest \<and> (rest = [] \<or> hd rest = CHR ''/'')) \<and>
     (\<exists>x. from_hex h = Some x \<and> x \<notin> referenced)"
  by (rule parse_key)

text \<open>
  An old object stored below the key of a blob puts that blob on the list of deletions, whatever
  the age of the blob itself: the grace period does not protect it.
\<close>

theorem scan_trailing_segment:
  assumes "from_hex h = Some x" and "x \<notin> referenced" and "t \<le> cutoff" and "length (ss_batch ss) < 999"
  shows "\<exists>ss'. scan_item env st referenced dry cutoff ss (blob_remote_key h @ ''/'' @ rest, sz, t) w = (Ok ss', w) \<and>
    ss_batch ss' = ss_batch ss @ [(h, sz)]"
proof -
  have len: "length h = 32" using assms(1) by (auto simp: from_hex_def split: if_splits)
  obtain segs where "split_on CHR ''/'' (blob_remote_key h @ ''/'' @ rest)
      = ''base'' # ''data'' # ''blobs'' # take 2 h # h # segs"
    using split_blob_key [OF hex_no_slash [OF assms(1)] len, of "''/'' @ rest"] by auto
  then have "parse_unreferenced_blob (blob_remote_key h @ ''/'' @ rest) referenced = Some h"
    using len assms(1,2) by (simp add: parse_unreferenced_blob_def)
  with assms(3,4) show ?thesis by (simp add: scan_item_def Let_def io_return_def)
qed

definition fresh_scan :: scan_state where
  "fresh_scan = \<lparr>ss_batch = [], ss_progress = new_scan_progress, ss_scanned_count = 0, ss_skipped_young = 0\<rparr>"

lemma fresh_scan_batch [simp]: "ss_batch fresh_scan = []"
  by (simp add: fresh_scan_def)

lemma demo_hash_ok: "\<exists>x. from_hex demo_hash = Some x"
  unfolding from_hex_Some_iff by (simp add: demo_hash_def as_bytes_def list_all_iff is_hex_byte_def)

theorem scan_trailing_segment_witness:
  "\<exists>ss'. scan_item (mem_env {}) plain_storage {} False 100 fresh_scan
       (blob_remote_key demo_hash @ ''/'' @ ''x'', 1, 7) (start_world demo_bucket) = (Ok ss', start_world demo_bucket) \<and>
     ss_batch ss' = [(demo_hash, 1)]"
proof -
  from demo_hash_ok obtain x where "from_hex demo_hash = Some x" ..
  from scan_trailing_segment [OF this, of "{}" 7 100 fresh_scan "mem_env {}" plain_storage False "''x''" 1
      "start_world demo_bucket"] show ?thesis by simp
qed

section \<open>The grace period\<close>

lemma list_pages_items:
  assumes "list_pages env st p n t acc w = (Ok res, w')" and "\<And>i. i \<in> set acc \<Longrightarrow> P i"
    and "\<And>p t s page s' now i. s3_list env p t s = (Inr page, s') \<Longrightarrow>
      i \<in> set (page_entries st now (lp_contents page)) \<Longrightarrow> P i"
    and "i \<in> set res"
  shows "P i"
  using assms(1,2,4)
proof (induction n arbitrary: t acc w)
  case 0
  then show ?case by (simp add: io_diverge_def)
next
  case (Suc n)
  obtain resp u where a: "send env (ReqList p t) (s3_list env p t) w = (Ok resp, u)"
    and rest: "(let results = acc @ page_entries st (clock_ns env (svc u)) (lp_contents resp) in
       case lp_next resp of
         Some token \<Rightarrow> list_pages env st p n (Some token) results
       | None \<Rightarrow> io_return results) u = (Ok res, w')"
    using Suc.prems(1) by (auto elim!: io_bind_OkE simp: clock_def)
  obtain r v where v: "await env (ReqList p t) (s3_list env p t) w = (Ok r, v)"
    and r: "(case r of Inl e \<Rightarrow> io_fail (S3Failure e) | Inr x \<Rightarrow> io_return x) v = (Ok resp, u)"
    using a unfolding send_def by (auto elim!: io_bind_OkE)
  from r have "r = Inr resp" by (auto simp: io_fail_def io_return_def split: sum.splits)
  with await_svc [OF v] have "s3_list env p t (svc w) = (Inr resp, svc v)" by simp
  note page = assms(3) [OF this]
  have all: "P i" if "i \<in> set (acc @ page_entries st (clock_ns env (svc u)) (lp_contents resp))" for i
    using that Suc.prems(2) [of i] page [of i] by (metis Un_iff set_append)
  show ?case
  proof (cases "lp_next resp")
    case None
    with rest have "res = acc @ page_entries st (clock_ns env (svc u)) (lp_contents resp)"
      by (auto simp: io_return_def)
    with Suc.prems(3) show ?thesis by (intro all) simp
  next
    case (Some token)
    with rest have "list_pages env st p n (Some token)
        (acc @ page_entries st (clock_ns env (svc u)) (lp_contents resp)) u = (Ok res, w')" by simp
    from Suc.IH [OF this all Suc.prems(3)] show ?thesis .
  qed
qed

text \<open>
  C21. Young blobs are spared: when every listing reports the objects at and below the key of a blob
  as modified no earlier than some time after the cutoff, no request of the scan, in a dry run or
  not, names that blob, be it referenced or not.
\<close>

theorem gc_young_spared:
  assumes "\<And>p t s page s' e k. s3_list env p t s = (Inr page, s') \<Longrightarrow> e \<in> set (lp_contents page) \<Longrightarrow>
      le_key e = Some k \<Longrightarrow> starts_with (blob_remote_key h) (relative_key st k) \<Longrightarrow>
      \<exists>m. le_modified e = Some m \<and> young \<le> m"
    and "\<And>cutoff. grace_cutoff (gp_codec gp) (clock_ns env (svc w)) grace = Some cutoff \<Longrightarrow> cutoff < young"
    and "remote_scan_and_delete env gp st referenced dry grace w = (r, w')"
  shows "\<exists>qs. trace w' = trace w @ qs \<and> list_all (\<lambda>q. blob_object st h \<notin> writes q) qs"
proof (rule requests_scan [where D = "- {blob_object st h}", OF _ _ _ assms(3)])
  show "blob_object st h \<notin> writes q" if "deletes_only (- {blob_object st h}) q" for q
    using deletes_only_writes [OF that] by blast
  show "blob_object st h \<notin> writes (ReqList p t)" for p t by simp
  fix cutoff assume c: "grace_cutoff (gp_codec gp) (clock_ns env (svc w)) grace = Some cutoff"
  have item: "doomed st (- {blob_object st h}) referenced cutoff i"
    if page: "s3_list env p t s = (Inr page, s')" and i: "i \<in> set (page_entries st now (lp_contents page))"
    for p t s page s' now i
  proof -
    from i obtain e k where e: "e \<in> set (lp_contents page)" "le_key e = Some k"
      and ik: "i = (relative_key st k, case le_size e of Some n \<Rightarrow> n | None \<Rightarrow> 0,
        case le_modified e of Some t \<Rightarrow> t | None \<Rightarrow> now)"
      by (auto simp: page_entries_def List.map_filter_def split: option.splits)
    show ?thesis
    proof (cases "starts_with (blob_remote_key h) (relative_key st k)")
      case True
      from assms(1) [OF page e True] assms(2) [OF c] show ?thesis by (auto simp: ik doomed_def)
    next
      case False
      have "h' \<noteq> h" if "parse_unreferenced_blob (relative_key st k) referenced = Some h'" for h'
        using that False by (auto simp: parse_key starts_with_iff)
      then show ?thesis by (auto simp: ik doomed_def blob_object_def [symmetric])
    qed
  qed
  show "listed_doomed env st (- {blob_object st h}) referenced cutoff"
    unfolding listed_doomed_def list_all_iff list_objects_def
    using list_pages_items [where P = "doomed st (- {blob_object st h}) referenced cutoff"] item
    by (metis empty_iff list.set(1))
qed

text \<open>A bucket that always lists one blob, modified 10 ns before the epoch's first second ends.\<close>

definition young_env :: "unit env" where
  "young_env = null_env\<lparr>s3_list := \<lambda>p t s.
     (Inr \<lparr>lp_contents = [\<lparr>le_key = Some (blob_object plain_storage demo_hash), le_size = None,
        le_modified = Some 999999990\<rparr>], lp_next = None\<rparr>, s),
     clock_ns := \<lambda>s. 1000000000\<rparr>"

theorem gc_young_spared_witness:
  "\<exists>qs. trace (snd (remote_scan_and_delete young_env demo_gp plain_storage {} False 6 (start_world ()))) = qs \<and>
     list_all (\<lambda>q. blob_object plain_storage demo_hash \<notin> writes q) qs"
proof -
  obtain r w' where e: "remote_scan_and_delete young_env demo_gp plain_storage {} False 6 (start_world ()) = (r, w')"
    by fastforce
  have "\<exists>qs. trace w' = trace (start_world ()) @ qs \<and>
      list_all (\<lambda>q. blob_object plain_storage demo_hash \<notin> writes q) qs"
  proof (rule gc_young_spared [OF _ _ e, where young = 999999990])
    show "\<exists>m. le_modified x = Some m \<and> 999999990 \<le> m"
      if "s3_list young_env p t s = (Inr page, s')" "x \<in> set (lp_contents page)" for p t s page s' x
      using that by (auto simp: young_env_def)
    show "cutoff < 999999990"
      if "grace_cutoff (gp_codec demo_gp) (clock_ns young_env (svc (start_world ()))) 6 = Some cutoff" for cutoff
      using that by (auto simp: grace_cutoff_def young_env_def Let_def split: if_splits)
  qed
  with e show ?thesis by (simp add: start_world_def)
qed

section \<open>Periods that wrap around\<close>

text \<open>
  A retention period of \<open>u64::MAX\<close> minutes (a user's "keep everything") wraps to minus one
  minute: every live snapshot older than one minute from now is pruned.
\<close>

theorem retention_wraps:
  "n \<in> set (compute_prune_set cd live (- 1) None now) \<longleftrightarrow>
     (\<exists>ts. (n, ts) \<in> set live \<and> sint ts < sint (now + 60))"
  by (force simp: compute_prune_set_def Let_def i64_minutes_def)

text \<open>
  A grace period of \<open>u64::MAX\<close> hours wraps to minus one hour: the cutoff lies one hour in the
  future, so that no blob is spared.
\<close>

theorem grace_wraps:
  "grace_cutoff cd now_ns (- 1) =
     (if date_in_range cd (now_ns + 3600000000000) then Some (now_ns + 3600000000000) else None)"
  by (simp add: grace_cutoff_def Let_def)

end
