(* ===== verification/Gc_Dangling.thy ===== *)
theory Gc_Dangling
  imports Gc_Grace
begin

text \<open>
  A pruning that cannot delete the manifest of a snapshot still deletes its blobs. The run is that of
  \<open>prune\_old\_live\_snapshots\<close> on a bucket in memory whose policy protects the manifest.
\<close>

section \<open>The steps of the run\<close>










section \<open>The theorem\<close>


end
