(* ===== verification/Tui_Events.thy ===== *)
theory Tui_Events
  imports Prelude
begin

text \<open>
  The events of \<open>src/tui.rs\<close> that a backup sends to its progress display, and the summary of a part
  they carry.
\<close>

record part_summary =
  ps_hash :: string
  ps_database :: string
  ps_table :: string
  ps_part_name :: string
  ps_bytes_on_disk :: u64
  ps_rows_count :: u64

datatype backup_event =
    PartsDiscovered "part_summary list" "string set"
  | PartHeadCheck string
  | PartHeadSkipped string u64
  | PartStaging string
  | PartStaged string u32
  | PartUploading string
  | PartUploadProgress string u64 u64
  | PartDone string u64
  | BackupComplete string

end
