(* ===== verification/Host.thy ===== *)
theory Host
  imports World Part_Zip Tui_Events
begin

text \<open>
  The machine the process runs on, as a record of functions: sub-processes, the HTTP client and the
  JSON parser that the queries to ClickHouse go through, the local disk, the channel to the progress
  display. A call may change the state \<open>'s\<close>, which is also that of the services outside. Calls to
  the machine leave no entry in the request log, which is about the bucket.
\<close>

section \<open>What the machine answers\<close>

text \<open>A \<open>serde\_json::Value\<close>; the text of a floating point number is what it prints as.\<close>

datatype json =
    JNull
  | JBool bool
  | JUInt u64
  | JNegInt int
  | JFloat string
  | JString string
  | JArray "json list"
  | JObject "(string \<times> json) list"

datatype removal = Removed | NotThere | RemovalRefused

text \<open>The answer of \<open>hard\_link\<close>; a file that is already there comes with its contents.\<close>

datatype link_outcome = Linked | LinkExists bytes | LinkCrosses | LinkRefused

text \<open>What the operating system grants while one part directory is staged.\<close>

record stage_os =
  so_remove :: bool
  so_create :: bool
  so_mkdir :: "string list \<Rightarrow> bool"
  so_link :: "string list \<Rightarrow> link_outcome"
  so_marker :: bool

text \<open>
  \<open>h\_which\<close>: exit status of \<open>which\<close>, \<open>None\<close> when it cannot be run. \<open>h\_command\<close>: success, standard
  output and standard error. \<open>h\_http\_post\<close>: URL, user, password, body to the status and the text,
  \<open>None\<close> when the request or the reading of the text fails. \<open>h\_tree\<close>: the directory as a walk
  finds it, \<open>None\<close> when it is not there. \<open>h\_open\<close>: what reading a staged file with these contents
  yields. \<open>h\_chunks\<close>: how the transport cuts a byte stream.
\<close>

record 's host =
  h_which :: "string \<Rightarrow> 's \<Rightarrow> bool option \<times> 's"
  h_command :: "string \<Rightarrow> string list \<Rightarrow> 's \<Rightarrow> (bool \<times> bytes \<times> bytes) option \<times> 's"
  h_http_post :: "string \<Rightarrow> string \<Rightarrow> string \<Rightarrow> string \<Rightarrow> 's \<Rightarrow> (nat \<times> string) option \<times> 's"
  h_json :: "string \<Rightarrow> json option"
  h_emit :: "backup_event \<Rightarrow> 's \<Rightarrow> 's"
  h_exists :: "string \<Rightarrow> 's \<Rightarrow> bool \<times> 's"
  h_tree :: "string \<Rightarrow> 's \<Rightarrow> dir_tree option \<times> 's"
  h_read_file :: "string \<Rightarrow> 's \<Rightarrow> bytes option \<times> 's"
  h_read_dir :: "string \<Rightarrow> 's \<Rightarrow> string list option \<times> 's"
  h_remove_dir :: "string \<Rightarrow> 's \<Rightarrow> removal \<times> 's"
  h_remove_file :: "string \<Rightarrow> 's \<Rightarrow> removal \<times> 's"
  h_create_dir :: "string \<Rightarrow> 's \<Rightarrow> bool \<times> 's"
  h_stage_os :: "string \<Rightarrow> 's \<Rightarrow> stage_os \<times> 's"
  h_open :: "string \<Rightarrow> bytes \<Rightarrow> bytes option"
  h_chunks :: "bytes \<Rightarrow> bytes list"
  h_hostname :: string
  h_is_terminal :: bool
  h_uuid :: "'s \<Rightarrow> string \<times> 's"

text \<open>A machine that grants everything on an empty disk and cannot reach ClickHouse.\<close>

definition null_host :: "'s host" where
  "null_host = \<lparr>h_which = \<lambda>b s. (Some False, s), h_command = \<lambda>b a s. (None, s),
     h_http_post = \<lambda>u n p q s. (None, s), h_json = \<lambda>l. None, h_emit = \<lambda>e s. s,
     h_exists = \<lambda>p s. (False, s), h_tree = \<lambda>p s. (None, s), h_read_file = \<lambda>p s. (None, s),
     h_read_dir = \<lambda>p s. (Some [], s), h_remove_dir = \<lambda>p s. (NotThere, s),
     h_remove_file = \<lambda>p s. (NotThere, s), h_create_dir = \<lambda>p s. (True, s),
     h_stage_os = \<lambda>p s. (\<lparr>so_remove = True, so_create = True, so_mkdir = \<lambda>p. True,
        so_link = \<lambda>p. Linked, so_marker = True\<rparr>, s),
     h_open = \<lambda>p c. Some c, h_chunks = \<lambda>b. [b], h_hostname = ''host'',
     h_is_terminal = False, h_uuid = \<lambda>s. (''0'', s)\<rparr>"

section \<open>Calls\<close>

definition host_call :: "('s \<Rightarrow> 'a \<times> 's) \<Rightarrow> ('s, 'a) io" where
  "host_call f w = (case f (svc w) of (x, s) \<Rightarrow> (Ok x, w\<lparr>svc := s\<rparr>))"

text \<open>\<open>let \_ = event\_tx.send(event)\<close>.\<close>

definition emit :: "'s host \<Rightarrow> backup_event \<Rightarrow> ('s, unit) io" where
  "emit h e = host_call (\<lambda>s. ((), h_emit h e s))"

text \<open>A counter operation that may log: it reads the time since the start.\<close>

definition timed_progress ::
  "'s env \<Rightarrow> (u64 \<Rightarrow> upload_progress \<Rightarrow> upload_progress \<times> log_line option) \<Rightarrow> ('s, unit) io"
where
  "timed_progress env f w = with_progress (\<lambda>p. fst (f (elapsed_ms env (svc w)) p)) w"

text \<open>A result that is looked at later: an error does not end the computation.\<close>

definition attempt :: "('s, 'a) io \<Rightarrow> ('s, 'a result) io" where
  "attempt m = io_match m (\<lambda>x. io_return (Inr x)) (\<lambda>e. io_return (Inl e))"

lemma requests_host_call [requests_intros]: "requests Q (host_call f)"
  by (simp add: requests_def host_call_def split: prod.split)

lemma requests_timed_progress [requests_intros]: "requests Q (timed_progress env f)"
  by (simp add: requests_def timed_progress_def with_progress_def)

lemma keeps_timed_progress [keeps_intros]: "keeps I (timed_progress env f)"
  by (simp add: keeps_def timed_progress_def with_progress_def)

lemma requests_emit [requests_intros]: "requests Q (emit h e)"
  unfolding emit_def by (rule requests_host_call)

lemma requests_attempt [requests_intros]: "requests Q m \<Longrightarrow> requests Q (attempt m)"
  unfolding attempt_def by (intro requests_intros)

lemma keeps_host_call [keeps_intros]:
  "(\<And>s. I s \<Longrightarrow> I (snd (f s))) \<Longrightarrow> keeps I (host_call f)"
  by (force simp: keeps_def host_call_def split: prod.split)

lemma keeps_attempt [keeps_intros]: "keeps I m \<Longrightarrow> keeps I (attempt m)"
  unfolding attempt_def by (intro keeps_intros)

section \<open>Triples\<close>

text \<open>
  \<open>triple F P m Q\<close>: started where \<open>P\<close> holds, \<open>m\<close> returns a value with \<open>Q\<close>, or ends otherwise
  with \<open>F\<close>.
\<close>

definition triple ::
  "('s \<Rightarrow> bool) \<Rightarrow> ('s \<Rightarrow> bool) \<Rightarrow> ('s, 'a) io \<Rightarrow> ('a \<Rightarrow> 's \<Rightarrow> bool) \<Rightarrow> bool"
where
  "triple F P m Q \<longleftrightarrow>
     (\<forall>w r w'. P (svc w) \<longrightarrow> m w = (r, w') \<longrightarrow>
        (case r of Ok x \<Rightarrow> Q x (svc w') | _ \<Rightarrow> F (svc w')))"

lemma tripleI:
  "(\<And>w r w'. P (svc w) \<Longrightarrow> m w = (r, w') \<Longrightarrow>
      (case r of Ok x \<Rightarrow> Q x (svc w') | _ \<Rightarrow> F (svc w'))) \<Longrightarrow> triple F P m Q"
  by (simp add: triple_def)

lemma triple_final: "triple F P m (\<lambda>_. F) \<Longrightarrow> P (svc w) \<Longrightarrow> m w = (r, w') \<Longrightarrow> F (svc w')"
  unfolding triple_def by (cases r) fastforce+

lemma triple_Ok: "triple F P m Q \<Longrightarrow> P (svc w) \<Longrightarrow> m w = (Ok x, w') \<Longrightarrow> Q x (svc w')"
  unfolding triple_def by fastforce

lemma triple_bind:
  assumes "triple F P m Q" and "\<And>x. triple F (Q x) (f x) R"
  shows "triple F P (io_bind m f) R"
proof (rule tripleI)
  fix w r w' assume p: "P (svc w)" and run: "io_bind m f w = (r, w')"
  obtain a u where m: "m w = (a, u)" by fastforce
  from assms(1) p m have post: "case a of Ok x \<Rightarrow> Q x (svc u) | _ \<Rightarrow> F (svc u)"
    by (simp add: triple_def)
  show "case r of Ok x \<Rightarrow> R x (svc w') | _ \<Rightarrow> F (svc w')"
  proof (cases a)
    case (Ok x)
    with post run m assms(2) [of x] show ?thesis by (simp add: io_bind_def triple_def)
  qed (use post run m in \<open>auto simp: io_bind_def\<close>)
qed

lemma triple_keeps: "keeps P m \<Longrightarrow> (\<And>s. P s \<Longrightarrow> F s) \<Longrightarrow> triple F P m (\<lambda>_. P)"
  by (rule tripleI) (auto dest: keepsD split: outcome.split)

lemma triple_conseq:
  "triple F P' m Q' \<Longrightarrow> (\<And>s. P s \<Longrightarrow> P' s) \<Longrightarrow> (\<And>x s. Q' x s \<Longrightarrow> Q x s) \<Longrightarrow> triple F P m Q"
proof (rule tripleI)
  fix w r w' assume t: "triple F P' m Q'" and imp: "\<And>s. P s \<Longrightarrow> P' s" "\<And>x s. Q' x s \<Longrightarrow> Q x s"
    and "P (svc w)" and run: "m w = (r, w')"
  then have "P' (svc w)" by blast
  with t run have "case r of Ok x \<Rightarrow> Q' x (svc w') | _ \<Rightarrow> F (svc w')" by (simp add: triple_def)
  with imp(2) show "case r of Ok x \<Rightarrow> Q x (svc w') | _ \<Rightarrow> F (svc w')" by (cases r) auto
qed

lemma triple_weaken:
  assumes "triple F P m Q" and "\<And>s. F s \<Longrightarrow> F' s"
  shows "triple F' P m Q"
proof (rule tripleI)
  fix w r w' assume "P (svc w)" and "m w = (r, w')"
  with assms(1) have "case r of Ok x \<Rightarrow> Q x (svc w') | _ \<Rightarrow> F (svc w')" by (simp add: triple_def)
  with assms(2) show "case r of Ok x \<Rightarrow> Q x (svc w') | _ \<Rightarrow> F' (svc w')" by (cases r) auto
qed

text \<open>A fact about the arguments is one for the whole proof.\<close>

lemma triple_pure: "(A \<Longrightarrow> triple F P m Q) \<Longrightarrow> triple F (\<lambda>s. P s \<and> A) m Q"
  by (auto simp: triple_def)

lemma triple_return: "(\<And>s. P s \<Longrightarrow> Q x s) \<Longrightarrow> triple F P (io_return x) Q"
  by (rule tripleI) (auto simp: io_return_def)

lemma triple_lift:
  "(\<And>x s. r = Inr x \<Longrightarrow> P s \<Longrightarrow> Q x s) \<Longrightarrow> (\<And>s. P s \<Longrightarrow> F s) \<Longrightarrow> triple F P (io_lift r) Q"
  by (rule tripleI) (auto simp: io_lift_def split: sum.splits)

lemma triple_if: "triple F P f Q \<Longrightarrow> triple F P g Q \<Longrightarrow> triple F P (if b then f else g) Q"
  by simp

end
