(* ===== verification/Rust_Text.thy ===== *)
theory Rust_Text
  imports Rust_Std
begin

text \<open>
  What the code uses of the Rust standard library on text: \<open>trim\<close>, \<open>lines\<close>, \<open>split\_once\<close>,
  parsing and printing of unsigned integers, ASCII case. Strings are their UTF-8 bytes.
\<close>

section \<open>Trimming\<close>

text \<open>The characters of \<open>char::is\_whitespace\<close>, as bytes.\<close>

definition byte_string :: "nat list \<Rightarrow> string" where
  "byte_string ns = map char_of ns"

definition whitespaces :: "string list" where
  "whitespaces = map byte_string
     ([[9], [10], [11], [12], [13], [32], [0xC2, 0x85], [0xC2, 0xA0], [0xE1, 0x9A, 0x80]]
      @ map (\<lambda>b. [0xE2, 0x80, b]) [0x80, 0x81, 0x82, 0x83, 0x84, 0x85, 0x86, 0x87, 0x88, 0x89, 0x8A,
          0xA8, 0xA9, 0xAF]
      @ [[0xE2, 0x81, 0x9F], [0xE3, 0x80, 0x80]])"

definition strip_any :: "string list \<Rightarrow> string \<Rightarrow> string option" where
  "strip_any ws s =
     (case List.find (\<lambda>w. w \<noteq> [] \<and> starts_with w s) ws of
        None \<Rightarrow> None
      | Some w \<Rightarrow> Some (drop (length w) s))"

lemma strip_any_shorter: "strip_any ws s = Some r \<Longrightarrow> length r < length s"
  by (auto simp: strip_any_def find_Some_iff starts_with_iff split: option.splits)

function trim_front :: "string list \<Rightarrow> string \<Rightarrow> string" where
  "trim_front ws s = (case strip_any ws s of None \<Rightarrow> s | Some r \<Rightarrow> trim_front ws r)"
  by pat_completeness auto
termination
  by (relation "measure (\<lambda>(ws, s). length s)") (auto dest: strip_any_shorter)

declare trim_front.simps [simp del]

definition trim :: "string \<Rightarrow> string" where
  "trim s = rev (trim_front (map rev whitespaces) (rev (trim_front whitespaces s)))"

lemma trim_front_id: "strip_any ws s = None \<Longrightarrow> trim_front ws s = s"
  by (simp add: trim_front.simps)

lemma strip_any_Nil [simp]: "strip_any ws [] = None"
  by (auto simp: strip_any_def starts_with_def find_None_iff find_Some_iff split: option.splits)

text \<open>A text whose ends are no part of white space is its own trimmed form.\<close>

definition plain_byte :: "char \<Rightarrow> bool" where
  "plain_byte c \<longleftrightarrow> (let n = (of_char c :: nat) in 33 \<le> n \<and> n < 128)"

lemma strip_any_plain:
  assumes "plain_byte c" and "\<And>w. w \<in> set ws \<Longrightarrow> w \<noteq> [] \<Longrightarrow> \<not> plain_byte (hd w)"
  shows "strip_any ws (c # s) = None"
proof -
  have "\<not> (w \<noteq> [] \<and> starts_with w (c # s))" if "w \<in> set ws" for w
    using assms(1) assms(2) [OF that] by (cases w) (auto simp: starts_with_def)
  then have "List.find (\<lambda>w. w \<noteq> [] \<and> starts_with w (c # s)) ws = None"
    by (auto simp: find_None_iff)
  then show ?thesis by (simp add: strip_any_def)
qed

lemma whitespaces_not_plain:
  "w \<in> set whitespaces \<Longrightarrow> w \<noteq> [] \<Longrightarrow> \<not> plain_byte (hd w) \<and> \<not> plain_byte (hd (rev w))"
proof -
  have "list_all (\<lambda>w. \<not> plain_byte (hd w) \<and> \<not> plain_byte (hd (rev w))) whitespaces"
    by code_simp
  then show "w \<in> set whitespaces \<Longrightarrow> w \<noteq> [] \<Longrightarrow> \<not> plain_byte (hd w) \<and> \<not> plain_byte (hd (rev w))"
    by (auto simp: list_all_iff)
qed

lemma trim_plain:
  assumes "s \<noteq> []" and "plain_byte (hd s)" and "plain_byte (last s)"
  shows "trim s = s"
proof -
  obtain c cs where s: "s = c # cs" using assms(1) by (cases s) auto
  have "strip_any whitespaces s = None"
    unfolding s by (rule strip_any_plain) (use assms(2) s whitespaces_not_plain in simp_all)
  then have f: "trim_front whitespaces s = s" by (rule trim_front_id)
  obtain d ds where r: "rev s = d # ds" using assms(1) by (cases "rev s") auto
  then have d: "d = last s" by (metis hd_rev list.sel(1))
  have "strip_any (map rev whitespaces) (rev s) = None"
    unfolding r
  proof (rule strip_any_plain)
    show "plain_byte d" using assms(3) d by simp
    fix w assume "w \<in> set (map rev whitespaces)" "w \<noteq> []"
    then obtain v where "v \<in> set whitespaces" "w = rev v" "v \<noteq> []" by auto
    then show "\<not> plain_byte (hd w)" using whitespaces_not_plain by simp
  qed
  then have "trim_front (map rev whitespaces) (rev s) = rev s" by (rule trim_front_id)
  with f show ?thesis by (simp add: trim_def)
qed

lemma trim_Nil [simp]: "trim [] = []"
  by (simp add: trim_def trim_front_id)

section \<open>Lines and pieces\<close>

text \<open>\<open>str::lines\<close>: a carriage return is dropped only before a line feed.\<close>

definition strip_cr :: "string \<Rightarrow> string" where
  "strip_cr s = (if s \<noteq> [] \<and> last s = CHR 0x0D then butlast s else s)"

definition lines :: "string \<Rightarrow> string list" where
  "lines s =
     (let ps = split_on CHR 0x0A s in
      map strip_cr (butlast ps) @ (if last ps = [] then [] else [last ps]))"

text \<open>\<open>split\_once\<close> at the first separator.\<close>

fun split_once :: "char \<Rightarrow> string \<Rightarrow> (string \<times> string) option" where
  "split_once c [] = None"
| "split_once c (x # xs) =
     (if x = c then Some ([], xs) else map_option (\<lambda>(a, b). (x # a, b)) (split_once c xs))"

lemma split_once_Some: "split_once c s = Some (a, b) \<longleftrightarrow> s = a @ c # b \<and> c \<notin> set a"
proof (induction s arbitrary: a)
  case (Cons x s)
  show ?case by (cases a) (auto simp: Cons.IH)
qed simp

lemma split_once_None: "split_once c s = None \<longleftrightarrow> c \<notin> set s"
  by (induction s) auto

text \<open>\<open>replace(c, r)\<close>.\<close>

definition replace_char :: "char \<Rightarrow> string \<Rightarrow> string \<Rightarrow> string" where
  "replace_char c r s = concat (map (\<lambda>x. if x = c then r else [x]) s)"

section \<open>Numbers\<close>

definition digit_val :: "char \<Rightarrow> nat option" where
  "digit_val c = (let n = of_char c in if 48 \<le> n \<and> n \<le> 57 then Some (n - 48) else None)"

fun digits_val :: "nat \<Rightarrow> string \<Rightarrow> nat option" where
  "digits_val acc [] = Some acc"
| "digits_val acc (c # cs) =
     (case digit_val c of None \<Rightarrow> None | Some d \<Rightarrow> digits_val (10 * acc + d) cs)"

text \<open>\<open>str::parse\<close> of an unsigned type with values up to \<open>mx\<close>: one sign \<open>+\<close> is allowed.\<close>

definition strip_plus :: "string \<Rightarrow> string" where
  "strip_plus s = (case s of c # r \<Rightarrow> if c = CHR ''+'' then r else s | [] \<Rightarrow> [])"

definition parse_uint :: "nat \<Rightarrow> string \<Rightarrow> nat option" where
  "parse_uint mx s =
     (let d = strip_plus s in
      if d = [] then None
      else case digits_val 0 d of
             None \<Rightarrow> None
           | Some n \<Rightarrow> if n \<le> mx then Some n else None)"

definition parse_u64_str :: "string \<Rightarrow> u64 option" where
  "parse_u64_str s = map_option word_of_nat (parse_uint u64_max s)"

definition u128_max :: nat where "u128_max = 2 ^ 128 - 1"

lemma parse_uint_le: "parse_uint mx s = Some n \<Longrightarrow> n \<le> mx"
  by (auto simp: parse_uint_def Let_def split: if_splits option.splits)

definition digit_char :: "nat \<Rightarrow> char" where
  "digit_char d = char_of (48 + d)"

fun show_nat :: "nat \<Rightarrow> string" where
  "show_nat n = (if n < 10 then [digit_char n] else show_nat (n div 10) @ [digit_char (n mod 10)])"

declare show_nat.simps [simp del]

lemma digit_val_char [simp]: "d < 10 \<Longrightarrow> digit_val (digit_char d) = Some d"
  by (simp add: digit_val_def digit_char_def Let_def)

lemma digits_val_append:
  "digits_val acc (a @ b) = (case digits_val acc a of None \<Rightarrow> None | Some n \<Rightarrow> digits_val n b)"
  by (induction a arbitrary: acc) (auto split: option.splits)

lemma digits_val_show: "digits_val 0 (show_nat n) = Some n"
proof (induction n rule: show_nat.induct)
  case (1 n)
  show ?case
  proof (cases "n < 10")
    case False
    with 1 show ?thesis
      by (subst show_nat.simps) (simp add: digits_val_append)
  qed (subst show_nat.simps, simp)
qed

lemma show_nat_nonempty [simp]: "show_nat n \<noteq> []"
  by (subst show_nat.simps) simp

lemma digit_char_not_plus [simp]: "d < 10 \<Longrightarrow> digit_char d \<noteq> CHR ''+''"
proof
  assume "d < 10" and "digit_char d = CHR ''+''"
  then have "digit_val (CHR ''+'') = Some d" by (metis digit_val_char)
  then show False by (simp add: digit_val_def Let_def)
qed

lemma show_nat_digits: "c \<in> set (show_nat n) \<Longrightarrow> \<exists>d < 10. c = digit_char d"
proof (induction n rule: show_nat.induct)
  case (1 n)
  then show ?case
    by (subst (asm) show_nat.simps) (auto split: if_splits intro: exI [of _ "n mod 10"])
qed

lemma parse_show: "n \<le> mx \<Longrightarrow> parse_uint mx (show_nat n) = Some n"
proof -
  assume n: "n \<le> mx"
  obtain c cs where s: "show_nat n = c # cs" by (cases "show_nat n") auto
  then have "c \<noteq> CHR ''+''" using show_nat_digits [of c n] by auto
  with s have "strip_plus (show_nat n) = show_nat n" by (simp add: strip_plus_def)
  with n show ?thesis by (simp add: parse_uint_def digits_val_show)
qed

text \<open>\<open>{n:0kx}\<close> of a number of at most \<open>k\<close> hexadecimal digits.\<close>

fun hex_fixed :: "nat \<Rightarrow> nat \<Rightarrow> string" where
  "hex_fixed 0 n = []"
| "hex_fixed (Suc k) n = hex_fixed k (n div 16) @ [''0123456789abcdef'' ! (n mod 16)]"

lemma length_hex_fixed [simp]: "length (hex_fixed k n) = k"
  by (induction k arbitrary: n) auto

section \<open>ASCII case\<close>

definition ascii_lower :: "char \<Rightarrow> char" where
  "ascii_lower c =
     (let n = (of_char c :: nat) in if 65 \<le> n \<and> n \<le> 90 then char_of (n + 32) else c)"

definition to_ascii_lowercase :: "string \<Rightarrow> string" where
  "to_ascii_lowercase s = map ascii_lower s"

definition eq_ignore_ascii_case :: "string \<Rightarrow> string \<Rightarrow> bool" where
  "eq_ignore_ascii_case a b \<longleftrightarrow> to_ascii_lowercase a = to_ascii_lowercase b"

end
