(* ===== verification/Config.thy ===== *)
theory Config
  imports Storage Rust_Text
begin

text \<open>
  The configuration part of \<open>src/main.rs\<close> and \<open>src/upload.rs\<close>: the arguments as the command line
  parser delivers them, the configuration made from them, durations, the table filter of a restore,
  and the construction of the storage. The command line parser itself is a library. Arithmetic on
  \<^typ>\<open>u64\<close> wraps, as in the release profile.
\<close>

section \<open>Patterns\<close>

definition normalize_pattern :: "string \<Rightarrow> string option" where
  "normalize_pattern s =
     (let trimmed = trim s in
      if trimmed = [] \<or> eq_ignore_ascii_case trimmed ''none'' then None else Some trimmed)"

section \<open>Durations\<close>

text \<open>
  The suffix \<open>M\<close>, else a last character that is a letter. A last character outside ASCII is an
  error whether it is a letter or not: no unit matches it.
\<close>

definition is_ascii_letter :: "char \<Rightarrow> bool" where
  "is_ascii_letter c \<longleftrightarrow> (let n = (of_char c :: nat) in 65 \<le> n \<and> n \<le> 90 \<or> 97 \<le> n \<and> n \<le> 122)"

definition split_unit :: "string \<Rightarrow> (string \<times> char) option" where
  "split_unit s =
     (case strip_suffix ''M'' s of
        Some stripped \<Rightarrow> Some (stripped, CHR ''M'')
      | None \<Rightarrow> if s \<noteq> [] \<and> is_ascii_letter (last s) then Some (butlast s, last s) else None)"

definition unit_minutes :: "char \<Rightarrow> u64 \<Rightarrow> u64 option" where
  "unit_minutes u num =
     (if u = CHR ''m'' then Some num
      else if u = CHR ''h'' then Some (num * 60)
      else if u = CHR ''d'' then Some (num * 60 * 24)
      else if u = CHR ''w'' then Some (num * 60 * 24 * 7)
      else if u = CHR ''M'' then Some (num * 60 * 24 * 30)
      else None)"

definition parse_duration_minutes :: "string \<Rightarrow> u64 result" where
  "parse_duration_minutes s0 =
     (let s = trim s0 in
      if s = [] then Inl (InvalidDuration s)
      else
        (case split_unit s of
           None \<Rightarrow> Inl (InvalidDuration s)
         | Some (num_str, unit) \<Rightarrow>
             (case parse_u64_str num_str of
                None \<Rightarrow> Inl (InvalidDuration s)
              | Some num \<Rightarrow>
                  (case unit_minutes unit num of
                     None \<Rightarrow> Inl (InvalidDuration s)
                   | Some minutes \<Rightarrow> Inr minutes))))"

section \<open>Arguments and configuration\<close>

record args =
  a_ch_url :: string
  a_ch_user :: string
  a_ch_password :: string
  a_use_clickhouse_local :: bool
  a_ch_config_path :: "string option"
  a_ch_data_path :: string
  a_backup_dir :: string
  a_ignore :: string
  a_only :: "string option"
  a_s3_bucket :: "string option"
  a_s3_region :: "string option"
  a_s3_endpoint :: "string option"
  a_s3_access_key_id :: "string option"
  a_s3_secret_access_key :: "string option"
  a_s3_prefix :: "string option"
  a_multipart_part_concurrency :: nat
  a_part_concurrency :: nat
  a_delete_concurrency :: nat
  a_upload_min_chunk_size :: "u64 option"
  a_upload_max_chunk_size :: "u64 option"
  a_upload_target_parts :: u64
  a_shard :: "string option"
  a_replica :: "string option"

record config =
  cfg_ch_url :: string
  cfg_ch_user :: string
  cfg_ch_password :: string
  cfg_ch_data_path :: string
  cfg_ch_config_path :: "string option"
  cfg_use_clickhouse_local :: bool
  cfg_output_dir :: string
  cfg_only_tables_pattern :: "string option"
  cfg_ignore_tables_pattern :: "string option"
  cfg_s3_bucket :: "string option"
  cfg_s3_region :: "string option"
  cfg_s3_endpoint :: "string option"
  cfg_s3_access_key_id :: "string option"
  cfg_s3_secret_access_key :: "string option"
  cfg_s3_prefix :: "string option"
  cfg_multipart_part_concurrency :: nat
  cfg_part_concurrency :: nat
  cfg_delete_concurrency :: nat
  cfg_upload_min_chunk_size :: u64
  cfg_upload_max_chunk_size :: u64
  cfg_upload_target_parts :: u64
  cfg_shard :: "string option"
  cfg_replica :: "string option"

definition from_args :: "args \<Rightarrow> config" where
  "from_args a =
     \<lparr>cfg_ch_url = a_ch_url a, cfg_ch_user = a_ch_user a, cfg_ch_password = a_ch_password a,
      cfg_ch_data_path = a_ch_data_path a, cfg_ch_config_path = a_ch_config_path a,
      cfg_use_clickhouse_local = a_use_clickhouse_local a, cfg_output_dir = a_backup_dir a,
      cfg_only_tables_pattern = Option.bind (a_only a) normalize_pattern,
      cfg_ignore_tables_pattern = normalize_pattern (a_ignore a),
      cfg_s3_bucket = a_s3_bucket a, cfg_s3_region = a_s3_region a,
      cfg_s3_endpoint = a_s3_endpoint a, cfg_s3_access_key_id = a_s3_access_key_id a,
      cfg_s3_secret_access_key = a_s3_secret_access_key a, cfg_s3_prefix = a_s3_prefix a,
      cfg_multipart_part_concurrency = a_multipart_part_concurrency a,
      cfg_part_concurrency = a_part_concurrency a,
      cfg_delete_concurrency = a_delete_concurrency a,
      cfg_upload_min_chunk_size = (case a_upload_min_chunk_size a of
          None \<Rightarrow> DEFAULT_MIN_PART_SIZE | Some mb \<Rightarrow> mb * 1024 * 1024),
      cfg_upload_max_chunk_size = (case a_upload_max_chunk_size a of
          None \<Rightarrow> DEFAULT_MAX_PART_SIZE | Some mb \<Rightarrow> mb * 1024 * 1024),
      cfg_upload_target_parts = a_upload_target_parts a,
      cfg_shard = a_shard a, cfg_replica = a_replica a\<rparr>"

text \<open>\<open>cfg.s3\_bucket.clone().context(...)?\<close>.\<close>

definition required :: "string \<Rightarrow> 'a option \<Rightarrow> 'a result" where
  "required what v = (case v of None \<Rightarrow> Inl (MissingOption what) | Some x \<Rightarrow> Inr x)"

definition init_storage :: "config \<Rightarrow> (storage \<times> upload_progress) result" where
  "init_storage cfg =
     bind_r (required ''S3_BUCKET'' (cfg_s3_bucket cfg)) (\<lambda>bucket.
     bind_r (required ''S3_REGION'' (cfg_s3_region cfg)) (\<lambda>region.
     bind_r (required ''S3_ACCESS_KEY_ID'' (cfg_s3_access_key_id cfg)) (\<lambda>access_key.
     bind_r (required ''S3_SECRET_ACCESS_KEY'' (cfg_s3_secret_access_key cfg)) (\<lambda>secret_key.
     Inr (new_storage (cfg_s3_prefix cfg) True (cfg_upload_min_chunk_size cfg)
            (cfg_upload_max_chunk_size cfg) (cfg_upload_target_parts cfg)
            (cfg_multipart_part_concurrency cfg), new_progress)))))"

text \<open>The option \<open>--table db.table\<close> of a restore.\<close>

definition parse_table_filter :: "string option \<Rightarrow> (string \<times> string) option result" where
  "parse_table_filter t =
     (case t of
        None \<Rightarrow> Inr None
      | Some s \<Rightarrow>
          (case split_once CHR ''.'' s of
             Some (db, tbl) \<Rightarrow> if db \<noteq> [] \<and> tbl \<noteq> [] then Inr (Some (db, tbl))
                                else Inl (InvalidTableFilter s)
           | None \<Rightarrow> Inl (InvalidTableFilter s)))"

section \<open>What a duration means\<close>

definition minutes_per_unit :: "(char \<times> nat) list" where
  "minutes_per_unit = [(CHR ''m'', 1), (CHR ''h'', 60), (CHR ''d'', 1440), (CHR ''w'', 10080),
     (CHR ''M'', 43200)]"

lemma unit_minutes_Some:
  "unit_minutes u num = Some m \<longleftrightarrow> (\<exists>k. (u, k) \<in> set minutes_per_unit \<and> m = num * word_of_nat k)"
  by (auto simp: unit_minutes_def minutes_per_unit_def mult.assoc split: if_splits)

lemma split_unit_Some: "split_unit s = Some (n, u) \<longleftrightarrow> s = n @ [u] \<and> is_ascii_letter u"
proof
  assume "split_unit s = Some (n, u)"
  then show "s = n @ [u] \<and> is_ascii_letter u"
    by (auto simp: split_unit_def strip_suffix_Some is_ascii_letter_def split: option.splits if_splits)
next
  assume "s = n @ [u] \<and> is_ascii_letter u"
  then show "split_unit s = Some (n, u)"
    by (cases "u = CHR ''M''")
       (auto simp: split_unit_def strip_suffix_Some split: option.splits)
qed

lemma parse_duration_Inr:
  "parse_duration_minutes s = Inr m \<longleftrightarrow>
     (\<exists>num u n k. trim s = num @ [u] \<and> parse_uint u64_max num = Some n \<and>
        (u, k) \<in> set minutes_per_unit \<and> m = word_of_nat (n * k))"
    (is "?l \<longleftrightarrow> ?r")
proof
  assume ?l
  then obtain num u n where s: "split_unit (trim s) = Some (num, u)"
    and n: "parse_uint u64_max num = Some n" and m: "unit_minutes u (word_of_nat n) = Some m"
    by (auto simp: parse_duration_minutes_def parse_u64_str_def Let_def
        split: if_splits option.splits prod.splits)
  from m obtain k where "(u, k) \<in> set minutes_per_unit" "m = word_of_nat (n * k)"
    by (auto simp: unit_minutes_Some)
  with s n show ?r by (auto simp: split_unit_Some)
next
  assume ?r
  then obtain num u n k where s: "trim s = num @ [u]" and n: "parse_uint u64_max num = Some n"
    and k: "(u, k) \<in> set minutes_per_unit" and m: "m = word_of_nat (n * k)" by blast
  have "is_ascii_letter u" using k by (auto simp: minutes_per_unit_def is_ascii_letter_def)
  with s have "split_unit (trim s) = Some (num, u)" by (simp add: split_unit_Some)
  moreover have "unit_minutes u (word_of_nat n) = Some m"
    using k m by (auto simp: unit_minutes_Some)
  ultimately show ?l using s n by (simp add: parse_duration_minutes_def parse_u64_str_def)
qed

section \<open>The properties\<close>

text \<open>
  A duration of the command line is a decimal number of 64 bits with an optional plus sign and
  one of the five units, blanks around it aside; it denotes the number of minutes modulo
  \<open>2 ^ 64\<close>, hence the exact number when that fits. Every other text is an error.
\<close>

theorem duration_denotes:
  "parse_duration_minutes s = Inr m \<longleftrightarrow>
     (\<exists>num u n k. trim s = num @ [u] \<and> parse_uint u64_max num = Some n \<and>
        (u, k) \<in> set minutes_per_unit \<and> unat m = (n * k) mod 2 ^ 64)"
proof -
  have "m = word_of_nat j \<longleftrightarrow> unat m = j mod 2 ^ 64" for j
    by (simp add: word_unat_eq_iff unat_of_nat)
  then show ?thesis unfolding parse_duration_Inr by (simp only:)
qed

text \<open>
  The multiplication is not checked: a retention of 307445734561825861 hours, about
  \<open>3.5 * 10 ^ 13\<close> years, is parsed without error as 44 minutes.
\<close>

theorem duration_wraps: "parse_duration_minutes ''307445734561825861h'' = Inr 44"
proof -
  have "trim ''307445734561825861h'' = ''307445734561825861'' @ ''h''"
    by (subst trim_plain) (simp_all add: plain_byte_def)
  moreover have "parse_uint u64_max ''307445734561825861'' = Some 307445734561825861"
    by (simp add: parse_uint_def strip_plus_def digit_val_def)
  ultimately show ?thesis
    unfolding parse_duration_Inr
    by (intro exI [of _ "''307445734561825861''"] exI [of _ "CHR ''h''"]
        exI [of _ 307445734561825861] exI [of _ 60]) (simp add: minutes_per_unit_def)
qed

end
