(* ===== verification/Clickhouse.thy ===== *)
theory Clickhouse
  imports Host Config Manifest Blob_Hash
begin

text \<open>
  \<open>src/clickhouse.rs\<close> and \<open>src/parts.rs\<close>: running a query through \<open>clickhouse local\<close> or over HTTP,
  the list of active parts, the macros, the existing tables, and the attachment of a part.
\<close>

section \<open>Running a query\<close>

definition find_clickhouse_local_bin :: "'s host \<Rightarrow> ('s, string \<times> string list) io" where
  "find_clickhouse_local_bin h =
     io_bind (host_call (h_which h ''clickhouse'')) (\<lambda>out.
     if out = Some True then io_return (''clickhouse'', [''local''])
     else
       io_bind (host_call (h_which h ''clickhouse-local'')) (\<lambda>out.
       if out = Some True then io_return (''clickhouse-local'', [])
       else io_fail ClickhouseNotFound))"

definition local_args :: "config \<Rightarrow> string \<Rightarrow> string list" where
  "local_args cfg sql =
     [''--path'', cfg_ch_data_path cfg]
     @ (case cfg_ch_config_path cfg of
          Some conf \<Rightarrow> [''--config-file'', to_string_lossy conf] | None \<Rightarrow> [])
     @ [''--query'', sql]"

definition run_sql_via_clickhouse_local :: "'s host \<Rightarrow> config \<Rightarrow> string \<Rightarrow> ('s, string) io" where
  "run_sql_via_clickhouse_local h cfg sql =
     io_bind (find_clickhouse_local_bin h) (\<lambda>(bin, args).
     io_bind (host_call (h_command h bin (args @ local_args cfg sql))) (\<lambda>out.
     case out of
       None \<Rightarrow> io_fail (ClickhouseLocalFailed [])
     | Some (success, stdout, stderr) \<Rightarrow>
         if \<not> success then io_fail (ClickhouseLocalFailed (to_string_lossy (of_bytes stderr)))
         else io_return (to_string_lossy (of_bytes stdout))))"

definition run_query :: "'s host \<Rightarrow> config \<Rightarrow> string \<Rightarrow> ('s, string) io" where
  "run_query h cfg sql =
     (if cfg_use_clickhouse_local cfg then run_sql_via_clickhouse_local h cfg sql
      else
        io_bind (host_call (h_http_post h (cfg_ch_url cfg) (cfg_ch_user cfg) (cfg_ch_password cfg) sql))
          (\<lambda>resp. case resp of
             None \<Rightarrow> io_fail HttpFailed
           | Some (status, text) \<Rightarrow> io_return text))"

section \<open>Reading the rows\<close>

fun json_index :: "json \<Rightarrow> string \<Rightarrow> json" where
  "json_index (JObject kvs) key = (case map_of kvs key of Some v \<Rightarrow> v | None \<Rightarrow> JNull)"
| "json_index _ key = JNull"

fun as_str :: "json \<Rightarrow> string option" where
  "as_str (JString s) = Some s"
| "as_str _ = None"

fun as_u64 :: "json \<Rightarrow> u64 option" where
  "as_u64 (JUInt n) = Some n"
| "as_u64 _ = None"

definition parse_u64 :: "json \<Rightarrow> u64" where
  "parse_u64 v =
     (case as_u64 v of
        Some n \<Rightarrow> n
      | None \<Rightarrow> (case Option.bind (as_str v) parse_u64_str of Some n \<Rightarrow> n | None \<Rightarrow> 0))"

definition normalize_hash :: "string \<Rightarrow> string result" where
  "normalize_hash raw =
     (let s = trim raw in
      if length s = 32 \<and> list_all is_ascii_hexdigit s then Inr (to_ascii_lowercase s)
      else (case parse_uint u128_max s of
              None \<Rightarrow> Inl (InvalidPartHash s)
            | Some n \<Rightarrow> Inr (hex_fixed 32 n)))"

fun number_text :: "json \<Rightarrow> string option" where
  "number_text (JUInt n) = Some (show_nat (unat n))"
| "number_text (JNegInt i) = Some (''-'' @ show_nat (nat (- i)))"
| "number_text (JFloat s) = Some s"
| "number_text _ = None"

definition parse_hash_of_all_files_hex :: "json \<Rightarrow> string option result" where
  "parse_hash_of_all_files_hex v =
     (case v of
        JNull \<Rightarrow> Inr None
      | JString s \<Rightarrow> bind_r (normalize_hash s) (\<lambda>h. Inr (Some h))
      | _ \<Rightarrow>
          (case number_text v of
             None \<Rightarrow> Inl UnexpectedHashType
           | Some s \<Rightarrow> bind_r (normalize_hash s) (\<lambda>h. Inr (Some h))))"

record part_info =
  p_database :: string
  p_table :: string
  p_name :: string
  p_path :: string
  p_hash :: string
  p_bytes_on_disk :: u64
  p_rows_count :: u64

definition str_or :: "string \<Rightarrow> json \<Rightarrow> string" where
  "str_or d v = (case as_str v of Some s \<Rightarrow> s | None \<Rightarrow> d)"

text \<open>One line of the answer: a line that is no JSON, or has a null hash, is skipped.\<close>

definition part_of_line :: "'s host \<Rightarrow> string \<Rightarrow> part_info list result" where
  "part_of_line h line =
     (case h_json h line of
        None \<Rightarrow> Inr []
      | Some json \<Rightarrow>
          bind_r (parse_hash_of_all_files_hex (json_index json ''hash_of_all_files'')) (\<lambda>hash.
          case hash of
            None \<Rightarrow> Inr []
          | Some hash \<Rightarrow>
              Inr [\<lparr>p_database = str_or [] (json_index json ''database''),
                    p_table = str_or [] (json_index json ''table''),
                    p_name = str_or [] (json_index json ''name''),
                    p_path = str_or [] (json_index json ''path''),
                    p_hash = hash,
                    p_bytes_on_disk = parse_u64 (json_index json ''bytes_on_disk''),
                    p_rows_count = parse_u64 (json_index json ''rows'')\<rparr>]))"

definition parse_active_parts :: "'s host \<Rightarrow> string \<Rightarrow> part_info list result" where
  "parse_active_parts h text =
     bind_r (map_r (part_of_line h) (lines text)) (\<lambda>pss. Inr (concat pss))"

section \<open>The queries\<close>

abbreviation apos :: char where "apos \<equiv> CHR 0x27"
abbreviation nl :: string where "nl \<equiv> [CHR 0x0A]"

definition escape_pattern :: "string \<Rightarrow> string" where
  "escape_pattern pattern =
     (let esc = replace_char apos [apos, apos] pattern in if esc = [] then ''.*'' else esc)"

definition table_match :: "string \<Rightarrow> string" where
  "table_match pattern =
     ''match(database || '' @ [apos] @ ''.'' @ [apos] @ '' || table, '' @ [apos]
       @ escape_pattern pattern @ [apos] @ '')''"

definition part_conditions :: "config \<Rightarrow> string list" where
  "part_conditions cfg =
     [''active = 1'']
     @ (case cfg_only_tables_pattern cfg of Some p \<Rightarrow> [table_match p] | None \<Rightarrow> [])
     @ (case cfg_ignore_tables_pattern cfg of Some p \<Rightarrow> [''NOT '' @ table_match p] | None \<Rightarrow> [])"

fun join_str :: "string \<Rightarrow> string list \<Rightarrow> string" where
  "join_str sep [] = []"
| "join_str sep [p] = p"
| "join_str sep (p # q # ps) = p @ sep @ join_str sep (q # ps)"

definition active_parts_query :: "config \<Rightarrow> string" where
  "active_parts_query cfg =
     nl @ ''        SELECT database, table, name, path, hash_of_all_files,''
     @ nl @ ''               bytes_on_disk, rows''
     @ nl @ ''        FROM system.parts''
     @ nl @ ''        WHERE '' @ join_str (nl @ ''            AND '') (part_conditions cfg)
     @ nl @ ''        ORDER BY level ASC -- newest parts first so we'' @ [apos]
          @ ''re less likely to hit a part that'' @ [apos] @ ''s already been merged into a larger part ''
          @ ''by the time we try to stage (hard link) it''
     @ nl @ ''        FORMAT JSONEachRow'' @ nl @ ''        ''"

definition query_active_parts :: "'s host \<Rightarrow> config \<Rightarrow> ('s, part_info list) io" where
  "query_active_parts h cfg =
     io_bind (run_query h cfg (active_parts_query cfg)) (\<lambda>text. io_lift (parse_active_parts h text))"

definition macros_query :: string where
  "macros_query = ''SELECT macro, substitution FROM system.macros FORMAT JSONEachRow''"

definition macro_of_line :: "'s host \<Rightarrow> string \<Rightarrow> (string \<times> string) list" where
  "macro_of_line h line =
     (case h_json h line of
        None \<Rightarrow> []
      | Some json \<Rightarrow>
          (case (as_str (json_index json ''macro''), as_str (json_index json ''substitution'')) of
             (Some m, Some s) \<Rightarrow> [(m, s)]
           | _ \<Rightarrow> []))"

definition query_macros :: "'s host \<Rightarrow> config \<Rightarrow> ('s, string \<Rightarrow> string option) io" where
  "query_macros h cfg =
     io_bind (run_query h cfg macros_query) (\<lambda>text.
       io_return (foldl (\<lambda>m (k, v). m(k \<mapsto> v)) Map.empty (concat (map (macro_of_line h) (lines text)))))"

definition existing_tables_query :: string where
  "existing_tables_query =
     nl @ ''        SELECT database, name'' @ nl @ ''        FROM system.tables''
     @ nl @ ''        WHERE database NOT IN ('' @ [apos] @ ''system'' @ [apos] @ '', '' @ [apos]
          @ ''INFORMATION_SCHEMA'' @ [apos] @ '', '' @ [apos] @ ''information_schema'' @ [apos] @ '')''
     @ nl @ ''        FORMAT JSONEachRow'' @ nl @ ''    ''"

definition table_of_line :: "'s host \<Rightarrow> string \<Rightarrow> (string \<times> string) list" where
  "table_of_line h line =
     (case h_json h line of
        None \<Rightarrow> []
      | Some json \<Rightarrow>
          (case (as_str (json_index json ''database''), as_str (json_index json ''name'')) of
             (Some d, Some t) \<Rightarrow> [(d, t)]
           | _ \<Rightarrow> []))"

definition query_existing_tables :: "'s host \<Rightarrow> config \<Rightarrow> ('s, (string \<times> string) set) io" where
  "query_existing_tables h cfg =
     io_bind (run_query h cfg existing_tables_query) (\<lambda>text.
       io_return (set (concat (map (table_of_line h) (lines text)))))"

abbreviation backtick :: char where "backtick \<equiv> CHR 0x60"

definition attach_query :: "string \<Rightarrow> string \<Rightarrow> string \<Rightarrow> string" where
  "attach_query database table part_name =
     ''ALTER TABLE '' @ [backtick] @ replace_char backtick [backtick, backtick] database @ [backtick]
     @ ''.'' @ [backtick] @ replace_char backtick [backtick, backtick] table @ [backtick]
     @ '' ATTACH PART '' @ [apos] @ replace_char apos [apos, apos] part_name @ [apos]"

definition attach_part :: "'s host \<Rightarrow> config \<Rightarrow> string \<Rightarrow> string \<Rightarrow> string \<Rightarrow> ('s, unit) io" where
  "attach_part h cfg database table part_name =
     io_bind (run_query h cfg (attach_query database table part_name)) (\<lambda>answer.
       if trim answer \<noteq> [] then io_fail (AttachFailed (trim answer)) else io_return ())"

section \<open>The tables of a list of parts\<close>

text \<open>A \<open>BTreeMap<String, BTreeSet<String>>\<close> as its sorted entries.\<close>

fun insert_table ::
  "string \<Rightarrow> string \<Rightarrow> (string \<times> string list) list \<Rightarrow> (string \<times> string list) list"
where
  "insert_table db t [] = [(db, [t])]"
| "insert_table db t ((d, ts) # m) =
     (if db = d then (d, insort_insert t ts) # m
      else if db < d then (db, [t]) # (d, ts) # m
      else (d, ts) # insert_table db t m)"

definition table_map_from_parts :: "part_info list \<Rightarrow> (string \<times> string list) list" where
  "table_map_from_parts parts =
     foldl (\<lambda>m p. insert_table (p_database p) (p_table p) m) [] parts"

section \<open>Normalized hashes\<close>

definition lower_hex :: "char \<Rightarrow> bool" where
  "lower_hex c \<longleftrightarrow> (let n = (of_char c :: nat) in 48 \<le> n \<and> n \<le> 57 \<or> 97 \<le> n \<and> n \<le> 102)"

lemma nth_hex_lower: "i < 16 \<Longrightarrow> lower_hex (''0123456789abcdef'' ! i)"
proof -
  have "list_all lower_hex ''0123456789abcdef''" by (simp add: lower_hex_def)
  then show "i < 16 \<Longrightarrow> lower_hex (''0123456789abcdef'' ! i)" by (simp only: list_all_length) simp
qed

lemma hex_fixed_lower: "c \<in> set (hex_fixed k n) \<Longrightarrow> lower_hex c"
  by (induction k arbitrary: n) (auto intro: nth_hex_lower simp del: nth_Cons_numeral)

lemma ascii_lower_hex: "is_ascii_hexdigit c \<Longrightarrow> lower_hex (ascii_lower c)"
  by (auto simp: is_ascii_hexdigit_def lower_hex_def ascii_lower_def Let_def)

lemma unat_of_char: "unat (of_char c :: u8) = of_char c"
proof -
  have "(of_char c :: u8) = of_nat (of_char c)" by (simp only: of_nat_of_char)
  then have "unat (of_char c :: u8) = (of_char c :: nat) mod 2 ^ 8" by (simp add: unat_of_nat)
  also have "\<dots> = of_char c" by simp
  finally show ?thesis .
qed

lemma lower_hex_byte: "lower_hex c \<Longrightarrow> is_hex_byte (of_char c) \<and> hex_lower (of_char c) = of_char c"
  by (auto simp: lower_hex_def is_hex_byte_def hex_lower_def word_le_nat_alt unat_of_char Let_def)

lemma lower_hex_canonical:
  assumes "length s = 32" and "\<And>c. c \<in> set s \<Longrightarrow> lower_hex c"
  shows "\<exists>b. from_hex s = Some b \<and> to_hex b = s"
proof -
  have "list_all is_hex_byte (as_bytes s)"
    using assms(2) lower_hex_byte by (auto simp: as_bytes_def list_all_iff)
  with assms(1) obtain b where b: "from_hex s = Some b" using from_hex_Some_iff by blast
  have "map hex_lower (as_bytes s) = as_bytes s"
    using assms(2) lower_hex_byte by (auto simp: as_bytes_def)
  with to_hex_from_hex [OF b] have "as_bytes (to_hex b) = as_bytes s" by simp
  then have "to_hex b = s" by (metis of_bytes_as_bytes)
  with b show ?thesis by blast
qed

lemma normalize_hash_lower:
  assumes "normalize_hash raw = Inr h"
  shows "length h = 32" and "c \<in> set h \<Longrightarrow> lower_hex c"
proof -
  let ?s = "trim raw"
  have "(length ?s = 32 \<and> list_all is_ascii_hexdigit ?s \<and> h = map ascii_lower ?s) \<or>
      (\<exists>n. h = hex_fixed 32 n)"
    using assms by (auto simp: normalize_hash_def Let_def to_ascii_lowercase_def
        split: if_splits option.splits)
  then show "length h = 32" and "c \<in> set h \<Longrightarrow> lower_hex c"
    using ascii_lower_hex hex_fixed_lower by (auto simp: list_all_iff)
qed

lemma normalize_hash_canonical:
  "normalize_hash raw = Inr h \<Longrightarrow> \<exists>b. from_hex h = Some b \<and> to_hex b = h"
  by (rule lower_hex_canonical) (auto dest: normalize_hash_lower)

lemma parse_hash_canonical:
  "parse_hash_of_all_files_hex v = Inr (Some h) \<Longrightarrow> \<exists>b. from_hex h = Some b \<and> to_hex b = h"
  by (auto simp: parse_hash_of_all_files_hex_def bind_r_Inr_iff
      split: json.splits option.splits dest: normalize_hash_canonical)

definition canonical_hash :: "string \<Rightarrow> bool" where
  "canonical_hash h \<longleftrightarrow> (\<exists>b. from_hex h = Some b \<and> to_hex b = h)"

lemma part_of_line_canonical:
  "part_of_line host line = Inr ps \<Longrightarrow> p \<in> set ps \<Longrightarrow> canonical_hash (p_hash p)"
  by (auto simp: part_of_line_def bind_r_Inr_iff canonical_hash_def
      split: option.splits dest!: parse_hash_canonical)

lemma map_r_Inr_member:
  "map_r f xs = Inr ys \<Longrightarrow> y \<in> set ys \<Longrightarrow> \<exists>x \<in> set xs. f x = Inr y"
  by (induction xs arbitrary: ys) (auto simp: bind_r_Inr_iff)

lemma parse_active_parts_canonical:
  "parse_active_parts host text = Inr ps \<Longrightarrow> p \<in> set ps \<Longrightarrow> canonical_hash (p_hash p)"
proof -
  assume "parse_active_parts host text = Inr ps" and p: "p \<in> set ps"
  then obtain pss where r: "map_r (part_of_line host) (lines text) = Inr pss" and "ps = concat pss"
    by (auto simp: parse_active_parts_def bind_r_Inr_iff)
  with p obtain qs where "qs \<in> set pss" and q: "p \<in> set qs" by auto
  from map_r_Inr_member [OF r this(1)] q show "canonical_hash (p_hash p)"
    using part_of_line_canonical by blast
qed

lemma query_active_parts_canonical:
  "query_active_parts host cfg w = (Ok ps, w') \<Longrightarrow> p \<in> set ps \<Longrightarrow> canonical_hash (p_hash p)"
  by (auto simp: query_active_parts_def io_lift_def split: sum.splits
      elim!: io_bind_OkE dest: parse_active_parts_canonical)

section \<open>The table map\<close>

text \<open>What a \<open>BTreeMap\<close> of \<open>BTreeSet\<close>s keeps, and the relation it stands for.\<close>

definition table_map_ok :: "(string \<times> string list) list \<Rightarrow> bool" where
  "table_map_ok m \<longleftrightarrow>
     sorted_wrt (<) (map fst m) \<and> (\<forall>e \<in> set m. sorted (snd e) \<and> distinct (snd e))"

definition tables_of :: "(string \<times> string list) list \<Rightarrow> (string \<times> string) set" where
  "tables_of m = {(d, t). \<exists>ts. (d, ts) \<in> set m \<and> t \<in> set ts}"

lemma insert_table_keys: "fst ` set (insert_table db t m) = insert db (fst ` set m)"
  by (induction db t m rule: insert_table.induct) auto

lemma insert_table_ok: "table_map_ok m \<Longrightarrow> table_map_ok (insert_table db t m)"
proof (induction db t m rule: insert_table.induct)
  case (2 db t d ts m)
  have tail: "table_map_ok m" and above: "\<And>k. k \<in> fst ` set m \<Longrightarrow> d < k"
    and ts: "sorted ts" "distinct ts"
    using "2.prems" by (auto simp: table_map_ok_def)
  consider "db = d" | "db < d" | "db \<noteq> d" "\<not> db < d" by blast
  then show ?case
  proof cases
    case 1
    with "2.prems" ts show ?thesis
      by (simp add: table_map_ok_def sorted_insort_insert distinct_insort_insert)
  next
    case 2
    with "2.prems" above show ?thesis by (fastforce simp: table_map_ok_def)
  next
    case 3
    then have "d < db" by auto
    have "d < k" if "k \<in> fst ` set (insert_table db t m)" for k
      using that above \<open>d < db\<close> by (auto simp: insert_table_keys)
    with 3 "2.IH" [OF 3 tail] ts show ?thesis by (auto simp: table_map_ok_def)
  qed
qed (simp add: table_map_ok_def)

lemma tables_of_insert: "tables_of (insert_table db t m) = insert (db, t) (tables_of m)"
  by (induction db t m rule: insert_table.induct)
     (auto simp: tables_of_def set_insort_insert split: if_splits)

lemma table_map_fold:
  "table_map_ok m \<Longrightarrow>
     table_map_ok (foldl (\<lambda>m p. insert_table (p_database p) (p_table p) m) m parts) \<and>
     tables_of (foldl (\<lambda>m p. insert_table (p_database p) (p_table p) m) m parts) =
       tables_of m \<union> (\<lambda>p. (p_database p, p_table p)) ` set parts"
  by (induction parts arbitrary: m) (simp_all add: insert_table_ok tables_of_insert)

section \<open>The properties\<close>

text \<open>
  The tables of a list of parts: databases in strictly ascending order, the tables of each in
  ascending order without repetition, and a table is listed exactly when a part is of it.
\<close>

theorem table_map_correct:
  "table_map_ok (table_map_from_parts parts) \<and>
   tables_of (table_map_from_parts parts) = (\<lambda>p. (p_database p, p_table p)) ` set parts"
proof -
  have "table_map_ok []" and "tables_of [] = {}" by (simp_all add: table_map_ok_def tables_of_def)
  with table_map_fold [of "[]" parts] show ?thesis by (simp add: table_map_from_parts_def)
qed

text \<open>
  C31. Every part a query returns carries a hash in its canonical form: 32 lower-case hexadecimal
  digits, which the parser of compact hashes reads and prints back unchanged. So the garbage
  collector, which ignores references that do not parse, sees every reference a backup makes.
\<close>

theorem part_hashes_canonical:
  assumes "query_active_parts h cfg w = (Ok parts, w')" and "p \<in> set parts"
  shows "\<exists>b. from_hex (p_hash p) = Some b \<and> to_hex b = p_hash p"
  using query_active_parts_canonical [OF assms] by (simp add: canonical_hash_def)

definition demo_config :: config where
  "demo_config = from_args \<lparr>a_ch_url = ''http://ch'', a_ch_user = ''default'', a_ch_password = [],
     a_use_clickhouse_local = False, a_ch_config_path = None, a_ch_data_path = ''/ch'',
     a_backup_dir = ''/backup'', a_ignore = ''none'', a_only = None, a_s3_bucket = Some ''b'',
     a_s3_region = Some ''r'', a_s3_endpoint = None, a_s3_access_key_id = Some ''k'',
     a_s3_secret_access_key = Some ''s'', a_s3_prefix = None, a_multipart_part_concurrency = 4,
     a_part_concurrency = 8, a_delete_concurrency = 32, a_upload_min_chunk_size = None,
     a_upload_max_chunk_size = None, a_upload_target_parts = 128, a_shard = None,
     a_replica = None\<rparr>"

text \<open>A server that answers every query with one text, and a parser that knows one row.\<close>

definition answering :: "nat \<Rightarrow> string \<Rightarrow> (string \<Rightarrow> json option) \<Rightarrow> 's host" where
  "answering status text js =
     null_host\<lparr>h_http_post := \<lambda>u n p q s. (Some (status, text), s), h_json := js\<rparr>"

definition demo_row :: json where
  "demo_row = JObject [(''database'', JString ''d''), (''table'', JString ''t''),
     (''hash_of_all_files'', JString (replicate 32 (CHR ''A''))), (''bytes_on_disk'', JString ''7'')]"

definition empty_world :: "unit world" where
  "empty_world = \<lparr>svc = (), progress = new_progress, guarded = False, trace = []\<rparr>"

lemma demo_config_simps [simp]:
  "cfg_use_clickhouse_local demo_config = False"
  "cfg_ch_data_path demo_config = ''/ch''" "cfg_output_dir demo_config = ''/backup''"
  "cfg_shard demo_config = None" "cfg_replica demo_config = None"
  by (simp_all add: demo_config_def from_args_def)

lemma run_query_http:
  assumes "\<not> cfg_use_clickhouse_local cfg"
    and "h_http_post h (cfg_ch_url cfg) (cfg_ch_user cfg) (cfg_ch_password cfg) sql (svc w)
           = (Some (status, text), s)"
  shows "run_query h cfg sql w = (Ok text, w\<lparr>svc := s\<rparr>)"
  using assms by (simp add: run_query_def io_bind_def host_call_def io_return_def)

theorem part_hashes_canonical_witness:
  "\<exists>b. from_hex (replicate 32 (CHR ''a'')) = Some b \<and> to_hex b = replicate 32 (CHR ''a'')"
proof -
  let ?h = "answering 200 ''x'' (\<lambda>l. Some demo_row) :: unit host"
  let ?p = "\<lparr>p_database = ''d'', p_table = ''t'', p_name = [], p_path = [],
     p_hash = replicate 32 (CHR ''a''), p_bytes_on_disk = 7, p_rows_count = 0\<rparr>"
  have "trim (replicate 32 (CHR ''A'')) = replicate 32 (CHR ''A'')"
    by (rule trim_plain) (simp_all add: plain_byte_def)
  moreover have "char_of (97 :: nat) = CHR ''a''" by code_simp
  ultimately have "normalize_hash (replicate 32 (CHR ''A'')) = Inr (replicate 32 (CHR ''a''))"
    by (simp add: normalize_hash_def list_all_iff is_ascii_hexdigit_def to_ascii_lowercase_def
        ascii_lower_def)
  then have "part_of_line ?h ''x'' = Inr [?p]"
    by (simp add: part_of_line_def answering_def demo_row_def parse_hash_of_all_files_hex_def
        str_or_def parse_u64_def parse_u64_str_def parse_uint_def strip_plus_def digit_val_def)
  then have "parse_active_parts ?h ''x'' = Inr [?p]"
    by (simp add: parse_active_parts_def lines_def)
  moreover have "run_query ?h demo_config (active_parts_query demo_config) empty_world
      = (Ok ''x'', empty_world)"
    by (subst run_query_http) (auto simp: answering_def empty_world_def)
  ultimately have "query_active_parts ?h demo_config empty_world = (Ok [?p], empty_world)"
    by (simp add: query_active_parts_def io_bind_def io_lift_def)
  from part_hashes_canonical [OF this, of ?p] show ?thesis by simp
qed

text \<open>
  C34. The status of an HTTP answer is not looked at, and lines that are not JSON are skipped: a
  server that refuses the query (a wrong password, a query error, an overload page) is taken for
  one without any active part, whatever the status and the text of its refusal.
\<close>

theorem refused_query_is_empty:
  assumes "\<not> cfg_use_clickhouse_local cfg"
    and "h_http_post h (cfg_ch_url cfg) (cfg_ch_user cfg) (cfg_ch_password cfg)
           (active_parts_query cfg) (svc w) = (Some (status, text), s)"
    and "\<And>line. line \<in> set (lines text) \<Longrightarrow> h_json h line = None"
  shows "query_active_parts h cfg w = (Ok [], w\<lparr>svc := s\<rparr>)"
proof -
  have "map_r (part_of_line h) (lines text) = Inr (map (\<lambda>_. []) (lines text))"
    using assms(3) by (intro map_r_all_Inr) (simp add: part_of_line_def)
  then have "parse_active_parts h text = Inr []"
    by (simp add: parse_active_parts_def)
  with run_query_http [OF assms(1,2)] show ?thesis
    by (simp add: query_active_parts_def io_bind_def io_lift_def)
qed

theorem refused_query_is_empty_witness:
  "query_active_parts (answering 401 ''Code: 516. Authentication failed'' (\<lambda>l. None)) demo_config
     empty_world = (Ok [], empty_world\<lparr>svc := ()\<rparr>)"
  by (rule refused_query_is_empty) (auto simp: answering_def)

lemma hex_fixed_power: "hex_fixed (Suc k) (16 ^ k) = CHR ''1'' # replicate k (CHR ''0'')"
proof (induction k)
  case (Suc k)
  have "hex_fixed (Suc (Suc k)) (16 ^ Suc k) = hex_fixed (Suc k) (16 ^ k) @ [CHR ''0'']"
    by (subst hex_fixed.simps(2)) simp
  then show ?case using Suc by (simp add: replicate_append_same [symmetric] del: hex_fixed.simps)
qed simp

text \<open>
  The normalization is not injective: a decimal hash of 32 digits is taken for a hexadecimal
  one, so the hashes \<open>10 ^ 31\<close> and \<open>16 ^ 31\<close>, both in decimal, name the same blob.
\<close>

theorem part_hash_collision:
  "parse_hash_of_all_files_hex (JString ''10000000000000000000000000000000'') =
     Inr (Some ''10000000000000000000000000000000'') \<and>
   parse_hash_of_all_files_hex (JString ''21267647932558653966460912964485513216'') =
     Inr (Some ''10000000000000000000000000000000'')"
proof -
  have t: "trim ''10000000000000000000000000000000'' = ''10000000000000000000000000000000''"
    "trim ''21267647932558653966460912964485513216'' = ''21267647932558653966460912964485513216''"
    by (simp_all add: trim_plain plain_byte_def)
  have a: "normalize_hash ''10000000000000000000000000000000'' = Inr ''10000000000000000000000000000000''"
    by (simp add: normalize_hash_def t(1) is_ascii_hexdigit_def to_ascii_lowercase_def ascii_lower_def)
  have p: "parse_uint u128_max ''21267647932558653966460912964485513216'' = Some (16 ^ 31)"
    by (simp add: parse_uint_def strip_plus_def digit_val_def u128_max_def)
  have "hex_fixed (Suc 31) (16 ^ 31) = ''10000000000000000000000000000000''"
    unfolding hex_fixed_power by code_simp
  then have "hex_fixed 32 (16 ^ 31) = ''10000000000000000000000000000000''"
    by (simp only: Suc_numeral add_num_simps)
  then have "normalize_hash ''21267647932558653966460912964485513216''
      = Inr ''10000000000000000000000000000000''"
    unfolding normalize_hash_def t(2) Let_def p by simp
  with a show ?thesis by (simp add: parse_hash_of_all_files_hex_def)
qed

end
