(* ===== verification/Staging.thy ===== *)
theory Staging
  imports Clickhouse Util
begin

text \<open>
  The first half of \<open>src/snapshots.rs\<close>: cleaning up, reading metadata files, resolving the directory
  of a part, and staging: a part directory is hard-linked file by file into the staging area, next to
  a marker file that says the copy is complete. A hard link keeps the contents whatever happens to
  the source, so a staged directory is a value, the tree that was linked. Parallel tasks run one after
  the other; a map iterated in hash order is an association list in the order of first appearance.
\<close>

section \<open>Paths\<close>

text \<open>\<open>Path::join\<close>: an absolute path replaces.\<close>

definition path_join :: "string \<Rightarrow> string \<Rightarrow> string" where
  "path_join base p =
     (if starts_with ''/'' p then p
      else if base = [] \<or> ends_with_slash base then base @ p
      else base @ ''/'' @ p)"

fun component_text :: "component \<Rightarrow> string" where
  "component_text RootDir = ''/''"
| "component_text CurDir = ''.''"
| "component_text ParentDir = ''..''"
| "component_text (Normal s) = s"

definition store_or_data :: "string \<Rightarrow> bool" where
  "store_or_data c \<longleftrightarrow> c = ''store'' \<or> c = ''data''"

definition resolve_part_path :: "'s host \<Rightarrow> part_info \<Rightarrow> string \<Rightarrow> ('s, string) io" where
  "resolve_part_path h part ch_data_path =
     (if starts_with ''/'' (p_path part) then
        io_bind (host_call (h_exists h (p_path part))) (\<lambda>there.
          if there then io_return (p_path part)
          else
            (case dropWhile (\<lambda>c. \<not> store_or_data c)
                    (map (\<lambda>c. to_string_lossy (component_text c)) (components (p_path part))) of
               [] \<Rightarrow> io_return (p_path part)
             | c # cs \<Rightarrow> io_return (path_join ch_data_path (foldl path_join [] (c # cs)))))
      else
        (let direct = path_join ch_data_path (p_path part) in
         io_bind (host_call (h_exists h direct)) (\<lambda>there.
           if there then io_return direct
           else if starts_with ''data/'' (p_path part) then io_return direct
           else
             (let with_data = path_join (path_join ch_data_path ''data'') (p_path part) in
              io_bind (host_call (h_exists h with_data)) (\<lambda>there.
                io_return (if there then with_data else direct))))))"

section \<open>Removing\<close>

definition remove_dir_all_if_exists :: "'s host \<Rightarrow> string \<Rightarrow> ('s, unit) io" where
  "remove_dir_all_if_exists h dir =
     io_bind (host_call (h_remove_dir h dir)) (\<lambda>r.
       if r = RemovalRefused then io_fail (RemoveFailed dir) else io_return ())"

definition remove_file_if_exists :: "'s host \<Rightarrow> string \<Rightarrow> ('s, unit) io" where
  "remove_file_if_exists h path =
     io_bind (host_call (h_remove_file h path)) (\<lambda>r.
       if r = RemovalRefused then io_fail (RemoveFailed path) else io_return ())"

text \<open>\<open>dir.with\_extension("staged")\<close>: a hash has no dot.\<close>

definition marker_path :: "string \<Rightarrow> string" where
  "marker_path dir = dir @ ''.staged''"

definition cleanup_staged_part :: "'s host \<Rightarrow> string \<Rightarrow> ('s, unit) io" where
  "cleanup_staged_part h dir =
     io_bind (remove_dir_all_if_exists h dir) (\<lambda>_. remove_file_if_exists h (marker_path dir))"

definition cleanup_staged_parts :: "'s host \<Rightarrow> string list \<Rightarrow> ('s, unit) io" where
  "cleanup_staged_parts h dirs = io_for dirs (cleanup_staged_part h)"

definition STAGING_DIR_NAME :: string where "STAGING_DIR_NAME = ''staging_parts''"

definition is_staging_name :: "string \<Rightarrow> bool" where
  "is_staging_name name \<longleftrightarrow>
     utf8_valid name \<and> (name = STAGING_DIR_NAME \<or> starts_with (STAGING_DIR_NAME @ ''-old-'') name)"

definition cleanup_staging_dirs :: "'s host \<Rightarrow> string \<Rightarrow> ('s, unit) io" where
  "cleanup_staging_dirs h output_dir =
     io_bind (host_call (h_read_dir h output_dir)) (\<lambda>entries.
     case entries of
       None \<Rightarrow> io_fail (FileReadFailed output_dir)
     | Some names \<Rightarrow>
         io_for (filter is_staging_name names)
           (\<lambda>name. remove_dir_all_if_exists h (path_join output_dir name)))"

definition create_dir_all_io :: "'s host \<Rightarrow> string \<Rightarrow> ('s, unit) io" where
  "create_dir_all_io h dir =
     io_bind (host_call (h_create_dir h dir)) (\<lambda>ok.
       if ok then io_return () else io_fail (OpenFailed dir))"

section \<open>Metadata files\<close>

text \<open>Entries the walk cannot read are dropped without a word, as are links.\<close>

definition collect_directory_files ::
  "'s env \<Rightarrow> 's host \<Rightarrow> string \<Rightarrow> string \<Rightarrow> ('s, manifest_file list) io"
where
  "collect_directory_files env h dir pre =
     io_bind (host_call (h_tree h dir)) (\<lambda>t.
     case t of
       None \<Rightarrow> io_return []
     | Some t \<Rightarrow>
         io_map (\<lambda>(p, c).
             case h_open h (join_on CHR ''/'' (dir # p)) c of
               None \<Rightarrow> io_fail (FileReadFailed (join_on CHR ''/'' (dir # p)))
             | Some content \<Rightarrow>
                 io_return (manifest_file_from_bytes env
                   (pre @ ''/'' @ to_string_lossy (join_on CHR ''/'' p)) content))
           (List.map_filter (\<lambda>(p, t). case t of TFile c \<Rightarrow> if p = [] then None else Some (p, c) | _ \<Rightarrow> None)
              (walk [] t)))"

definition read_metadata_file ::
  "'s env \<Rightarrow> 's host \<Rightarrow> string \<Rightarrow> string \<Rightarrow> ('s, manifest_file) io"
where
  "read_metadata_file env h file name =
     io_bind (host_call (h_read_file h file)) (\<lambda>r.
       case r of
         None \<Rightarrow> io_fail (FileReadFailed file)
       | Some content \<Rightarrow> io_return (manifest_file_from_bytes env name content))"

definition inner_table :: "string \<Rightarrow> bool" where
  "inner_table table \<longleftrightarrow> starts_with ''.inner_id.'' table"

definition collect_database_files ::
  "'s env \<Rightarrow> 's host \<Rightarrow> string \<Rightarrow> string \<times> string list \<Rightarrow> ('s, manifest_file list) io"
where
  "collect_database_files env h metadata_dir entry =
     (let (db, tables) = entry in
      io_bind (read_metadata_file env h (path_join metadata_dir (db @ ''.sql''))
                 (''metadata/'' @ db @ ''.sql'')) (\<lambda>ddl.
      io_bind (io_map (\<lambda>table.
          read_metadata_file env h (path_join (path_join metadata_dir db) (table @ ''.sql''))
            (''metadata/'' @ db @ ''/'' @ table @ ''.sql''))
        (filter (\<lambda>t. \<not> inner_table t) tables)) (\<lambda>ddls.
      io_return (ddl # ddls))))"

definition collect_metadata_files ::
  "'s env \<Rightarrow> 's host \<Rightarrow> (string \<times> string list) list \<Rightarrow> string \<Rightarrow> ('s, manifest_file list) io"
where
  "collect_metadata_files env h tables ch_data_path =
     io_bind (io_map (collect_database_files env h (path_join ch_data_path ''metadata'')) tables)
       (\<lambda>per_db.
     io_bind (collect_directory_files env h (path_join ch_data_path ''user_defined'') ''user_defined'')
       (\<lambda>udfs.
     io_bind (collect_directory_files env h (path_join ch_data_path ''user_scripts'') ''user_scripts'')
       (\<lambda>scripts.
     io_return (concat per_db @ udfs @ scripts))))"

section \<open>Staging one part\<close>

text \<open>The slot of a part in the staging area: the directory and whether its marker is there.\<close>

record slot =
  slot_dir :: "dir_tree option"
  slot_marker :: bool

type_synonym area = "string \<Rightarrow> slot"

definition empty_area :: area where
  "empty_area = (\<lambda>dst. \<lparr>slot_dir = None, slot_marker = False\<rparr>)"

definition stage_file :: "stage_os \<Rightarrow> string list \<Rightarrow> bytes \<Rightarrow> dir_tree option \<times> u32 result" where
  "stage_file os p c =
     (case so_link os p of
        Linked \<Rightarrow> (Some (TFile c), Inr 1)
      | LinkExists old \<Rightarrow>
          if length old \<noteq> length c then (Some (TFile old), Inl (StagedSizeDiffers (join_on CHR ''/'' p)))
          else (Some (TFile old), Inr 1)
      | LinkCrosses \<Rightarrow> (None, Inl (CrossDeviceLink (join_on CHR ''/'' p)))
      | LinkRefused \<Rightarrow> (None, Inl (LinkFailed (join_on CHR ''/'' p))))"

text \<open>The walk over the source: what it leaves at the destination, and the files linked.\<close>

fun stage_tree :: "stage_os \<Rightarrow> string list \<Rightarrow> dir_tree \<Rightarrow> dir_tree option \<times> u32 result"
and stage_entries ::
  "stage_os \<Rightarrow> string list \<Rightarrow> (string \<times> dir_tree) list \<Rightarrow> (string \<times> dir_tree) list \<times> u32 result"
where
  "stage_tree os p (TFile c) = stage_file os p c"
| "stage_tree os p (TDir es) =
     (if \<not> so_mkdir os p then (None, Inl (OpenFailed (join_on CHR ''/'' p)))
      else (case stage_entries os p es of (es', r) \<Rightarrow> (Some (TDir es'), r)))"
| "stage_tree os p TSymlink = (None, Inl (SymlinkNotSupported (join_on CHR ''/'' p)))"
| "stage_tree os p TOther = (None, Inr 0)"
| "stage_tree os p TBroken = (None, Inl WalkFailed)"
| "stage_entries os p [] = ([], Inr 0)"
| "stage_entries os p ((n, t) # es) =
     (case stage_tree os (p @ [n]) t of (t', r) \<Rightarrow>
       let here = (case t' of Some x \<Rightarrow> [(n, x)] | None \<Rightarrow> []) in
       case r of
         Inl e \<Rightarrow> (here, Inl e)
       | Inr k \<Rightarrow> (case stage_entries os p es of (es', r') \<Rightarrow>
           (here @ es', bind_r r' (\<lambda>k'. Inr (k + k')))))"

text \<open>The root of the walk is not copied; a link or an unreadable root is an error.\<close>

definition stage_root :: "stage_os \<Rightarrow> dir_tree \<Rightarrow> dir_tree \<times> u32 result" where
  "stage_root os t =
     (case t of
        TDir es \<Rightarrow> (case stage_entries os [] es of (es', r) \<Rightarrow> (TDir es', r))
      | TSymlink \<Rightarrow> (TDir [], Inl (SymlinkNotSupported []))
      | TBroken \<Rightarrow> (TDir [], Inl WalkFailed)
      | _ \<Rightarrow> (TDir [], Inr 0))"

fun is_regular :: "dir_tree \<Rightarrow> bool" where
  "is_regular (TFile c) = True"
| "is_regular _ = False"

definition count_files :: "dir_tree \<Rightarrow> u32" where
  "count_files t = word_of_nat (length (filter (\<lambda>(p, x). is_regular x) (walk [] t)))"

definition stage_part_dir :: "stage_os \<Rightarrow> string \<Rightarrow> dir_tree option \<Rightarrow> slot \<Rightarrow> slot \<times> u32 result" where
  "stage_part_dir os src t sl =
     (case t of
        None \<Rightarrow> (sl, Inl (PartDirMissing src))
      | Some t \<Rightarrow>
          (case (slot_marker sl, slot_dir sl) of
             (True, Some staged) \<Rightarrow> (sl, Inr (count_files staged))
           | _ \<Rightarrow>
               if slot_dir sl \<noteq> None \<and> \<not> so_remove os then (sl, Inl (RemoveFailed src))
               else
                 let sl = \<lparr>slot_dir = None, slot_marker = False\<rparr> in
                 if \<not> so_create os then (sl, Inl (OpenFailed src))
                 else
                   (case stage_root os t of (staged, r) \<Rightarrow>
                      let sl = sl\<lparr>slot_dir := Some staged\<rparr> in
                      case r of
                        Inl e \<Rightarrow> (sl, Inl e)
                      | Inr count \<Rightarrow>
                          if so_marker os then (sl\<lparr>slot_marker := True\<rparr>, Inr count)
                          else (sl, Inl (OpenFailed src)))))"

section \<open>Staging all parts\<close>

definition stage_shard :: "string \<Rightarrow> string" where
  "stage_shard hash = (if 2 \<le> length hash then take 2 hash else ''__'')"

definition stage_dst :: "string \<Rightarrow> string \<Rightarrow> string" where
  "stage_dst staging_root hash = path_join (path_join staging_root (stage_shard hash)) hash"

definition stage_one ::
  "'s env \<Rightarrow> 's host \<Rightarrow> string \<Rightarrow> string \<Rightarrow> area \<Rightarrow> string \<times> part_info \<Rightarrow> ('s, area \<times> u32 result) io"
where
  "stage_one env h ch_data_path staging_root area entry =
     (let (hash, part) = entry; dst = stage_dst staging_root hash in
      io_bind (emit h (PartStaging hash)) (\<lambda>_.
      io_bind (resolve_part_path h part ch_data_path) (\<lambda>src.
      io_bind (host_call (h_exists h src)) (\<lambda>there.
      if \<not> there then
        io_bind (timed_progress env record_part_staged) (\<lambda>_. io_return (area, Inl (PartDirMissing src)))
      else
        io_bind (host_call (h_tree h src)) (\<lambda>t.
        io_bind (host_call (h_stage_os h dst)) (\<lambda>os.
        (case stage_part_dir os src t (area dst) of (sl, r) \<Rightarrow>
           io_bind (timed_progress env record_part_staged) (\<lambda>_.
           io_bind (case r of Inl e \<Rightarrow> io_return ()
                    | Inr count \<Rightarrow> emit h (PartStaged hash count)) (\<lambda>_.
           io_return (area(dst := sl), r))))))))))"

text \<open>A staged part: its directory in the staging area and the tree linked there.\<close>

type_synonym staged_map = "(string \<times> string \<times> dir_tree) list"

fun stage_all ::
  "'s env \<Rightarrow> 's host \<Rightarrow> string \<Rightarrow> string \<Rightarrow> area \<Rightarrow> (string \<times> part_info) list
     \<Rightarrow> ('s, area \<times> staged_map \<times> string list) io"
where
  "stage_all env h ch_data_path staging_root area [] = io_return (area, [], [])"
| "stage_all env h ch_data_path staging_root area ((hash, part) # rest) =
     io_bind (stage_one env h ch_data_path staging_root area (hash, part)) (\<lambda>(area', r).
     io_bind (stage_all env h ch_data_path staging_root area' rest) (\<lambda>(area'', staged, missing).
       let dst = stage_dst staging_root hash in
       io_return (area'',
         (case (r, slot_dir (area' dst)) of
            (Inr _, Some t) \<Rightarrow> (hash, dst, t) # staged | _ \<Rightarrow> staged),
         (case r of Inl e \<Rightarrow> hash # missing | Inr _ \<Rightarrow> missing))))"

definition stage_parts_cas ::
  "'s env \<Rightarrow> 's host \<Rightarrow> string \<Rightarrow> string \<Rightarrow> area \<Rightarrow> (string \<times> part_info) list
     \<Rightarrow> ('s, area \<times> staged_map \<times> string list) io"
where
  "stage_parts_cas env h ch_data_path staging_root area parts_by_hash =
     io_bind (timed_progress env (set_staging_total (word_of_nat (length parts_by_hash)))) (\<lambda>_.
       stage_all env h ch_data_path staging_root area parts_by_hash)"

end
