(* ===== verification/Zip_Sink.thy ===== *)
theory Zip_Sink
  imports Part_Tree
begin

text \<open>
  What \<open>write\_zip\<close> has written when it stops, also when it stops with an error. The upload reads the
  archive from a pipe that the writer closes in both cases (the buffered writer flushes when it is
  dropped), so these are the bytes that are uploaded. A failure leaves the complete entries before
  the failing one, and of that one what was written up to the failing step.
\<close>

definition entry_start :: "bool \<Rightarrow> u64 \<Rightarrow> bytes" where
  "entry_start needs_zip64 sz =
     write_u32 ZIP_LOCAL_FILE_HEADER_SIG
     @ write_u16 ZIP_VERSION_ZIP64 @ write_u16 ZIP_FLAG_DATA_DESCRIPTOR
     @ write_u16 ZIP_METHOD_STORED @ write_u16 0 @ write_u16 0 @ write_u32 0
     @ local_sizes needs_zip64 sz"

definition partial_entry ::
  "(string \<Rightarrow> bytes option) \<Rightarrow> zip_writer \<Rightarrow> zip_file_entry \<Rightarrow> bytes"
where
  "partial_entry content w f =
     (case path_to_zip_name (rel_path f) of
        Inl e \<Rightarrow> []
      | Inr name \<Rightarrow>
          let sz = file_size f;
              needs_zip64 = (u32_max64 < sz \<or> u32_max64 < zw_offset w);
              local_extra = (if needs_zip64 then build_zip64_extra_local sz sz else [])
          in
          entry_start needs_zip64 sz @
          (if 65535 < length name then []
           else
             write_u16 (word_of_nat (length name)) @ write_u16 (word_of_nat (length local_extra))
             @ as_bytes name @ local_extra
             @ (case content (abs_path f) of None \<Rightarrow> [] | Some c \<Rightarrow> take (unat sz) c)))"

fun entries_sink ::
  "(bytes \<Rightarrow> u32) \<Rightarrow> (string \<Rightarrow> bytes option) \<Rightarrow> zip_writer \<Rightarrow> zip_file_entry list \<Rightarrow> bytes"
where
  "entries_sink crc content w [] = zw_out w"
| "entries_sink crc content w (f # fs) =
     (case write_entry crc content w f of
        Inr w' \<Rightarrow> entries_sink crc content w' fs
      | Inl e \<Rightarrow> zw_out w @ partial_entry content w f)"

definition zip_sink ::
  "(bytes \<Rightarrow> u32) \<Rightarrow> (string \<Rightarrow> bytes option) \<Rightarrow> zip_file_entry list \<Rightarrow> bytes"
where
  "zip_sink crc content files =
     (case write_zip crc content files of
        Inr (out, n) \<Rightarrow> out
      | Inl e \<Rightarrow> entries_sink crc content \<lparr>zw_out = [], zw_offset = 0, zw_central = []\<rparr> files)"

lemma zip_sink_ok: "write_zip crc content files = Inr (out, n) \<Longrightarrow> zip_sink crc content files = out"
  by (simp add: zip_sink_def)

text \<open>The contents found under the paths of a staged directory.\<close>

definition tree_content :: "string \<Rightarrow> dir_tree \<Rightarrow> string \<Rightarrow> bytes option" where
  "tree_content dir t path =
     (case strip_prefix (dir @ ''/'') path of
        None \<Rightarrow> None
      | Some rel \<Rightarrow>
          (case tree_at t (split_on CHR ''/'' rel) of Some (TFile c) \<Rightarrow> Some c | _ \<Rightarrow> None))"

end
