(* ===== verification/Snapshots.thy ===== *)
theory Snapshots
  imports Staging Zip_Sink "HOL-Library.AList"
begin

text \<open>
  \<open>create\_snapshot\<close> of \<open>src/snapshots.rs\<close> and the functions it is made of: the check for blobs that
  are already in the bucket, the upload of staged directories as archives, the identity of the
  replica, the hashes known from the latest manifest, and the two loops that start over when parts
  disappear. The check runs before staging instead of beside it, uploads run one after the other.
\<close>

section \<open>Which parts to upload\<close>

text \<open>The first part of each hash.\<close>

fun first_parts :: "string set \<Rightarrow> part_info list \<Rightarrow> part_info list" where
  "first_parts seen [] = []"
| "first_parts seen (p # ps) =
     (if p_hash p \<in> seen then first_parts seen ps else p # first_parts (insert (p_hash p) seen) ps)"

definition parts_to_upload ::
  "part_info list \<Rightarrow> string set \<Rightarrow> (string \<times> part_info) list \<times> nat"
where
  "parts_to_upload parts known =
     (let firsts = first_parts {} parts in
      (map (\<lambda>p. (p_hash p, p)) (filter (\<lambda>p. p_hash p \<notin> known) firsts), length firsts))"

definition HEAD_CHECK_THRESHOLD :: u64 where "HEAD_CHECK_THRESHOLD = 512 * 1024"

definition head_check_one ::
  "'s env \<Rightarrow> 's host \<Rightarrow> storage \<Rightarrow> string \<Rightarrow> ('s, (string \<times> u64) list) io"
where
  "head_check_one env h st hash =
     io_bind (emit h (PartHeadCheck hash)) (\<lambda>_.
     io_bind (attempt (object_exists env st (blob_remote_key hash))) (\<lambda>r.
     case r of
       Inr (Some sz) \<Rightarrow> io_bind (emit h (PartHeadSkipped hash sz)) (\<lambda>_. io_return [(hash, sz)])
     | Inr None \<Rightarrow> io_return []
     | Inl e \<Rightarrow> io_return []))"

definition head_check_existing ::
  "'s env \<Rightarrow> 's host \<Rightarrow> storage \<Rightarrow> (string \<times> u64) list \<Rightarrow> ('s, (string \<times> u64) list) io"
where
  "head_check_existing env h st hashes_with_sizes =
     io_bind (io_map (head_check_one env h st)
         (map fst (filter (\<lambda>(hash, bytes). HEAD_CHECK_THRESHOLD \<le> bytes) hashes_with_sizes)))
       (\<lambda>found. io_return (concat found))"

section \<open>Uploading\<close>

definition upload_one_archive ::
  "'s env \<Rightarrow> 's host \<Rightarrow> storage \<Rightarrow> string \<times> string \<times> dir_tree \<Rightarrow> ('s, string \<times> u64) io"
where
  "upload_one_archive env h st entry =
     (let (hash, dir, tree) = entry in
      io_bind (io_lift (collect_files dir tree)) (\<lambda>files.
      let expected_size = estimate_zip_size files;
          content = (\<lambda>path. Option.bind (tree_content dir tree path) (h_open h path))
      in
      io_bind (with_progress (add_upload_total_bytes_est expected_size)) (\<lambda>_.
      io_bind (emit h (PartUploading hash)) (\<lambda>_.
      io_bind (put_object_multipart_reader env st (blob_remote_key hash)
                 (h_chunks h (zip_sink (crc32 env) content files), False) expected_size
                 (\<lambda>bytes_so_far. emit h (PartUploadProgress hash bytes_so_far expected_size))) (\<lambda>uploaded.
      io_bind (io_lift (write_zip (crc32 env) content files)) (\<lambda>(out, written).
      if uploaded \<noteq> written then io_fail (UploadSizeMismatch hash uploaded written)
      else
        io_bind (timed_progress env record_upload_done) (\<lambda>_.
        io_bind (cleanup_staged_part h dir) (\<lambda>_.
        io_bind (emit h (PartDone hash uploaded)) (\<lambda>_.
        io_return (hash, uploaded))))))))))"

text \<open>All uploads run to their end before the first error is reported.\<close>

definition upload_part_archives ::
  "'s env \<Rightarrow> 's host \<Rightarrow> storage \<Rightarrow> staged_map \<Rightarrow> ('s, (string \<times> u64) list) io"
where
  "upload_part_archives env h st staged_dirs =
     io_bind (timed_progress env (set_upload_total (word_of_nat (length staged_dirs)))) (\<lambda>_.
     io_bind (io_map (\<lambda>e. attempt (upload_one_archive env h st e)) staged_dirs) (\<lambda>results.
     io_lift (map_r (\<lambda>r. r) results)))"

section \<open>Identity and known hashes\<close>

definition or_else :: "'a option \<Rightarrow> 'a option \<Rightarrow> 'a option" where
  "or_else a b = (case a of Some x \<Rightarrow> Some x | None \<Rightarrow> b)"

definition resolve_shard_replica :: "'s host \<Rightarrow> config \<Rightarrow> ('s, string \<times> string) io" where
  "resolve_shard_replica h cfg =
     io_bind (if (cfg_shard cfg = None \<or> cfg_replica cfg = None) \<and> \<not> cfg_use_clickhouse_local cfg
              then io_match (query_macros h cfg)
                (\<lambda>macros. io_return (or_else (cfg_shard cfg) (macros ''shard''),
                                     or_else (cfg_replica cfg) (macros ''replica'')))
                (\<lambda>e. io_return (cfg_shard cfg, cfg_replica cfg))
              else io_return (cfg_shard cfg, cfg_replica cfg)) (\<lambda>(shard, replica).
     case shard of
       None \<Rightarrow> io_fail NoShardIdentity
     | Some shard \<Rightarrow>
         (case replica of
            None \<Rightarrow> io_fail NoReplicaIdentity
          | Some replica \<Rightarrow> io_return (shard, replica)))"

definition latest_name :: "string \<Rightarrow> string list \<Rightarrow> string option" where
  "latest_name pre names =
     (case filter (starts_with pre) names of [] \<Rightarrow> None | n # ns \<Rightarrow> Some (fold max ns n))"

definition load_known_from_latest_manifest ::
  "'s env \<Rightarrow> manifest_codec \<Rightarrow> storage \<Rightarrow> string \<Rightarrow> string
     \<Rightarrow> ('s, string set \<times> (string \<Rightarrow> u64 option)) io"
where
  "load_known_from_latest_manifest env cd st shard replica =
     io_bind (list_manifest_names env st) (\<lambda>names.
     case latest_name (''live_'' @ shard @ ''_'' @ replica @ ''_'') names of
       None \<Rightarrow> io_return ({}, Map.empty)
     | Some latest \<Rightarrow>
         io_bind (read_manifest env cd st latest) (\<lambda>m.
           io_return (set (map mp_blob_hash (m_parts m)),
             foldl (\<lambda>sizes p. sizes(mp_blob_hash p \<mapsto> mp_blob_size p)) Map.empty (m_parts m))))"

section \<open>The two loops\<close>

definition MAX_STAGING_ITERATIONS :: nat where "MAX_STAGING_ITERATIONS = 5"

definition staged_hashes :: "staged_map \<Rightarrow> string set" where
  "staged_hashes staged = set (map fst staged)"

text \<open>The first argument counts the passes left.\<close>

fun stage_loop ::
  "nat \<Rightarrow> 's env \<Rightarrow> 's host \<Rightarrow> config \<Rightarrow> string set \<Rightarrow> string \<Rightarrow> area \<Rightarrow> staged_map
     \<Rightarrow> part_info list \<Rightarrow> ('s, staged_map \<times> part_info list) io"
where
  "stage_loop 0 env h cfg known staging_root area staged parts = io_return (staged, parts)"
| "stage_loop (Suc n) env h cfg known staging_root area staged parts =
     (let (need_upload, unique_parts) = parts_to_upload parts known;
          need_stage = filter (\<lambda>(hash, p). hash \<notin> staged_hashes staged) need_upload
      in
      if need_stage = [] then io_return (staged, parts)
      else
        io_bind (stage_parts_cas env h (cfg_ch_data_path cfg) staging_root area need_stage)
          (\<lambda>(area', new, missing).
        let staged' = staged @ new in
        if missing = [] then io_return (staged', parts)
        else if n = 0 then io_fail (PartsDisappeared (length missing))
        else
          io_bind (query_active_parts h cfg) (\<lambda>parts'.
            stage_loop n env h cfg known staging_root area' staged' parts')))"

fun metadata_loop ::
  "nat \<Rightarrow> 's env \<Rightarrow> 's host \<Rightarrow> config \<Rightarrow> part_info list
     \<Rightarrow> ('s, manifest_file list \<times> part_info list) io"
where
  "metadata_loop 0 env h cfg parts = io_fail (FileReadFailed ''metadata'')"
| "metadata_loop (Suc n) env h cfg parts =
     io_match (collect_metadata_files env h (table_map_from_parts parts) (cfg_ch_data_path cfg))
       (\<lambda>files. io_return (files, parts))
       (\<lambda>e. if n = 0 then io_fail e
            else io_bind (query_active_parts h cfg) (\<lambda>parts'. metadata_loop n env h cfg parts'))"

section \<open>The plan and the manifest\<close>

definition upload_dirs ::
  "staged_map \<Rightarrow> (string \<times> part_info) list \<Rightarrow> (string \<times> u64) list \<Rightarrow> staged_map"
where
  "upload_dirs staged need head =
     filter (\<lambda>(hash, d). hash \<in> set (map fst need) \<and> hash \<notin> set (map fst head)) staged"

definition unused_dirs ::
  "staged_map \<Rightarrow> (string \<times> part_info) list \<Rightarrow> (string \<times> u64) list \<Rightarrow> string list"
where
  "unused_dirs staged need head =
     map (\<lambda>(hash, dir, t). dir)
       (filter (\<lambda>(hash, d). \<not> (hash \<in> set (map fst need) \<and> hash \<notin> set (map fst head))) staged)"

definition check_staged ::
  "staged_map \<Rightarrow> (string \<times> part_info) list \<Rightarrow> (string \<times> u64) list \<Rightarrow> unit result"
where
  "check_staged dirs need head =
     (case List.find (\<lambda>hash. hash \<notin> set (map fst head) \<and> hash \<notin> set (map fst dirs)) (map fst need) of
        None \<Rightarrow> Inr ()
      | Some hash \<Rightarrow> Inl (NotStaged hash))"

text \<open>The sizes of this run: insertions into a map, a later one replaces.\<close>

definition uploaded_sizes :: "(string \<times> u64) list \<Rightarrow> (string \<times> u64) list \<Rightarrow> (string \<times> u64) list" where
  "uploaded_sizes new head = fold (\<lambda>(hash, sz). AList.update hash sz) (new @ head) []"

definition merge_size :: "(string \<Rightarrow> u64 option) \<Rightarrow> string \<times> u64 \<Rightarrow> (string \<Rightarrow> u64 option) result" where
  "merge_size known e =
     (let (hash, sz) = e in
      case known hash of
        Some prev \<Rightarrow> if prev \<noteq> sz then Inl (BlobSizeMismatch hash prev sz) else Inr (known(hash \<mapsto> sz))
      | None \<Rightarrow> Inr (known(hash \<mapsto> sz)))"

definition manifest_part_of :: "(string \<Rightarrow> u64 option) \<Rightarrow> part_info \<Rightarrow> manifest_part result" where
  "manifest_part_of sizes p =
     (case sizes (p_hash p) of
        None \<Rightarrow> Inl (MissingBlobSize (p_hash p))
      | Some sz \<Rightarrow> Inr \<lparr>mp_database = p_database p, mp_table_name = p_table p,
                       mp_part_name = p_name p, mp_blob_hash = p_hash p, mp_blob_size = sz\<rparr>)"

definition resolve_manifest_parts ::
  "(string \<Rightarrow> u64 option) \<Rightarrow> (string \<times> u64) list \<Rightarrow> (string \<times> u64) list \<Rightarrow> part_info list
     \<Rightarrow> manifest_part list result"
where
  "resolve_manifest_parts known new head parts =
     bind_r (fold_r merge_size known (uploaded_sizes new head)) (\<lambda>sizes.
       map_r (manifest_part_of sizes) parts)"

text \<open>From the staged parts to the entries of the manifest.\<close>

definition upload_phase ::
  "'s env \<Rightarrow> 's host \<Rightarrow> storage \<Rightarrow> string \<Rightarrow> string set \<Rightarrow> (string \<Rightarrow> u64 option)
     \<Rightarrow> (string \<times> u64) list \<Rightarrow> staged_map \<Rightarrow> part_info list \<Rightarrow> ('s, manifest_part list) io"
where
  "upload_phase env h st staging_root known known_sizes head staged parts =
     (let need = fst (parts_to_upload parts known);
          dirs = upload_dirs staged need head
      in
      io_bind (io_lift (check_staged dirs need head)) (\<lambda>_.
      io_bind (cleanup_staged_parts h (unused_dirs staged need head)) (\<lambda>_.
      io_bind (upload_part_archives env h st dirs) (\<lambda>new.
      io_bind (remove_dir_all_if_exists h staging_root) (\<lambda>_.
      io_lift (resolve_manifest_parts known_sizes new head parts))))))"

text \<open>\<open>StagingCleanup\<close>: dropped on every way out, its failure is a warning.\<close>

definition with_staging_cleanup :: "'s host \<Rightarrow> string \<Rightarrow> ('s, 'a) io \<Rightarrow> ('s, 'a) io" where
  "with_staging_cleanup h staging_root m w =
     (case m w of
        (r, w') \<Rightarrow> (r, snd (attempt (remove_dir_all_if_exists h staging_root) w')))"

definition part_summary_of :: "part_info \<Rightarrow> part_summary" where
  "part_summary_of p =
     \<lparr>ps_hash = p_hash p, ps_database = p_database p, ps_table = p_table p,
      ps_part_name = p_name p, ps_bytes_on_disk = p_bytes_on_disk p, ps_rows_count = p_rows_count p\<rparr>"

definition snapshot_body ::
  "'s env \<Rightarrow> 's host \<Rightarrow> manifest_codec \<Rightarrow> config \<Rightarrow> storage \<Rightarrow> string \<Rightarrow> i64 \<Rightarrow> string \<Rightarrow> string
     \<Rightarrow> string \<Rightarrow> string set \<Rightarrow> (string \<Rightarrow> u64 option) \<Rightarrow> part_info list \<Rightarrow> ('s, string) io"
where
  "snapshot_body env h cd cfg st snapshot_name timestamp shard replica staging_root known known_sizes parts =
     io_bind (head_check_existing env h st
         (map (\<lambda>(hash, p). (hash, p_bytes_on_disk p)) (fst (parts_to_upload parts known)))) (\<lambda>head.
     io_bind (stage_loop MAX_STAGING_ITERATIONS env h cfg known staging_root empty_area [] parts)
       (\<lambda>(staged, parts).
     io_bind (metadata_loop MAX_STAGING_ITERATIONS env h cfg parts) (\<lambda>(files, parts).
     io_bind (upload_phase env h st staging_root known known_sizes head staged parts) (\<lambda>manifest_parts.
     io_bind (write_manifest env cd st
         \<lparr>m_name = snapshot_name, m_timestamp = timestamp, m_shard = shard, m_replica = replica,
          m_created_by = to_string_lossy (h_hostname h), m_parts = manifest_parts, m_files = files\<rparr>) (\<lambda>_.
     io_bind (emit h (BackupComplete snapshot_name)) (\<lambda>_.
     io_return snapshot_name))))))"

definition create_snapshot ::
  "'s env \<Rightarrow> 's host \<Rightarrow> manifest_codec \<Rightarrow> config \<Rightarrow> string option \<Rightarrow> ('s, string) io"
where
  "create_snapshot env h cd cfg name =
     io_bind (clock env) (\<lambda>now.
     let timestamp = word_of_int (now div 1000000000) in
     io_bind (io_lift (init_storage cfg)) (\<lambda>(st, counters).
     io_bind (with_progress (\<lambda>_. counters)) (\<lambda>_.
     io_bind (query_active_parts h cfg) (\<lambda>parts.
     io_bind (resolve_shard_replica h cfg) (\<lambda>(shard, replica).
     io_bind (case name of
                Some n \<Rightarrow> io_return n
              | None \<Rightarrow> io_bind (host_call (h_uuid h)) (\<lambda>uuid.
                  io_return (build_auto_name cd shard replica timestamp uuid))) (\<lambda>snapshot_name.
     io_bind (load_known_from_latest_manifest env cd st shard replica) (\<lambda>(known, known_sizes).
     io_bind (if h_is_terminal h then with_progress suppress_logging else io_return ()) (\<lambda>_.
     io_bind (emit h (PartsDiscovered (map part_summary_of parts) known)) (\<lambda>_.
     let staging_root = path_join (cfg_output_dir cfg) STAGING_DIR_NAME in
     io_bind (create_dir_all_io h (cfg_output_dir cfg)) (\<lambda>_.
     io_bind (cleanup_staging_dirs h (cfg_output_dir cfg)) (\<lambda>_.
     io_bind (create_dir_all_io h staging_root) (\<lambda>_.
     with_staging_cleanup h staging_root
       (snapshot_body env h cd cfg st snapshot_name timestamp shard replica staging_root
          known known_sizes parts)))))))))))))"

end
