(* ===== verification/Snapshot_Plan.thy ===== *)
theory Snapshot_Plan
  imports Snapshots Storage_Props
begin

text \<open>
  What a backup decides to upload and what its manifest says: the parts to upload are the first
  parts of the unknown hashes, and the resolution of sizes at the end cannot fail.
\<close>

section \<open>Parts to upload\<close>

lemma first_parts_set: "set (first_parts seen ps) \<subseteq> set ps"
  by (induction ps arbitrary: seen) auto

lemma first_parts_hashes: "p_hash ` set (first_parts seen ps) = p_hash ` set ps - seen"
  by (induction ps arbitrary: seen) auto

lemma first_parts_distinct: "distinct (map p_hash (first_parts seen ps))"
proof (induction ps arbitrary: seen)
  case (Cons p ps)
  have "p_hash p \<notin> p_hash ` set (first_parts (insert (p_hash p) seen) ps)"
    by (simp add: first_parts_hashes)
  with Cons show ?case by simp
qed simp

text \<open>The part chosen for a hash is the first one in the list.\<close>

lemma first_parts_first:
  "p \<in> set (first_parts seen ps) \<Longrightarrow> List.find (\<lambda>q. p_hash q = p_hash p) ps = Some p"
proof (induction ps arbitrary: seen)
  case (Cons q ps)
  show ?case
  proof (cases "p_hash q \<in> seen")
    case True
    with Cons.prems have p: "p \<in> set (first_parts seen ps)" by simp
    then have "p_hash p \<notin> seen" using first_parts_hashes [of seen ps] by blast
    with True Cons.IH [OF p] show ?thesis by auto
  next
    case False
    show ?thesis
    proof (cases "p = q")
      case pq: False
      with False Cons.prems have p: "p \<in> set (first_parts (insert (p_hash q) seen) ps)" by simp
      then have "p_hash p \<noteq> p_hash q" using first_parts_hashes [of "insert (p_hash q) seen" ps] by blast
      with Cons.IH [OF p] show ?thesis by simp
    qed simp
  qed
qed simp

lemma parts_to_upload_eq:
  "fst (parts_to_upload parts known) =
     map (\<lambda>p. (p_hash p, p)) (filter (\<lambda>p. p_hash p \<notin> known) (first_parts {} parts))"
  "snd (parts_to_upload parts known) = length (first_parts {} parts)"
  by (simp_all add: parts_to_upload_def Let_def)

lemma needed_hashes: "set (map fst (fst (parts_to_upload parts known))) = p_hash ` set parts - known"
proof -
  have "set (map fst (fst (parts_to_upload parts known))) = p_hash ` set (first_parts {} parts) - known"
    unfolding parts_to_upload_eq by auto
  then show ?thesis by (simp add: first_parts_hashes)
qed

text \<open>
  The parts to upload: one entry for every hash of the list that is not known, no hash twice,
  each with the first part of the list that has it; and the count is that of the different hashes.
\<close>

theorem parts_to_upload_correct:
  "distinct (map fst (fst (parts_to_upload parts known))) \<and>
   (\<forall>h p. (h, p) \<in> set (fst (parts_to_upload parts known)) \<longleftrightarrow>
      h \<notin> known \<and> List.find (\<lambda>q. p_hash q = h) parts = Some p) \<and>
   snd (parts_to_upload parts known) = card (p_hash ` set parts)"
proof (intro conjI allI)
  have d: "distinct (map p_hash (first_parts {} parts))" by (rule first_parts_distinct)
  then have "distinct (map p_hash (filter (\<lambda>p. p_hash p \<notin> known) (first_parts {} parts)))"
    by (rule distinct_map_filter)
  then show "distinct (map fst (fst (parts_to_upload parts known)))"
    unfolding parts_to_upload_eq by (simp add: comp_def)
  have "snd (parts_to_upload parts known) = length (map p_hash (first_parts {} parts))"
    by (simp add: parts_to_upload_eq)
  also have "\<dots> = card (p_hash ` set (first_parts {} parts))"
    using distinct_card [OF d] by simp
  also have "\<dots> = card (p_hash ` set parts)" by (simp add: first_parts_hashes)
  finally show "snd (parts_to_upload parts known) = card (p_hash ` set parts)" .
next
  fix h p
  have "(h, p) \<in> set (fst (parts_to_upload parts known)) \<longleftrightarrow>
      h \<notin> known \<and> p_hash p = h \<and> p \<in> set (first_parts {} parts)"
    unfolding parts_to_upload_eq by auto
  also have "\<dots> \<longleftrightarrow> h \<notin> known \<and> List.find (\<lambda>q. p_hash q = h) parts = Some p"
  proof (intro conj_cong refl iffI)
    assume "p_hash p = h \<and> p \<in> set (first_parts {} parts)"
    then show "List.find (\<lambda>q. p_hash q = h) parts = Some p" using first_parts_first by auto
  next
    assume f: "List.find (\<lambda>q. p_hash q = h) parts = Some p"
    then have p: "p \<in> set parts" "p_hash p = h" by (auto simp: find_Some_iff)
    then obtain q where q: "q \<in> set (first_parts {} parts)" "p_hash q = h"
      using first_parts_hashes [of "{}" parts] by (metis Diff_empty imageE imageI)
    from first_parts_first [OF q(1)] f q(2) have "p = q" by simp
    with q show "p_hash p = h \<and> p \<in> set (first_parts {} parts)" by simp
  qed
  finally show "(h, p) \<in> set (fst (parts_to_upload parts known)) \<longleftrightarrow>
      h \<notin> known \<and> List.find (\<lambda>q. p_hash q = h) parts = Some p" .
qed

section \<open>Sizes\<close>

text \<open>The map the sizes of this run make.\<close>

lemma sizes_fold:
  "map_of (fold (\<lambda>(hash, sz). AList.update hash sz) xs al) = map_of al ++ map_of (rev xs)"
  by (induction xs arbitrary: al) (auto simp: update_conv' map_add_assoc [symmetric])

lemma uploaded_sizes_map: "map_of (uploaded_sizes new head) = map_of (rev (new @ head))"
  unfolding uploaded_sizes_def sizes_fold by simp

lemma sizes_distinct:
  "distinct (map fst al) \<Longrightarrow> distinct (map fst (fold (\<lambda>(hash, sz). AList.update hash sz) xs al))"
  by (induction xs arbitrary: al) (auto simp: distinct_update)

lemma uploaded_sizes_distinct: "distinct (map fst (uploaded_sizes new head))"
  unfolding uploaded_sizes_def by (rule sizes_distinct) simp

lemma uploaded_sizes_keys: "fst ` set (uploaded_sizes new head) = fst ` set new \<union> fst ` set head"
proof -
  have "fst ` set (uploaded_sizes new head) = dom (map_of (uploaded_sizes new head))"
    by (simp only: dom_map_of_conv_image_fst)
  also have "\<dots> = fst ` set (rev (new @ head))"
    unfolding uploaded_sizes_map by (simp only: dom_map_of_conv_image_fst)
  finally show ?thesis by (simp only: set_rev set_append image_Un)
qed

text \<open>Sources that share no hash merge without a mismatch.\<close>

lemma merge_disjoint:
  "distinct (map fst es) \<Longrightarrow> fst ` set es \<inter> dom known = {} \<Longrightarrow>
     fold_r merge_size known es = Inr (known ++ map_of es)"
proof (induction es arbitrary: known)
  case (Cons e es)
  obtain hash sz where e: "e = (hash, sz)" by fastforce
  from Cons.prems have "known hash = None" by (auto simp: e)
  then have m: "merge_size known e = Inr (known(hash \<mapsto> sz))" by (simp add: merge_size_def e)
  have "fold_r merge_size (known(hash \<mapsto> sz)) es = Inr (known(hash \<mapsto> sz) ++ map_of es)"
  proof (rule Cons.IH)
    show "distinct (map fst es)" using Cons.prems by simp
    have "hash \<notin> fst ` set es" using Cons.prems by (simp add: e)
    then show "fst ` set es \<inter> dom (known(hash \<mapsto> sz)) = {}" using Cons.prems by (simp add: e)
  qed
  moreover have "known(hash \<mapsto> sz) ++ map_of es = known ++ map_of (e # es)"
  proof -
    have "hash \<notin> dom (map_of es)" using Cons.prems by (simp add: e dom_map_of_conv_image_fst)
    then show ?thesis by (simp add: e map_add_upd_left)
  qed
  ultimately show ?case using m by (simp del: map_of.simps)
qed simp

lemma check_staged_ok:
  "check_staged dirs need head = Inr () \<longleftrightarrow>
     fst ` set need \<subseteq> fst ` set head \<union> fst ` set dirs"
proof -
  have "check_staged dirs need head = Inr () \<longleftrightarrow>
      List.find (\<lambda>hash. hash \<notin> set (map fst head) \<and> hash \<notin> set (map fst dirs)) (map fst need) = None"
    by (simp add: check_staged_def split: option.split)
  then show ?thesis unfolding find_None_iff by auto
qed

lemma upload_dirs_keys: "fst ` set (upload_dirs staged need head) \<subseteq> fst ` set need"
  by (force simp: upload_dirs_def)

text \<open>The entry of a part in the manifest.\<close>

definition manifest_entry :: "(string \<Rightarrow> u64 option) \<Rightarrow> part_info \<Rightarrow> manifest_part" where
  "manifest_entry sizes p =
     \<lparr>mp_database = p_database p, mp_table_name = p_table p, mp_part_name = p_name p,
      mp_blob_hash = p_hash p, mp_blob_size = the (sizes (p_hash p))\<rparr>"

lemma manifest_part_of_Some:
  "sizes (p_hash p) \<noteq> None \<Longrightarrow> manifest_part_of sizes p = Inr (manifest_entry sizes p)"
  by (auto simp: manifest_part_of_def manifest_entry_def)

lemma resolve_total:
  fixes parts known head staged
  defines "need \<equiv> fst (parts_to_upload parts known)"
  defines "dirs \<equiv> upload_dirs staged need head"
  assumes known: "dom known_sizes = known" and head: "fst ` set head \<inter> known = {}"
    and staged: "check_staged dirs need head = Inr ()" and new: "map fst new = map fst dirs"
  shows "resolve_manifest_parts known_sizes new head parts =
      Inr (map (manifest_entry (known_sizes ++ map_of (rev (new @ head)))) parts)"
    and "p \<in> set parts \<Longrightarrow> p_hash p \<in> known \<union> fst ` set head \<union> fst ` set new"
proof -
  have need: "fst ` set need = p_hash ` set parts - known"
    using needed_hashes [of parts known] by (simp add: need_def)
  have keys: "fst ` set new = fst ` set dirs" using new by (metis list.set_map)
  then have "fst ` set new \<subseteq> fst ` set need" using upload_dirs_keys dirs_def by blast
  with need have "fst ` set new \<inter> known = {}" by blast
  with head known have dis: "fst ` set (uploaded_sizes new head) \<inter> dom known_sizes = {}"
    unfolding uploaded_sizes_keys by blast
  let ?sizes = "known_sizes ++ map_of (rev (new @ head))"
  have merged: "fold_r merge_size known_sizes (uploaded_sizes new head) = Inr ?sizes"
    using merge_disjoint [OF uploaded_sizes_distinct dis] by (simp only: uploaded_sizes_map)
  have all: "p_hash p \<in> known \<union> fst ` set head \<union> fst ` set new" if "p \<in> set parts" for p
  proof (cases "p_hash p \<in> known")
    case False
    with that have "p_hash p \<in> fst ` set need" unfolding need by simp
    with staged keys show ?thesis unfolding check_staged_ok by auto
  qed simp
  then show "p \<in> set parts \<Longrightarrow> p_hash p \<in> known \<union> fst ` set head \<union> fst ` set new" .
  have "?sizes (p_hash p) \<noteq> None" if "p \<in> set parts" for p
  proof -
    have "dom ?sizes = known \<union> fst ` set head \<union> fst ` set new"
      unfolding dom_map_add dom_map_of_conv_image_fst known set_rev set_append image_Un by blast
    with all [OF that] have "p_hash p \<in> dom ?sizes" by (simp only:)
    then show ?thesis unfolding domIff .
  qed
  then have "map_r (manifest_part_of ?sizes) parts = Inr (map (manifest_entry ?sizes) parts)"
    by (intro map_r_all_Inr manifest_part_of_Some)
  with merged show "resolve_manifest_parts known_sizes new head parts = Inr (map (manifest_entry ?sizes) parts)"
    by (simp add: resolve_manifest_parts_def)
qed

section \<open>The upload phase\<close>

lemma io_map_results:
  "io_map f xs w = (Ok ys, w') \<Longrightarrow> list_all2 (\<lambda>x y. \<exists>u u'. f x u = (Ok y, u')) xs ys"
proof (induction xs arbitrary: ys w)
  case (Cons x xs)
  then show ?case by (fastforce simp: io_return_def elim!: io_bind_OkE)
qed (simp add: io_return_def)

lemma upload_one_hash:
  assumes "upload_one_archive env h st e w = (Ok (hash, sz), w')"
  shows "hash = fst e"
  using assms
  by (cases e) (auto simp: upload_one_archive_def Let_def io_return_def io_fail_def io_lift_def
      split: if_splits prod.splits sum.splits elim!: io_bind_OkE)

lemma attempt_Ok_Inr: "attempt m w = (Ok (Inr x), w') \<Longrightarrow> m w = (Ok x, w')"
  by (auto simp: attempt_def io_match_def io_return_def split: prod.splits outcome.splits)

lemma map_r_id: "map_r (\<lambda>r. r) rs = Inr xs \<Longrightarrow> rs = map Inr xs"
  by (induction rs arbitrary: xs) (auto simp: bind_r_Inr_iff)

lemma upload_part_archives_Ok:
  assumes "upload_part_archives env h st dirs w = (Ok new, w')"
  shows "map fst new = map fst dirs"
proof -
  from assms obtain rs u u' where
    r: "io_map (\<lambda>e. attempt (upload_one_archive env h st e)) dirs u = (Ok rs, u')"
    and n: "map_r (\<lambda>r. r) rs = Inr new"
    by (auto simp: upload_part_archives_def io_lift_def split: sum.splits elim!: io_bind_OkE)
  from map_r_id [OF n] have rs: "rs = map Inr new" .
  have "list_all2 (\<lambda>e y. fst y = fst e) dirs new"
  proof (rule list_all2_mono [of "\<lambda>e y. \<exists>u u'. attempt (upload_one_archive env h st e) u = (Ok (Inr y), u')"])
    show "list_all2 (\<lambda>e y. \<exists>u u'. attempt (upload_one_archive env h st e) u = (Ok (Inr y), u')) dirs new"
      using io_map_results [OF r] by (simp add: rs list_all2_map2)
  next
    fix e and y :: "string \<times> u64"
    assume "\<exists>u u'. attempt (upload_one_archive env h st e) u = (Ok (Inr y), u')"
    then obtain u u' where "attempt (upload_one_archive env h st e) u = (Ok (Inr y), u')" by blast
    from attempt_Ok_Inr [OF this] show "fst y = fst e" by (cases y) (auto dest: upload_one_hash)
  qed
  then show ?thesis by (induction rule: list_all2_induct) simp_all
qed

lemma io_bind_ErrE:
  assumes "io_bind m f w = (Err e, w')"
  obtains "m w = (Err e, w')" | x u where "m w = (Ok x, u)" and "f x u = (Err e, w')"
  using assms by (auto simp: io_bind_def split: prod.splits outcome.splits)

text \<open>The parts to upload, and the staged directories they are uploaded from.\<close>

abbreviation needed :: "part_info list \<Rightarrow> string set \<Rightarrow> (string \<times> part_info) list" where
  "needed parts known \<equiv> fst (parts_to_upload parts known)"

abbreviation uploads ::
  "staged_map \<Rightarrow> part_info list \<Rightarrow> string set \<Rightarrow> (string \<times> u64) list \<Rightarrow> staged_map"
where
  "uploads staged parts known head \<equiv> upload_dirs staged (needed parts known) head"

abbreviation leftovers ::
  "staged_map \<Rightarrow> part_info list \<Rightarrow> string set \<Rightarrow> (string \<times> u64) list \<Rightarrow> string list"
where
  "leftovers staged parts known head \<equiv> unused_dirs staged (needed parts known) head"

lemma upload_phase_total:
  assumes known: "dom known_sizes = known" and head: "fst ` set head \<inter> known = {}"
    and "check_staged (uploads staged parts known head) (needed parts known) head = Inr ()"
    and "upload_part_archives env h st (uploads staged parts known head) u = (Ok new, u')"
  shows "resolve_manifest_parts known_sizes new head parts =
        Inr (map (manifest_entry (known_sizes ++ map_of (rev (new @ head)))) parts) \<and>
      (\<forall>p \<in> set parts. p_hash p \<in> known \<union> fst ` set head \<union> fst ` set new)"
  using resolve_total [OF known head assms(3) upload_part_archives_Ok [OF assms(4)]] by blast

lemma upload_phase_Ok:
  assumes known: "dom known_sizes = known" and head: "fst ` set head \<inter> known = {}"
    and run: "upload_phase env h st root known known_sizes head staged parts w = (Ok mps, w')"
  shows "\<exists>new u u'. upload_part_archives env h st (uploads staged parts known head) u = (Ok new, u') \<and>
      mps = map (manifest_entry (known_sizes ++ map_of (rev (new @ head)))) parts \<and>
      (\<forall>p \<in> set parts. p_hash p \<in> known \<union> fst ` set head \<union> fst ` set new)"
proof -
  from run obtain new u u' v where
    c: "check_staged (uploads staged parts known head) (needed parts known) head = Inr ()"
    and up: "upload_part_archives env h st (uploads staged parts known head) u = (Ok new, u')"
    and res: "io_lift (resolve_manifest_parts known_sizes new head parts) v = (Ok mps, w')"
    by (auto simp: upload_phase_def Let_def io_lift_def [of "check_staged _ _ _"]
        split: sum.splits elim!: io_bind_OkE)
  from upload_phase_total [OF known head c up] up res show ?thesis by (auto simp: io_lift_def)
qed

lemma upload_phase_Err:
  assumes known: "dom known_sizes = known" and head: "fst ` set head \<inter> known = {}"
    and run: "upload_phase env h st root known known_sizes head staged parts w = (Err e, w')"
  shows "check_staged (uploads staged parts known head) (needed parts known) head = Inl e \<or>
      (\<exists>u u'. cleanup_staged_parts h (leftovers staged parts known head) u = (Err e, u')) \<or>
      (\<exists>u u'. upload_part_archives env h st (uploads staged parts known head) u = (Err e, u')) \<or>
      (\<exists>u u'. remove_dir_all_if_exists h root u = (Err e, u'))"
  using run [unfolded upload_phase_def Let_def]
  by (elim io_bind_ErrE)
     (auto simp: io_lift_def split: sum.splits dest: upload_phase_total [OF known head])

text \<open>
  C12. The entries of the manifest follow from the plan. After a successful upload phase there is
  one entry for each part, in order, and the hash of every part is known from the latest manifest,
  was found in the bucket, or was uploaded by this run. And the phase fails only where it must:
  because a part was not staged, a directory not removed, or an upload failed. The two errors of the
  final resolution, a size that is missing and a size that differs, cannot occur (the code calls
  them a bug if they do).
\<close>

theorem upload_phase_result:
  assumes "dom known_sizes = known" and "fst ` set head \<inter> known = {}"
    and "upload_phase env h st root known known_sizes head staged parts w = (r, w')"
  shows "(\<forall>mps. r = Ok mps \<longrightarrow>
      (\<exists>new u u'. upload_part_archives env h st (uploads staged parts known head) u = (Ok new, u') \<and>
        mps = map (manifest_entry (known_sizes ++ map_of (rev (new @ head)))) parts \<and>
        (\<forall>p \<in> set parts. p_hash p \<in> known \<union> fst ` set head \<union> fst ` set new))) \<and>
    (\<forall>e. r = Err e \<longrightarrow>
      check_staged (uploads staged parts known head) (needed parts known) head = Inl e \<or>
      (\<exists>u u'. cleanup_staged_parts h (leftovers staged parts known head) u = (Err e, u')) \<or>
      (\<exists>u u'. upload_part_archives env h st (uploads staged parts known head) u = (Err e, u')) \<or>
      (\<exists>u u'. remove_dir_all_if_exists h root u = (Err e, u')))"
proof (intro conjI allI impI)
  fix mps assume "r = Ok mps"
  from upload_phase_Ok [OF assms(1,2) assms(3) [unfolded this]]
  show "\<exists>new u u'. upload_part_archives env h st (uploads staged parts known head) u = (Ok new, u') \<and>
      mps = map (manifest_entry (known_sizes ++ map_of (rev (new @ head)))) parts \<and>
      (\<forall>p \<in> set parts. p_hash p \<in> known \<union> fst ` set head \<union> fst ` set new)" .
next
  fix e assume "r = Err e"
  from upload_phase_Err [OF assms(1,2) assms(3) [unfolded this]]
  show "check_staged (uploads staged parts known head) (needed parts known) head = Inl e \<or>
      (\<exists>u u'. cleanup_staged_parts h (leftovers staged parts known head) u = (Err e, u')) \<or>
      (\<exists>u u'. upload_part_archives env h st (uploads staged parts known head) u = (Err e, u')) \<or>
      (\<exists>u u'. remove_dir_all_if_exists h root u = (Err e, u'))" .
qed

text \<open>The phase on one part that the latest manifest knows.\<close>

definition demo_part :: part_info where
  "demo_part = \<lparr>p_database = ''d'', p_table = ''t'', p_name = ''all_1_1_0'', p_path = ''store/x/'',
     p_hash = replicate 32 (CHR ''a''), p_bytes_on_disk = 7, p_rows_count = 3\<rparr>"

theorem upload_phase_result_witness:
  "\<exists>w'. upload_phase null_env null_host plain_storage ''/b/staging_parts'' {p_hash demo_part}
      [p_hash demo_part \<mapsto> 9] [] [] [demo_part] empty_world
    = (Ok [\<lparr>mp_database = ''d'', mp_table_name = ''t'', mp_part_name = ''all_1_1_0'',
        mp_blob_hash = p_hash demo_part, mp_blob_size = 9\<rparr>], w')"
proof -
  let ?run = "upload_phase null_env null_host plain_storage ''/b/staging_parts'' {p_hash demo_part}
      [p_hash demo_part \<mapsto> 9] [] [] [demo_part] empty_world"
  obtain r w' where run: "?run = (r, w')" by fastforce
  have none: "needed [demo_part] {p_hash demo_part} = []"
    by (simp add: parts_to_upload_def)
  have "\<exists>mps u. ?run = (Ok mps, u)"
    by (simp add: upload_phase_def none upload_dirs_def unused_dirs_def check_staged_def io_lift_def
        io_bind_def cleanup_staged_parts_def upload_part_archives_def timed_progress_def
        with_progress_def io_return_def remove_dir_all_if_exists_def host_call_def null_host_def
        resolve_manifest_parts_def uploaded_sizes_def manifest_part_of_def)
  then obtain mps where mps: "r = Ok mps" using run by auto
  from upload_phase_result [OF _ _ run] obtain new and u u' :: "unit world" where
    "upload_part_archives null_env null_host plain_storage
       (uploads [] [demo_part] {p_hash demo_part} []) u = (Ok new, u')"
    and m: "mps = map (manifest_entry ([p_hash demo_part \<mapsto> 9] ++ map_of (rev (new @ [])))) [demo_part]"
    using mps by auto
  from upload_part_archives_Ok [OF this(1)] have "new = []" by (simp add: none upload_dirs_def)
  with m mps run show ?thesis by (auto simp: manifest_entry_def demo_part_def)
qed

end
