(* ===== verification/Backup_Safety.thy ===== *)
theory Backup_Safety
  imports Snapshot_Plan Gc_Safety Mem_Bucket
begin

text \<open>
  A backup keeps the bucket consistent: every manifest has its blobs. The operations of a backup only
  add blobs and leave manifests alone, until the manifest is written; by then every hash in it is the
  key of an object, because the latest manifest refers to it, a head request found it, or an upload
  completed.
\<close>

section \<open>Consistency\<close>

definition consistent :: "manifest_codec \<Rightarrow> storage \<Rightarrow> (string \<Rightarrow> bytes option) \<Rightarrow> bool" where
  "consistent cd st c \<longleftrightarrow>
     (\<forall>n b m h. c (manifest_object st n) = Some b \<longrightarrow> dec_manifest cd b = Some m \<longrightarrow>
        h \<in> set (map mp_blob_hash (m_parts m)) \<longrightarrow> c (blob_object st h) \<noteq> None)"

text \<open>From \<open>c\<close>, blobs were added, and no manifest was touched.\<close>

definition grown :: "storage \<Rightarrow> (string \<Rightarrow> bytes option) \<Rightarrow> (string \<Rightarrow> bytes option) \<Rightarrow> bool" where
  "grown st c c' \<longleftrightarrow>
     (\<forall>n. c' (manifest_object st n) = c (manifest_object st n)) \<and>
     (\<forall>h. c (blob_object st h) \<noteq> None \<longrightarrow> c' (blob_object st h) \<noteq> None)"

lemma grown_refl: "grown st c c"
  by (simp add: grown_def)

lemma grown_manifest: "grown st c c' \<Longrightarrow> c' (manifest_object st n) = c (manifest_object st n)"
  by (simp add: grown_def)

lemma grown_blob: "grown st c c' \<Longrightarrow> c (blob_object st h) \<noteq> None \<Longrightarrow> c' (blob_object st h) \<noteq> None"
  unfolding grown_def by blast

lemma grown_consistent: "grown st c c' \<Longrightarrow> consistent cd st c \<Longrightarrow> consistent cd st c'"
  by (fastforce simp: grown_def consistent_def)

text \<open>From \<open>c\<close>, no manifest was changed and no blob removed.\<close>

definition preserved :: "storage \<Rightarrow> (string \<Rightarrow> bytes option) \<Rightarrow> (string \<Rightarrow> bytes option) \<Rightarrow> bool" where
  "preserved st c c' \<longleftrightarrow>
     (\<forall>n b. c (manifest_object st n) = Some b \<longrightarrow> c' (manifest_object st n) = Some b) \<and>
     (\<forall>h. c (blob_object st h) \<noteq> None \<longrightarrow> c' (blob_object st h) \<noteq> None)"

text \<open>What is decoded of an encoded manifest has its parts.\<close>

definition keeps_parts :: "manifest_codec \<Rightarrow> bool" where
  "keeps_parts cd \<longleftrightarrow>
     (\<forall>m b m'. enc_manifest cd m = Some b \<longrightarrow> dec_manifest cd b = Some m' \<longrightarrow> m_parts m' = m_parts m)"

text \<open>\<open>c\<close> with the blobs of the hashes \<open>K\<close>.\<close>

definition with_blobs ::
  "storage \<Rightarrow> string set \<Rightarrow> (string \<Rightarrow> bytes option) \<Rightarrow> string \<Rightarrow> bytes option"
where
  "with_blobs st K c k = (if k \<in> blob_object st ` K then Some [] else c k)"

lemma with_blobs_manifest [simp]:
  "with_blobs st K c (manifest_object st n) = c (manifest_object st n)"
  by (auto simp: with_blobs_def)

lemma with_blobs_blob [simp]:
  "with_blobs st K c (blob_object st h) \<noteq> None \<longleftrightarrow> h \<in> K \<or> c (blob_object st h) \<noteq> None"
  by (auto simp: with_blobs_def image_iff)

lemma grown_with_blobs:
  "grown st (with_blobs st K c) c' \<longleftrightarrow> grown st c c' \<and> (\<forall>h \<in> K. c' (blob_object st h) \<noteq> None)"
  unfolding grown_def with_blobs_manifest with_blobs_blob by blast

section \<open>Retried calls\<close>

text \<open>A retried call that succeeds ends with a call that succeeded.\<close>

lemma retry_loop_value:
  assumes val: "\<And>n w v w'. I (svc w) \<Longrightarrow> f n w = (Ok (ROk v), w') \<Longrightarrow> R v w'"
    and again: "\<And>n w e w'. I (svc w) \<Longrightarrow> f n w = (Ok (RRetry e), w') \<Longrightarrow> I (svc w')"
    and sleep: "\<And>ms s. I s \<Longrightarrow> I (do_sleep env ms s)"
  shows "I (svc w) \<Longrightarrow> retry_loop env cfg f ns e w = (Ok (Inr v), w') \<Longrightarrow> R v w'"
proof (induction ns arbitrary: e w)
  case Nil
  then show ?case by (cases e) (auto simp: io_return_def io_panic_def)
next
  case (Cons n ns)
  then obtain x u where x: "f n w = (Ok x, u)" and rest: "(case x of
         ROk v \<Rightarrow> io_return (Inr v)
       | RFatal e \<Rightarrow> io_return (Inl e)
       | RRetry e \<Rightarrow>
           if unat (max_attempts cfg) \<le> n then io_return (Inl e)
           else
             (\<lambda>w. let delay = delay_for_attempt cfg n (\<lambda>m. rand_upto env m (svc w)) in
                io_bind (sleep env (unat delay)) (\<lambda>_. retry_loop env cfg f ns (Some e)) w)) u
      = (Ok (Inr v), w')"
    by (auto elim!: io_bind_OkE)
  show ?case
  proof (cases x)
    case (RRetry e')
    with rest obtain ms y t where s: "sleep env ms u = (Ok y, t)"
      and r: "retry_loop env cfg f ns (Some e') t = (Ok (Inr v), w')"
      by (auto simp: Let_def io_return_def elim!: io_bind_OkE split: if_splits)
    have "I (svc t)"
      using again [OF Cons.prems(1) x [unfolded RRetry]] await_svc [OF s [unfolded sleep_def]] sleep
      by (metis snd_conv)
    from Cons.IH [OF this r] show ?thesis .
  qed (use rest val [OF Cons.prems(1)] x in \<open>auto simp: io_return_def\<close>)
qed

lemma classify_svc: "classify_s3 b r w = (x, w') \<Longrightarrow> svc w' = svc w"
  by (auto simp: classify_s3_def Let_def io_bind_def io_return_def with_progress_def
        split: sum.splits if_splits)

lemma classify_ROk: "classify_s3 b r w = (Ok (ROk v), w') \<Longrightarrow> r = Inr v"
  by (auto simp: classify_s3_def Let_def io_bind_def io_return_def with_progress_def
        split: sum.splits if_splits)

lemma classify_RRetry: "classify_s3 b r w = (Ok (RRetry e), w') \<Longrightarrow> \<exists>x. r = Inl x"
  by (auto simp: classify_s3_def Let_def io_bind_def io_return_def with_progress_def
        split: sum.splits if_splits)

lemma s3_retry_result_inv:
  assumes "s3_retry env st q call w = (Ok v, w')" and "I (svc w)"
    and fails: "\<And>s e s'. I s \<Longrightarrow> call s = (Inl e, s') \<Longrightarrow> I s'"
    and sleep: "\<And>ms s. I s \<Longrightarrow> I (do_sleep env ms s)"
  shows "\<exists>s. I s \<and> call s = (Inr v, svc w')"
proof -
  let ?f = "io_bind (await env q call) (classify_s3 (has_progress st))"
  from assms(1) have r: "with_retry env s3_retry_config (\<lambda>_. ?f) w = (Ok (Inr v), w')"
    by (auto simp: s3_retry_def io_fail_def io_return_def elim!: io_bind_OkE split: sum.splits)
  have val: "\<exists>s. I s \<and> call s = (Inr v, svc u')" if i: "I (svc u)" and run: "?f u = (Ok (ROk v), u')"
    for u v u'
  proof -
    from run obtain y t where a: "await env q call u = (Ok y, t)"
      and c: "classify_s3 (has_progress st) y t = (Ok (ROk v), u')" by (auto elim: io_bind_OkE)
    from await_svc [OF a] classify_svc [OF c] classify_ROk [OF c] i show ?thesis by auto
  qed
  have again: "I (svc u')" if i: "I (svc u)" and run: "?f u = (Ok (RRetry e), u')" for u e u'
  proof -
    from run obtain y t where a: "await env q call u = (Ok y, t)"
      and c: "classify_s3 (has_progress st) y t = (Ok (RRetry e), u')" by (auto elim: io_bind_OkE)
    from await_svc [OF a] classify_svc [OF c] classify_RRetry [OF c] fails [OF i] show ?thesis by auto
  qed
  show ?thesis
    by (rule retry_loop_value [where R = "\<lambda>v u. \<exists>s. I s \<and> call s = (Inr v, svc u)" and I = I,
          OF val again sleep assms(2) r [unfolded with_retry_def]])
qed

lemma s3_retry_result: "s3_retry env st q call w = (Ok v, w') \<Longrightarrow> \<exists>s. call s = (Inr v, svc w')"
  using s3_retry_result_inv [where I = "\<lambda>_. True", simplified] .

lemma keeps_retry_loop:
  assumes "\<And>n. keeps I (f n)" and "\<And>ms s. I s \<Longrightarrow> I (do_sleep env ms s)"
  shows "keeps I (retry_loop env cfg f ns le)"
proof (induction ns arbitrary: le)
  case Nil
  then show ?case by (cases le) (auto intro: keeps_pure)
next
  case (Cons n ns)
  have sleep: "keeps I (sleep env ms)" for ms
    unfolding sleep_def by (rule keeps_await) (simp add: assms(2))
  have wait: "keeps I (\<lambda>w. io_bind (sleep env (d w)) (\<lambda>_. retry_loop env cfg f ns (Some e)) w)"
    for d e
  proof (rule keepsI)
    fix w r w' assume i: "I (svc w)"
      and run: "io_bind (sleep env (d w)) (\<lambda>_. retry_loop env cfg f ns (Some e)) w = (r, w')"
    from keepsD [OF keeps_bind [OF sleep Cons.IH] i run] show "I (svc w')" .
  qed
  show ?case
    unfolding retry_loop.simps Let_def
    by (intro keeps_bind assms(1)) (auto split: retry_result.split intro!: keeps_pure wait)
qed

lemma keeps_s3_retry:
  assumes "\<And>s. I s \<Longrightarrow> I (snd (call s))" and "\<And>ms s. I s \<Longrightarrow> I (do_sleep env ms s)"
  shows "keeps I (s3_retry env st q call)"
proof -
  have c: "keeps I (classify_s3 b r)" for b r
    by (rule keepsI) (auto dest: classify_svc)
  have "keeps I (with_retry env cfg (\<lambda>_. io_bind (await env q call) (classify_s3 (has_progress st))))" for cfg
    unfolding with_retry_def
    by (intro keeps_retry_loop keeps_bind keeps_await c assms)
  then show ?thesis
    unfolding s3_retry_def by (auto intro!: keeps_bind keeps_pure split: sum.split)
qed

section \<open>The machine\<close>

text \<open>What the process does on its own machine, and the queries to ClickHouse, leave the bucket alone.\<close>

locale backup_site = upload_bucket env objs remaining
  for env :: "'s env" and objs remaining +
  fixes h :: "'s host"
  assumes local_which: "objs (snd (h_which h b s)) = objs s"
    and local_command: "objs (snd (h_command h b a s)) = objs s"
    and local_post: "objs (snd (h_http_post h u n p q s)) = objs s"
    and local_emit: "objs (h_emit h e s) = objs s"
    and local_exists: "objs (snd (h_exists h f s)) = objs s"
    and local_tree: "objs (snd (h_tree h f s)) = objs s"
    and local_read: "objs (snd (h_read_file h f s)) = objs s"
    and local_read_dir: "objs (snd (h_read_dir h f s)) = objs s"
    and local_remove_dir: "objs (snd (h_remove_dir h f s)) = objs s"
    and local_remove_file: "objs (snd (h_remove_file h f s)) = objs s"
    and local_create_dir: "objs (snd (h_create_dir h f s)) = objs s"
    and local_stage_os: "objs (snd (h_stage_os h f s)) = objs s"
    and local_uuid: "objs (snd (h_uuid h s)) = objs s"
begin

lemmas local_laws = local_which local_command local_post local_emit local_exists local_tree
  local_read local_read_dir local_remove_dir local_remove_file local_create_dir local_stage_os
  local_uuid

text \<open>Whatever is true of the bucket stays true.\<close>

abbreviation unseen :: "((string \<Rightarrow> bytes option) \<Rightarrow> bool) \<Rightarrow> ('s, 'a) io \<Rightarrow> bool" where
  "unseen P m \<equiv> keeps (\<lambda>s. P (objs s)) m"

lemma unseen_host:
  "unseen P (host_call (h_which h b))" "unseen P (host_call (h_command h b a))"
  "unseen P (host_call (h_http_post h u n p q))" "unseen P (emit h e)"
  "unseen P (host_call (h_exists h f))" "unseen P (host_call (h_tree h f))"
  "unseen P (host_call (h_read_file h f))" "unseen P (host_call (h_read_dir h f))"
  "unseen P (host_call (h_remove_dir h f))" "unseen P (host_call (h_remove_file h f))"
  "unseen P (host_call (h_create_dir h f))" "unseen P (host_call (h_stage_os h f))"
  "unseen P (host_call (h_uuid h))"
  unfolding emit_def by (auto intro!: keeps_host_call simp: local_laws)

lemma unseen_query: "unseen P (run_query h cfg sql)"
  unfolding run_query_def run_sql_via_clickhouse_local_def find_clickhouse_local_bin_def
  by (auto intro!: keeps_intros unseen_host split: option.split prod.split)

lemma unseen_active_parts: "unseen P (query_active_parts h cfg)"
  unfolding query_active_parts_def by (intro keeps_intros unseen_query)

lemma unseen_identity: "unseen P (resolve_shard_replica h cfg)"
  unfolding resolve_shard_replica_def query_macros_def
  by (auto intro!: keeps_intros unseen_query split: option.split prod.split)

lemma unseen_remove_dir: "unseen P (remove_dir_all_if_exists h dir)"
  unfolding remove_dir_all_if_exists_def by (intro keeps_intros unseen_host)

lemma unseen_cleanup: "unseen P (cleanup_staged_part h dir)"
  unfolding cleanup_staged_part_def remove_file_if_exists_def
  by (intro keeps_intros unseen_host unseen_remove_dir)

lemma unseen_cleanups: "unseen P (cleanup_staged_parts h dirs)"
  unfolding cleanup_staged_parts_def by (intro keeps_for unseen_cleanup)

lemma unseen_cleanup_dirs: "unseen P (cleanup_staging_dirs h dir)"
  unfolding cleanup_staging_dirs_def
  by (auto intro!: keeps_intros unseen_host unseen_remove_dir split: option.split)

lemma unseen_create_dir: "unseen P (create_dir_all_io h dir)"
  unfolding create_dir_all_io_def by (intro keeps_intros unseen_host)

lemma unseen_metadata: "unseen P (collect_metadata_files env h tables path)"
  unfolding collect_metadata_files_def collect_database_files_def collect_directory_files_def
    read_metadata_file_def Let_def
  by (auto intro!: keeps_intros unseen_host split: option.split prod.split)

lemma unseen_resolve: "unseen P (resolve_part_path h p path)"
  unfolding resolve_part_path_def Let_def
  by (auto intro!: keeps_intros unseen_host split: list.split)

lemma unseen_stage_one: "unseen P (stage_one env h path root area e)"
  unfolding stage_one_def Let_def
  by (auto intro!: keeps_intros unseen_host unseen_resolve split: prod.split sum.split)

lemma unseen_stage_all: "unseen P (stage_all env h path root area es)"
proof (induction es arbitrary: area)
  case (Cons e es)
  obtain hash part where e: "e = (hash, part)" by fastforce
  from Cons show ?case
    unfolding e stage_all.simps Let_def
    by (auto intro!: keeps_intros unseen_stage_one split: prod.split)
qed (simp add: keeps_pure)

lemma unseen_stage_loop: "unseen P (stage_loop n env h cfg known root area staged parts)"
proof (induction n arbitrary: area staged parts)
  case (Suc n)
  then show ?case
    unfolding stage_loop.simps stage_parts_cas_def Let_def
    by (auto intro!: keeps_intros unseen_stage_all unseen_active_parts split: prod.split)
qed (simp add: keeps_pure)

lemma unseen_metadata_loop: "unseen P (metadata_loop n env h cfg parts)"
proof (induction n arbitrary: parts)
  case (Suc n)
  then show ?case
    unfolding metadata_loop.simps
    by (auto intro!: keeps_intros unseen_metadata unseen_active_parts)
qed (simp add: keeps_pure)

end

section \<open>Uploads\<close>

lemma keeps_objs:
  assumes "\<And>c. keeps (\<lambda>s. objs s = c) m"
  shows "keeps (\<lambda>s. P (objs s)) m"
proof (rule keepsI)
  fix w r w' assume p: "P (objs (svc w))" and run: "m w = (r, w')"
  have "objs (svc w') = objs (svc w)"
    by (rule keepsD [where I = "\<lambda>s. objs s = objs (svc w)" and m = m, OF assms refl run])
  with p show "P (objs (svc w'))" by simp
qed

lemma triple_attempt:
  "triple F P m Q \<Longrightarrow> triple F P (attempt m) (\<lambda>r s. case r of Inr x \<Rightarrow> Q x s | Inl e \<Rightarrow> F s)"
  by (auto simp: triple_def attempt_def io_match_def io_return_def split: prod.splits outcome.splits)

text \<open>What each step adds to what is known, the list of steps adds.\<close>

lemma triple_io_map:
  assumes "\<And>e K. triple F (R K) (f e) (\<lambda>x. R (K \<union> g x))"
  shows "triple F (R K) (io_map f es) (\<lambda>xs. R (K \<union> \<Union> (g ` set xs)))"
proof (induction es arbitrary: K)
  case Nil
  show ?case unfolding io_map.simps by (rule triple_return) simp
next
  case (Cons e es)
  show ?case
    unfolding io_map.simps
    by (rule triple_bind [OF assms], rule triple_bind [OF Cons.IH], rule triple_return)
       (simp add: Un_assoc)
qed

context backup_site
begin

abbreviation adds :: "storage \<Rightarrow> (string \<Rightarrow> bytes option) \<Rightarrow> ('s, 'a) io \<Rightarrow> bool" where
  "adds st c m \<equiv> keeps (\<lambda>s. grown st c (objs s)) m"

lemmas adds_host = unseen_host [where P = "grown st c" for st c]
lemmas adds_active_parts = unseen_active_parts [where P = "grown st c" for st c]
lemmas adds_identity = unseen_identity [where P = "grown st c" for st c]
lemmas adds_remove_dir = unseen_remove_dir [where P = "grown st c" for st c]
lemmas adds_cleanup = unseen_cleanup [where P = "grown st c" for st c]
lemmas adds_cleanups = unseen_cleanups [where P = "grown st c" for st c]
lemmas adds_cleanup_dirs = unseen_cleanup_dirs [where P = "grown st c" for st c]
lemmas adds_create_dir = unseen_create_dir [where P = "grown st c" for st c]
lemmas adds_stage_loop = unseen_stage_loop [where P = "grown st c" for st c]
lemmas adds_metadata_loop = unseen_metadata_loop [where P = "grown st c" for st c]


lemma adds_get: "adds st c (get_object env st' k)"
  by (rule keeps_objs [where P = "grown st c"]) (rule get_object_keeps)

lemma adds_read_manifest: "adds st c (read_manifest env cd st' n)"
  by (rule keeps_objs [where P = "grown st c"]) (rule read_manifest_keeps)

lemma adds_list_names: "adds st c (list_manifest_names env st')"
  by (rule keeps_objs [where P = "grown st c"]) (rule list_names_keeps)

lemma complete_grown:
  assumes "grown st c (objs s)"
  shows "grown st c (objs (snd (s3_complete env (blob_object st hash) i ps s)))"
proof -
  have "objs (snd (s3_complete env (blob_object st hash) i ps s)) (manifest_object st n) =
      objs s (manifest_object st n)" for n
    by (rule complete_frame) simp
  moreover have "objs s (blob_object st x) \<noteq> None \<Longrightarrow>
      objs (snd (s3_complete env (blob_object st hash) i ps s)) (blob_object st x) \<noteq> None" for x
    using complete_frame [of "blob_object st x" "blob_object st hash"] complete_keeps
    by (cases "blob_object st x = blob_object st hash") metis+
  ultimately show ?thesis using assms by (simp add: grown_def)
qed

text \<open>An upload changes the bucket only where it completes.\<close>

lemma unseen_upload:
  assumes fin: "\<And>i ps s. P (objs s) \<Longrightarrow> P (objs (snd (s3_complete env (blob_object st hash) i ps s)))"
  shows "unseen P (put_object_multipart_reader env st (blob_remote_key hash) r sz (\<lambda>b. emit h (ev b)))"
proof -
  let ?k = "blob_object st hash"
  have sleeping: "P (objs s) \<Longrightarrow> P (objs (do_sleep env ms s))" for s ms by (simp add: sleep_frame)
  have one: "unseen P (upload_one env st ?k i p)" for i p
    unfolding upload_one_def Let_def
    by (auto intro!: keeps_bind keeps_s3_retry keeps_pure sleeping simp: upload_reads split: prod.split)
  have counted: "unseen P (\<lambda>w. with_progress (\<lambda>p. f (svc w) p) w)" for f
    by (simp add: keeps_def with_progress_def)
  have done_one: "unseen P (handle_completed_part env st (\<lambda>b. emit h (ev b)) a d)" for a d
    unfolding handle_completed_part_def Let_def case_prod_beta
    by (intro keeps_bind keeps_if counted keeps_pure unseen_host)
  have handled: "unseen P (handle_completed env st (\<lambda>b. emit h (ev b)) a ds)" for a ds
    by (induction ds arbitrary: a) (auto intro!: keeps_bind keeps_pure done_one)
  have complete: "unseen P (s3_retry env st q (s3_complete env ?k i ps))" for q i ps
    by (rule keeps_s3_retry) (auto intro: fin sleeping)
  have inner: "unseen P (multipart_inner env st ?k i r sz (\<lambda>b. emit h (ev b)))" for i
    unfolding multipart_inner_def Let_def case_prod_beta
    by (intro keeps_bind keeps_if keeps_map one keeps_pure handled complete)
  show ?thesis
    unfolding put_object_multipart_reader_def Let_def blob_object_def [symmetric]
    by (auto intro!: keeps_bind keeps_match keeps_s3_retry keeps_await keeps_pure sleeping inner
        simp: create_reads abort_reads split: option.split)
qed

lemma adds_upload:
  "adds st c (put_object_multipart_reader env st (blob_remote_key hash) r sz (\<lambda>b. emit h (ev b)))"
  by (rule unseen_upload) (rule complete_grown)

lemma uploaded_present:
  assumes "put_object_multipart_reader env st key r sz cb w = (Ok n, w')"
  shows "objs (svc w') (prefixed_key st key) \<noteq> None"
proof -
  from assms obtain i u where "multipart_inner env st (prefixed_key st key) i r sz cb u = (Ok n, w')"
    by (auto simp: put_object_multipart_reader_def Let_def io_match_def io_fail_def io_return_def
          io_bind_def split: option.splits prod.splits outcome.splits sum.splits)
  then obtain q ps v t where "s3_retry env st q (s3_complete env (prefixed_key st key) i ps) t = (Ok v, w')"
    by (auto simp: multipart_inner_def Let_def case_prod_beta io_fail_def io_return_def
        elim!: io_bind_OkE split: if_splits)
  from s3_retry_result [OF this] show ?thesis using complete_done by (cases v) auto
qed

text \<open>What is known to be in the bucket besides \<open>c\<close>: the blobs of \<open>K\<close>.\<close>

abbreviation has_blobs :: "storage \<Rightarrow> (string \<Rightarrow> bytes option) \<Rightarrow> string set \<Rightarrow> 's \<Rightarrow> bool" where
  "has_blobs st c K s \<equiv> grown st (with_blobs st K c) (objs s)"

lemma has_blobs_mono: "has_blobs st c K s \<Longrightarrow> K' \<subseteq> K \<Longrightarrow> has_blobs st c K' s"
  unfolding grown_with_blobs by blast

lemma has_blobs_insert:
  "has_blobs st c K s \<Longrightarrow> objs s (blob_object st x) \<noteq> None \<Longrightarrow> has_blobs st c (insert x K) s"
  unfolding grown_with_blobs by blast

lemma triple_adds:
  "(\<And>c. adds st c m) \<Longrightarrow> triple (has_blobs st c {}) (has_blobs st c K) m (\<lambda>_. has_blobs st c K)"
  by (rule triple_keeps) (auto intro: has_blobs_mono)

lemma upload_one_triple:
  "triple (has_blobs st c {}) (has_blobs st c K) (upload_one_archive env h st e)
     (\<lambda>x. has_blobs st c (insert (fst x) K))"
proof -
  obtain hash dir tree where e: "e = (hash, dir, tree)" by (metis prod_cases3)
  have put: "triple (has_blobs st c {}) (has_blobs st c K)
      (put_object_multipart_reader env st (blob_remote_key hash) r sz (\<lambda>b. emit h (ev b)))
      (\<lambda>_. has_blobs st c (insert hash K))" for r sz ev
  proof (rule tripleI)
    fix w x w' assume p: "has_blobs st c K (svc w)"
      and run: "put_object_multipart_reader env st (blob_remote_key hash) r sz (\<lambda>b. emit h (ev b)) w = (x, w')"
    have k: "has_blobs st c K (svc w')"
      by (rule keepsD [where I = "has_blobs st c K", OF adds_upload p run])
    show "case x of Ok _ \<Rightarrow> has_blobs st c (insert hash K) (svc w') | _ \<Rightarrow> has_blobs st c {} (svc w')"
    proof (cases x)
      case (Ok n)
      from uploaded_present [OF run [unfolded Ok]] k Ok show ?thesis
        by (simp add: has_blobs_insert blob_object_def)
    qed (use k has_blobs_mono in auto)
  qed
  note pure = triple_adds [OF keeps_pure(5)] triple_adds [OF keeps_pure(7)] triple_adds [OF adds_host(4)]
  have fin: "triple (has_blobs st c {}) (has_blobs st c (insert hash K))
     (case y of (out, written) \<Rightarrow>
        if uploaded \<noteq> written then io_fail (UploadSizeMismatch hash uploaded written)
        else
          io_bind (timed_progress env record_upload_done) (\<lambda>_.
          io_bind (cleanup_staged_part h dir) (\<lambda>_.
          io_bind (emit h (PartDone hash uploaded)) (\<lambda>_. io_return (hash, uploaded)))))
     (\<lambda>x. has_blobs st c (insert (fst x) K))" for y uploaded
  proof (cases y)
    case (Pair out written)
    have "triple (has_blobs st c {}) (has_blobs st c (insert hash K))
       (io_fail (UploadSizeMismatch hash uploaded written)) (\<lambda>x. has_blobs st c (insert (fst x) K))"
      by (rule tripleI) (auto simp: io_fail_def intro: has_blobs_mono)
    moreover have "triple (has_blobs st c {}) (has_blobs st c (insert hash K))
       (io_bind (timed_progress env record_upload_done) (\<lambda>_.
          io_bind (cleanup_staged_part h dir) (\<lambda>_.
          io_bind (emit h (PartDone hash uploaded)) (\<lambda>_. io_return (hash, uploaded)))))
       (\<lambda>x. has_blobs st c (insert (fst x) K))"
      by (rule triple_bind [OF triple_adds [OF keeps_timed_progress]],
          rule triple_bind [OF triple_adds [OF adds_cleanup]],
          rule triple_bind [OF triple_adds [OF adds_host(4)]], rule triple_return) simp
    ultimately show ?thesis unfolding Pair prod.case by (rule triple_if)
  qed
  show ?thesis
    unfolding upload_one_archive_def e prod.case Let_def
    by (rule triple_bind [OF pure(1)], rule triple_bind [OF pure(2)], rule triple_bind [OF pure(3)],
        rule triple_bind [OF put], rule triple_bind [OF triple_adds [OF keeps_pure(5)]], rule fin)
qed


lemma upload_one_adds: "adds st c (upload_one_archive env h st e)"
proof -
  obtain hash dir tree where e: "e = (hash, dir, tree)" by (metis prod_cases3)
  show ?thesis
    unfolding upload_one_archive_def e prod.case Let_def
    by (auto intro!: keeps_intros adds_upload adds_cleanup adds_host split: prod.split)
qed

lemma attempt_upload_triple:
  "triple (has_blobs st c {}) (has_blobs st c K) (attempt (upload_one_archive env h st e))
     (\<lambda>r. has_blobs st c (K \<union> {x. \<exists>y. r = Inr (x, y)}))"
proof (rule tripleI)
  fix w r w' assume p: "has_blobs st c K (svc w)"
    and run: "attempt (upload_one_archive env h st e) w = (r, w')"
  have keep: "has_blobs st c K (svc w')"
    by (rule keepsD [where I = "has_blobs st c K" and m = "attempt (upload_one_archive env h st e)",
          OF keeps_attempt [OF upload_one_adds] p run])
  show "case r of Ok r \<Rightarrow> has_blobs st c (K \<union> {x. \<exists>y. r = Inr (x, y)}) (svc w')
      | _ \<Rightarrow> has_blobs st c {} (svc w')"
  proof (cases r)
    case (Ok y)
    show ?thesis
    proof (cases y)
      case (Inr v)
      have "upload_one_archive env h st e w = (Ok v, w')"
        by (rule attempt_Ok_Inr) (use run in \<open>simp only: Ok Inr\<close>)
      from triple_Ok [OF upload_one_triple p this] have s: "has_blobs st c (insert (fst v) K) (svc w')" .
      have "K \<union> {x. \<exists>z. y = Inr (x, z)} \<subseteq> insert (fst v) K" using Inr by auto
      from has_blobs_mono [OF s this] show ?thesis using Ok by simp
    qed (use keep Ok in auto)
  qed (use keep has_blobs_mono in auto)
qed

lemma upload_archives_triple:
  "triple (has_blobs st c {}) (has_blobs st c K) (upload_part_archives env h st dirs)
     (\<lambda>new. has_blobs st c (K \<union> fst ` set new))"
proof -
  let ?done = "\<lambda>r :: (string \<times> u64) result. {x. \<exists>y. r = Inr (x, y)}"
  have lift: "triple (has_blobs st c {}) (has_blobs st c (K \<union> \<Union> (?done ` set rs)))
      (io_lift (map_r (\<lambda>r. r) rs)) (\<lambda>new. has_blobs st c (K \<union> fst ` set new))"
    for rs :: "(string \<times> u64) result list"
  proof (rule triple_lift)
    fix new s assume "map_r (\<lambda>r. r) rs = Inr new"
      and s: "has_blobs st c (K \<union> \<Union> (?done ` set rs)) s"
    then have "rs = map Inr new" by (simp add: map_r_id)
    then have "fst ` set new \<subseteq> \<Union> (?done ` set rs)" by force
    then show "has_blobs st c (K \<union> fst ` set new) s" by (intro has_blobs_mono [OF s]) blast
  qed (auto intro: has_blobs_mono)
  show ?thesis
    unfolding upload_part_archives_def
    by (rule triple_bind [OF triple_adds [OF keeps_timed_progress]],rule triple_bind [OF triple_io_map [OF attempt_upload_triple]], rule lift)
qed

section \<open>The rest of a backup\<close>

lemma load_known_triple:
  assumes "consistent cd st c"
  shows "triple (has_blobs st c {}) (has_blobs st c {}) (load_known_from_latest_manifest env cd st sh re)
     (\<lambda>x. has_blobs st c (fst x))"
proof -
  have known: "triple (has_blobs st c {}) (has_blobs st c {}) (read_manifest env cd st n)
      (\<lambda>m. has_blobs st c (set (map mp_blob_hash (m_parts m))))" for n
  proof (rule tripleI)
    fix w r w' assume p: "has_blobs st c {} (svc w)" and run: "read_manifest env cd st n w = (r, w')"
    have keep: "has_blobs st c {} (svc w')"
      by (rule keepsD [where I = "has_blobs st c {}", OF adds_read_manifest p run])
    show "case r of Ok m \<Rightarrow> has_blobs st c (set (map mp_blob_hash (m_parts m))) (svc w')
        | _ \<Rightarrow> has_blobs st c {} (svc w')"
    proof (cases r)
      case (Ok m)
      from read_manifest_Ok [OF run [unfolded Ok]] obtain b m0
        where b: "objs (svc w) (manifest_object st n) = Some b" and d: "dec_manifest cd b = Some m0"
          and m: "m = m0\<lparr>m_name := n\<rparr>" unfolding manifest_object_def by blast
      from p b have "c (manifest_object st n) = Some b" using grown_manifest grown_with_blobs by metis
      with assms d m have "\<forall>x \<in> set (map mp_blob_hash (m_parts m)). c (blob_object st x) \<noteq> None"
        unfolding consistent_def by auto
      with keep have "has_blobs st c (set (map mp_blob_hash (m_parts m))) (svc w')"
        unfolding grown_with_blobs using grown_blob by blast
      with Ok show ?thesis by simp
    qed (use keep in auto)
  qed
  have some: "triple (has_blobs st c {}) (has_blobs st c {})
      (io_bind (read_manifest env cd st n)
        (\<lambda>m. io_return (set (map mp_blob_hash (m_parts m)), sizes m)))
      (\<lambda>x. has_blobs st c (fst x))" for n and sizes :: "manifest \<Rightarrow> string \<Rightarrow> u64 option"
    by (rule triple_bind [OF known], rule triple_return) simp
  have none: "triple (has_blobs st c {}) (has_blobs st c {}) (io_return ({}, Map.empty))
      (\<lambda>x :: string set \<times> (string \<Rightarrow> u64 option). has_blobs st c (fst x))"
    by (rule triple_return) simp
  show ?thesis
    unfolding load_known_from_latest_manifest_def
  proof (rule triple_bind [OF triple_adds [OF adds_list_names]])
    fix names
    show "triple (has_blobs st c {}) (has_blobs st c {})
        (case latest_name (''live_'' @ sh @ ''_'' @ re @ ''_'') names of
          None \<Rightarrow> io_return ({}, Map.empty)
        | Some latest \<Rightarrow> io_bind (read_manifest env cd st latest) (\<lambda>m.
            io_return (set (map mp_blob_hash (m_parts m)),
              foldl (\<lambda>sizes p. sizes(mp_blob_hash p \<mapsto> mp_blob_size p)) Map.empty (m_parts m))))
        (\<lambda>x. has_blobs st c (fst x))"
      by (cases "latest_name (''live_'' @ sh @ ''_'' @ re @ ''_'') names")
        (simp_all only: option.case none some)
  qed
qed

lemma head_check_triple:
  "triple (has_blobs st c {}) (has_blobs st c K) (head_check_one env h st hash)
     (\<lambda>found. has_blobs st c (K \<union> fst ` set found))"
proof -
  have look: "triple (has_blobs st c {}) (has_blobs st c K) (attempt (object_exists env st (blob_remote_key hash)))
      (\<lambda>r. has_blobs st c (K \<union> {x. x = hash \<and> (\<exists>n. r = Inr (Some n))}))"
  proof (rule tripleI)
    fix w r w' assume p: "has_blobs st c K (svc w)"
      and run: "attempt (object_exists env st (blob_remote_key hash)) w = (r, w')"
    have adds: "adds st d (object_exists env st (blob_remote_key hash))" for d
      unfolding object_exists_def Let_def
      by (auto intro!: keeps_intros simp: head_reads split: sum.split)
    have keep: "has_blobs st c K (svc w')"
      by (rule keepsD [where I = "has_blobs st c K" and
            m = "attempt (object_exists env st (blob_remote_key hash))", OF keeps_attempt [OF adds] p run])
    have found: "objs (svc w') (blob_object st hash) \<noteq> None" if r: "r = Ok (Inr (Some n))" for n
    proof -
      have "object_exists env st (blob_remote_key hash) w = (Ok (Some n), w')"
        by (rule attempt_Ok_Inr) (use run in \<open>simp only: r\<close>)
      then obtain l where "await env (ReqHead (blob_object st hash)) (s3_head env (blob_object st hash)) w
          = (Ok (Inr l), w')"
        by (auto simp: object_exists_def Let_def blob_object_def io_fail_def io_return_def
            elim!: io_bind_OkE split: sum.splits if_splits)
      from await_svc [OF this] have a: "s3_head env (blob_object st hash) (svc w) = (Inr l, svc w')" .
      from head_found [OF a] head_reads [of "blob_object st hash" "svc w"] a show ?thesis by simp
    qed
    show "case r of Ok r \<Rightarrow> has_blobs st c (K \<union> {x. x = hash \<and> (\<exists>n. r = Inr (Some n))}) (svc w')
        | _ \<Rightarrow> has_blobs st c {} (svc w')"
    proof (cases r)
      case (Ok y)
      show ?thesis
      proof (cases "\<exists>n. y = Inr (Some n)")
        case True
        then have "K \<union> {x. x = hash \<and> (\<exists>n. y = Inr (Some n))} \<subseteq> insert hash K" by auto
        from has_blobs_mono [OF has_blobs_insert [OF keep] this] found Ok True show ?thesis by auto
      qed (use keep Ok in auto)
    qed (use keep has_blobs_mono in auto)
  qed
  show ?thesis
    unfolding head_check_one_def
  proof (rule triple_bind [OF triple_adds [OF adds_host(4)]], rule triple_bind [OF look])
    fix r :: "u64 option result"
    let ?K = "K \<union> {x. x = hash \<and> (\<exists>n. r = Inr (Some n))}"
    have empty: "triple (has_blobs st c {}) (has_blobs st c ?K) (io_return [])
        (\<lambda>found :: (string \<times> u64) list. has_blobs st c (K \<union> fst ` set found))"
      by (rule triple_return) (auto elim: has_blobs_mono)
    have one: "triple (has_blobs st c {}) (has_blobs st c ?K)
        (io_bind (emit h (PartHeadSkipped hash sz)) (\<lambda>_. io_return [(hash, sz)]))
        (\<lambda>found. has_blobs st c (K \<union> fst ` set found))" if "r = Inr (Some sz)" for sz
      by (rule triple_bind [OF triple_adds [OF adds_host(4)]], rule triple_return)
        (auto simp: that elim: has_blobs_mono)
    from empty one show "triple (has_blobs st c {}) (has_blobs st c ?K)
        (case r of Inr (Some sz) \<Rightarrow> io_bind (emit h (PartHeadSkipped hash sz)) (\<lambda>_. io_return [(hash, sz)])
         | Inr None \<Rightarrow> io_return [] | Inl e \<Rightarrow> io_return [])
        (\<lambda>found. has_blobs st c (K \<union> fst ` set found))"
      by (cases r) (simp, cases "projr r", auto)
  qed
qed

lemma head_checks_triple:
  "triple (has_blobs st c {}) (has_blobs st c K) (head_check_existing env h st hs)
     (\<lambda>found. has_blobs st c (K \<union> fst ` set found))"
  unfolding head_check_existing_def
  by (rule triple_bind [OF triple_io_map [OF head_check_triple]], rule triple_return)
     (simp only: set_concat image_UN)

lemma resolved_hashes:
  assumes "check_staged dirs need head = Inr ()" and "need = fst (parts_to_upload parts known)"
    and "map fst new = map fst dirs"
    and "resolve_manifest_parts sizes new head parts = Inr mps"
  shows "set (map mp_blob_hash mps) \<subseteq> known \<union> fst ` set head \<union> fst ` set new"
proof -
  have "set (map fst need) = p_hash ` set parts - known" using assms(2) needed_hashes by blast
  moreover have "fst ` set need \<subseteq> fst ` set head \<union> fst ` set dirs"
    using assms(1) unfolding check_staged_ok .
  moreover have "fst ` set new = fst ` set dirs" using assms(3) by (metis list.set_map)
  ultimately have all: "p_hash ` set parts \<subseteq> known \<union> fst ` set head \<union> fst ` set new" by auto
  from assms(4) obtain f where "map_r (manifest_part_of f) parts = Inr mps"
    by (auto simp: resolve_manifest_parts_def bind_r_Inr_iff)
  then have "map mp_blob_hash mps = map p_hash parts"
    by (induction parts arbitrary: mps)
       (auto simp: bind_r_Inr_iff manifest_part_of_def split: option.splits)
  then have "set (map mp_blob_hash mps) = p_hash ` set parts" by (metis list.set_map)
  with all show ?thesis by simp
qed

lemma upload_phase_triple:
  "triple (has_blobs st c {}) (has_blobs st c (known \<union> fst ` set head))
     (upload_phase env h st root known sizes head staged parts)
     (\<lambda>mps. has_blobs st c (set (map mp_blob_hash mps)))"
proof -
  let ?K = "known \<union> fst ` set head"
  let ?need = "fst (parts_to_upload parts known)"
  let ?dirs = "upload_dirs staged ?need head"
  have remove: "triple (has_blobs st c {}) (has_blobs st c K) (remove_dir_all_if_exists h root)
      (\<lambda>_. has_blobs st c K)" for K
    by (rule triple_adds [OF adds_remove_dir])
  show ?thesis
    unfolding upload_phase_def Let_def
  proof (rule triple_bind)
    show "triple (has_blobs st c {}) (has_blobs st c ?K) (io_lift (check_staged ?dirs ?need head))
        (\<lambda>_ s. has_blobs st c ?K s \<and> check_staged ?dirs ?need head = Inr ())"
      by (rule triple_lift) (auto elim: has_blobs_mono)
    show "triple (has_blobs st c {})
        (\<lambda>s. has_blobs st c ?K s \<and> check_staged ?dirs ?need head = Inr ())
        (io_bind (cleanup_staged_parts h (unused_dirs staged ?need head)) (\<lambda>_.
         io_bind (upload_part_archives env h st ?dirs) (\<lambda>new.
         io_bind (remove_dir_all_if_exists h root) (\<lambda>_.
         io_lift (resolve_manifest_parts sizes new head parts)))))
        (\<lambda>mps. has_blobs st c (set (map mp_blob_hash mps)))" for u :: unit
    proof (rule triple_pure, rule triple_bind [OF triple_adds [OF adds_cleanups]], rule triple_bind)
      assume c: "check_staged ?dirs ?need head = Inr ()"
      show "triple (has_blobs st c {}) (has_blobs st c ?K) (upload_part_archives env h st ?dirs)
          (\<lambda>new s. has_blobs st c (?K \<union> fst ` set new) s \<and> map fst new = map fst ?dirs)"
        by (rule tripleI, frule (1) upload_archives_triple [unfolded triple_def, rule_format])
           (auto dest: upload_part_archives_Ok split: outcome.splits)
      show "triple (has_blobs st c {})
          (\<lambda>s. has_blobs st c (?K \<union> fst ` set new) s \<and> map fst new = map fst ?dirs)
          (io_bind (remove_dir_all_if_exists h root) (\<lambda>_.
            io_lift (resolve_manifest_parts sizes new head parts)))
          (\<lambda>mps. has_blobs st c (set (map mp_blob_hash mps)))" for new
      proof (rule triple_pure, rule triple_bind [OF remove], rule triple_lift)
        fix mps s assume new: "map fst new = map fst ?dirs"
          and r: "resolve_manifest_parts sizes new head parts = Inr mps"
          and s: "has_blobs st c (?K \<union> fst ` set new) s"
        from resolved_hashes [OF c refl new r]
        show "has_blobs st c (set (map mp_blob_hash mps)) s" by (intro has_blobs_mono [OF s]) simp
      qed (auto elim: has_blobs_mono)
    qed
  qed
qed

abbreviation sound :: "manifest_codec \<Rightarrow> storage \<Rightarrow> (string \<Rightarrow> bytes option) \<Rightarrow> 's \<Rightarrow> bool" where
  "sound cd st c s \<equiv> consistent cd st (objs s) \<and> preserved st c (objs s)"

lemma has_blobs_sound: "consistent cd st c \<Longrightarrow> has_blobs st c K s \<Longrightarrow> sound cd st c s"
proof -
  assume c: "consistent cd st c" and "has_blobs st c K s"
  then have g: "grown st c (objs s)" by (simp add: grown_with_blobs)
  from grown_consistent [OF g c] have "consistent cd st (objs s)" .
  moreover have "preserved st c (objs s)"
    unfolding preserved_def grown_manifest [OF g] using grown_blob [OF g] by blast
  ultimately show "sound cd st c s" ..
qed

lemma put_sound:
  assumes c: "consistent cd st c" and k: "has_blobs st c (set (map mp_blob_hash (m_parts m))) s"
    and enc: "enc_manifest cd m = Some b"
    and codec: "keeps_parts cd"
  shows "sound cd st c (snd (s3_put env (manifest_object st (m_name m)) b None True s))"
proof -
  let ?s = "snd (s3_put env (manifest_object st (m_name m)) b None True s)"
  from has_blobs_sound [OF c k] have old: "sound cd st c s" .
  have blob: "objs ?s (blob_object st x) = objs s (blob_object st x)" for x
    by (rule put_frame) simp
  have man: "objs ?s (manifest_object st n) = objs s (manifest_object st n) \<or>
      n = m_name m \<and> objs s (manifest_object st n) = None \<and> objs ?s (manifest_object st n) = Some b" for n
  proof (cases "n = m_name m")
    case True
    show ?thesis
    proof (cases "objs s (manifest_object st n)")
      case (Some d)
      with put_if_none [OF Some] True show ?thesis by simp
    next
      case None
      with put_cases [of "manifest_object st n" b None True s] True show ?thesis by auto
    qed
  next
    case False
    then show ?thesis by (intro disjI1 put_frame) simp
  qed
  have "objs ?s (blob_object st x) \<noteq> None"
    if "objs ?s (manifest_object st n) = Some d" "dec_manifest cd d = Some m'"
      "x \<in> set (map mp_blob_hash (m_parts m'))" for n d m' x
    using man [of n]
  proof
    assume "objs ?s (manifest_object st n) = objs s (manifest_object st n)"
    with that old show ?thesis unfolding blob consistent_def by metis
  next
    assume "n = m_name m \<and> objs s (manifest_object st n) = None \<and> objs ?s (manifest_object st n) = Some b"
    with that(1) have "d = b" by (metis option.inject)
    with that(2) have d: "dec_manifest cd b = Some m'" by simp
    with codec enc have "m_parts m' = m_parts m" unfolding keeps_parts_def by blast
    with that(3) have "x \<in> set (map mp_blob_hash (m_parts m))" by simp
    with k show ?thesis unfolding blob grown_with_blobs by blast
  qed
  then have "consistent cd st (objs ?s)" unfolding consistent_def by blast
  moreover have "preserved st c (objs ?s)"
    using old man unfolding preserved_def blob by (metis option.discI)
  ultimately show ?thesis by blast
qed

text \<open>The state after a run that wrote the snapshot \<open>n\<close>.\<close>

abbreviation written ::
  "manifest_codec \<Rightarrow> storage \<Rightarrow> (string \<Rightarrow> bytes option) \<Rightarrow> string \<Rightarrow> 's \<Rightarrow> bool"
where
  "written cd st c n s \<equiv>
     sound cd st c s \<and> c (manifest_object st n) = None \<and> objs s (manifest_object st n) \<noteq> None"

lemma write_manifest_triple:
  assumes c: "consistent cd st c"
    and codec: "keeps_parts cd"
  shows "triple (sound cd st c) (has_blobs st c (set (map mp_blob_hash (m_parts m))))
    (write_manifest env cd st m)
    (\<lambda>_. written cd st c (m_name m))"
proof (rule tripleI)
  fix w r w' assume p: "has_blobs st c (set (map mp_blob_hash (m_parts m))) (svc w)"
    and run: "write_manifest env cd st m w = (r, w')"
  let ?k = "manifest_object st (m_name m)"
  note same = has_blobs_sound [OF c p]
  show "case r of Ok _ \<Rightarrow> written cd st c (m_name m) (svc w')
      | _ \<Rightarrow> sound cd st c (svc w')"
  proof (cases "enc_manifest cd m")
    case None
    with run same show ?thesis
      by (auto simp: write_manifest_def encode_def io_lift_def io_bind_def)
  next
    case (Some b)
    obtain y u where y: "await env (ReqPut ?k b None True) (s3_put env ?k b None True) w = (y, u)"
      by fastforce
    have rest: "write_manifest env cd st m w = io_bind (await env (ReqPut ?k b None True) (s3_put env ?k b None True))
        (\<lambda>r. case r of
          Inr etag \<Rightarrow> io_return ()
        | Inl e \<Rightarrow> if is_precondition_failed e then io_fail (ManifestExists (m_name m))
                   else io_fail (S3Failure e)) w"
      using Some by (auto simp: write_manifest_def encode_def io_lift_def put_object_conditional_def
          manifest_object_def io_bind_def io_return_def io_fail_def Let_def
          split: prod.split outcome.split sum.split)
    show ?thesis
    proof (cases y)
      case (Ok z)
      from await_svc [OF y [unfolded Ok]] have put: "s3_put env ?k b None True (svc w) = (z, svc u)" .
      from put_sound [OF c p Some codec] put have s: "sound cd st c (svc u)" by simp
      have svc: "svc w' = svc u" and ok: "r = Ok v \<Longrightarrow> \<exists>e. z = Inr e" for v
        using run rest y Ok by (auto simp: io_bind_def io_return_def io_fail_def split: sum.splits if_splits)
      show ?thesis
      proof (cases r)
        case (Ok v)
        with ok obtain e where "z = Inr e" by blast
        with put put_done put_if_none_done have "objs (svc u) ?k = Some b" "objs (svc w) ?k = None" by blast+
        moreover from p have "objs (svc w) ?k = c ?k" using grown_manifest grown_with_blobs by metis
        ultimately show ?thesis using s Ok Some by (simp add: svc)
      qed (use s in \<open>simp_all add: svc\<close>)
    next
      case (Err e)
      with y show ?thesis by simp
    next
      case Dropped
      with run rest y same show ?thesis by (auto simp: io_bind_def await_def split: if_splits prod.splits)
    qed (use y in \<open>auto simp: await_def split: if_splits prod.splits\<close>)
  qed
qed

lemma keeps_written: "(\<And>c. keeps (\<lambda>s. objs s = c) m) \<Longrightarrow> keeps (written cd st c n) m"
  by (rule keeps_objs [where P = "\<lambda>d. (consistent cd st d \<and> preserved st c d) \<and>
        c (manifest_object st n) = None \<and> d (manifest_object st n) \<noteq> None"])

lemma snapshot_body_triple:
  assumes c: "consistent cd st c"
    and codec: "keeps_parts cd"
  shows "triple (sound cd st c) (has_blobs st c known)
     (snapshot_body env h cd cfg st n ts sh re root known sizes parts)
     (\<lambda>x s. x = n \<and> written cd st c n s)"
proof -
  note weak = has_blobs_sound [OF c]
  have adds: "triple (sound cd st c) (has_blobs st c K) m (\<lambda>_. has_blobs st c K)"
    if "\<And>c. adds st c m" for K and m :: "('s, 'b) io"
    by (rule triple_weaken [OF triple_adds [OF that]]) (rule weak)
  have body: "triple (sound cd st c) (has_blobs st c (set (map mp_blob_hash mps)))
     (io_bind (write_manifest env cd st
         \<lparr>m_name = n, m_timestamp = ts, m_shard = sh, m_replica = re,
          m_created_by = to_string_lossy (h_hostname h), m_parts = mps, m_files = files\<rparr>) (\<lambda>_.
     io_bind (emit h (BackupComplete n)) (\<lambda>_. io_return n)))
     (\<lambda>x s. x = n \<and> written cd st c n s)" for mps files
  proof (rule triple_bind)
    let ?m = "\<lparr>m_name = n, m_timestamp = ts, m_shard = sh, m_replica = re,
          m_created_by = to_string_lossy (h_hostname h), m_parts = mps, m_files = files\<rparr>"
    show "triple (sound cd st c) (has_blobs st c (set (map mp_blob_hash mps)))
        (write_manifest env cd st ?m) (\<lambda>_. written cd st c n)"
      using write_manifest_triple [OF c codec, of ?m] by simp
    show "triple (sound cd st c) (written cd st c n) (io_bind (emit h (BackupComplete n)) (\<lambda>_. io_return n))
        (\<lambda>x s. x = n \<and> written cd st c n s)"
      by (rule triple_bind [OF triple_keeps [OF keeps_written]], unfold emit_def, rule keeps_host_call)
        (auto simp: local_emit intro: triple_return)
  qed
  show ?thesis
    unfolding snapshot_body_def case_prod_beta
    by (rule triple_bind [OF triple_weaken [OF head_checks_triple weak]], assumption,
        rule triple_bind [OF adds [OF adds_stage_loop]],
        rule triple_bind [OF adds [OF adds_metadata_loop]],
        rule triple_bind [OF triple_weaken [OF upload_phase_triple weak]], assumption, rule body)
qed

lemma remove_dir_same: "keeps (\<lambda>s. objs s = c) (remove_dir_all_if_exists h dir)"
  unfolding remove_dir_all_if_exists_def by (intro keeps_intros) (simp add: local_remove_dir)

lemma keeps_sound: "(\<And>c. keeps (\<lambda>s. objs s = c) m) \<Longrightarrow> keeps (sound cd st c) m"
  by (rule keeps_objs [where P = "\<lambda>d. consistent cd st d \<and> preserved st c d"])

text \<open>The cleanup on the way out changes nothing in the bucket.\<close>

lemma cleanup_triple:
  assumes "triple (sound cd st c) P m (\<lambda>x s. x = n \<and> written cd st c n s)"
  shows "triple (sound cd st c) P (with_staging_cleanup h root m) (\<lambda>x s. x = n \<and> written cd st c n s)"
proof (rule tripleI)
  fix w r w' assume p: "P (svc w)" and run: "with_staging_cleanup h root m w = (r, w')"
  obtain x u where m: "m w = (x, u)" by fastforce
  obtain y v where y: "attempt (remove_dir_all_if_exists h root) u = (y, v)" by fastforce
  from run m y have r: "r = x" and w': "w' = v" by (auto simp: with_staging_cleanup_def)
  from assms p m have q: "case x of Ok x \<Rightarrow> x = n \<and> written cd st c n (svc u) | _ \<Rightarrow> sound cd st c (svc u)"
    unfolding triple_def by blast
  have "objs (svc v) = objs (svc u)"
    by (rule keepsD [where I = "\<lambda>s. objs s = objs (svc u)", OF keeps_attempt [OF remove_dir_same] refl y])
  with q show "case r of Ok x \<Rightarrow> x = n \<and> written cd st c n (svc w') | _ \<Rightarrow> sound cd st c (svc w')"
    unfolding r w' by (cases x) auto
qed

lemma create_snapshot_triple:
  assumes st: "init_storage cfg = Inr (st, counters)" and c: "consistent cd st c"
    and codec: "keeps_parts cd"
  shows "triple (sound cd st c) (has_blobs st c {}) (create_snapshot env h cd cfg name)
     (\<lambda>n. written cd st c n)"
proof -
  note weak = has_blobs_sound [OF c]
  have adds: "triple (sound cd st c) (has_blobs st c K) m (\<lambda>_. has_blobs st c K)"
    if "\<And>c. adds st c m" for K and m :: "('s, 'b) io"
    by (rule triple_weaken [OF triple_adds [OF that]]) (rule weak)
  note step = triple_bind [OF adds]
  have lift: "io_bind (io_lift (Inr x)) f = f x" for x and f :: "_ \<Rightarrow> ('s, 'c) io"
    by (simp add: io_lift_def io_bind_def fun_eq_iff)
  have auto_name: "adds st d (case name of Some n \<Rightarrow> io_return n | None \<Rightarrow>
      io_bind (host_call (h_uuid h)) (\<lambda>uuid. io_return (build_auto_name cd sh re ts uuid)))" for d sh re ts
    by (auto intro!: keeps_intros adds_host split: option.split)
  have body: "triple (sound cd st c) (has_blobs st c known)
      (with_staging_cleanup h root (snapshot_body env h cd cfg st n ts sh re root known sizes parts))
      (\<lambda>n. written cd st c n)" for n ts sh re root known sizes parts
    by (rule triple_conseq [OF cleanup_triple [OF snapshot_body_triple [OF c codec]]]) auto
  show ?thesis
    unfolding create_snapshot_def Let_def st lift case_prod_beta prod.sel
    by (rule step [OF keeps_pure(6)], rule step [OF keeps_pure(7)], rule step [OF adds_active_parts],
        rule step [OF adds_identity], rule step [OF auto_name],
        rule triple_bind [OF triple_weaken [OF load_known_triple [OF c] weak]], assumption,
        rule step [OF keeps_if [OF keeps_pure(7) keeps_pure(1)]],
        rule step [OF adds_host(4)], rule step [OF adds_create_dir], rule step [OF adds_cleanup_dirs],
        rule step [OF adds_create_dir], rule body)
qed

end

section \<open>Backups\<close>

interpretation answered: backup_site "mem_env P" mem_lookup mem_remaining "answering code answer js"
  for P code answer js
  by unfold_locales (simp_all add: answering_def null_host_def)

text \<open>
  C2. A backup keeps the bucket consistent, however it ends: if every manifest has its blobs before,
  every manifest has them after. It changes no manifest and removes no blob, and when it returns a
  name, there was no snapshot of this name and now there is one. In particular every hash in the new
  manifest is the key of an object, be it one that the latest manifest refers to, one found by a head
  request, or one uploaded.
\<close>

theorem backup_consistent:
  assumes "backup_site env objs remaining h"
    and "keeps_parts cd"
    and "init_storage cfg = Inr (st, counters)"
    and "consistent cd st (objs (svc w))"
    and "create_snapshot env h cd cfg name w = (r, w')"
  shows "consistent cd st (objs (svc w')) \<and> preserved st (objs (svc w)) (objs (svc w')) \<and>
    (\<forall>n. r = Ok n \<longrightarrow> objs (svc w) (manifest_object st n) = None \<and>
       objs (svc w') (manifest_object st n) \<noteq> None)"
proof -
  note t = backup_site.create_snapshot_triple [OF assms(1,3,4,2), where name = name]
  have "grown st (with_blobs st {} (objs (svc w))) (objs (svc w))"
    by (simp add: grown_with_blobs grown_refl)
  with t assms(5) have "case r of
      Ok n \<Rightarrow> (consistent cd st (objs (svc w')) \<and> preserved st (objs (svc w)) (objs (svc w'))) \<and>
        objs (svc w) (manifest_object st n) = None \<and> objs (svc w') (manifest_object st n) \<noteq> None
    | _ \<Rightarrow> consistent cd st (objs (svc w')) \<and> preserved st (objs (svc w)) (objs (svc w'))"
    unfolding triple_def by blast
  then show ?thesis by (cases r) simp_all
qed

text \<open>An empty bucket, and a server without a part: the backup writes a snapshot.\<close>

definition empty_codec :: manifest_codec where
  "empty_codec = \<lparr>enc_manifest = \<lambda>m. if m_parts m = [] then Some [1] else None,
     dec_manifest = \<lambda>b. Some \<lparr>m_name = [], m_timestamp = 0, m_shard = [], m_replica = [],
       m_created_by = [], m_parts = [], m_files = []\<rparr>,
     fmt_timestamp = \<lambda>t. [], utc_day = \<lambda>t. None, date_in_range = \<lambda>d. True\<rparr>"

definition empty_mem :: "mem world" where
  "empty_mem = \<lparr>svc = \<lparr>mem_objs = [], mem_now = 0, mem_parts = []\<rparr>, progress = new_progress,
     guarded = False, trace = []\<rparr>"

lemma answered_parts:
  fixes w :: "'s world"
  assumes "\<not> cfg_use_clickhouse_local cfg"
  shows "query_active_parts (answering 200 [] js) cfg w = (Ok [], w)"
proof -
  have "run_query (answering 200 [] js) cfg sql w = (Ok [], w)" for sql
    by (simp add: run_query_def io_bind_def host_call_def io_return_def assms answering_def)
  moreover have "parse_active_parts (answering 200 [] js :: 's host) [] = Inr []"
    by (simp add: parse_active_parts_def lines_def)
  ultimately show ?thesis by (simp add: query_active_parts_def io_bind_def io_lift_def)
qed

lemma answering_simps [simp]:
  "h_is_terminal (answering n text js) = False" "h_emit (answering n text js) e s = s"
  "h_create_dir (answering n text js) d s = (True, s)" "h_read_dir (answering n text js) d s = (Some [], s)"
  "h_remove_dir (answering n text js) d s = (NotThere, s)" "h_tree (answering n text js) d s = (None, s)"
  "h_hostname (answering n text js) = ''host''"
  by (simp_all add: answering_def null_host_def)

lemma empty_metadata:
  "collect_metadata_files env (answering n text js) [] path w = (Ok [], w)"
  by (simp add: collect_metadata_files_def collect_directory_files_def io_bind_def io_return_def
      host_call_def)

lemma empty_head:
  "head_check_existing env h st [] w = (Ok [], w)"
  by (simp add: head_check_existing_def io_bind_def io_return_def)

lemma empty_names:
  "mem_objs (svc w) = [] \<Longrightarrow> \<not> guarded w \<Longrightarrow> list_manifest_names (mem_env {}) st w =
     (Ok [], w\<lparr>trace := trace w @ [ReqList (prefixed_key st MANIFEST_PREFIX) None]\<rparr>)"
  by (simp add: list_manifest_names_def list_objects_def numeral_2_eq_2 send_def await_def io_bind_def
      io_return_def clock_def mem_list_def mem_matching_def Let_def page_entries_def)

lemma empty_loops:
  "0 < k \<Longrightarrow> stage_loop k env h cfg known root area [] [] w = (Ok ([], []), w)"
  "0 < k \<Longrightarrow> metadata_loop k env (answering n text js) cfg [] w = (Ok ([], []), w)"
  by (cases k, simp_all add: parts_to_upload_def io_return_def io_match_def
      table_map_from_parts_def empty_metadata)+

lemma empty_upload:
  "upload_phase env (answering n text js) st root {} Map.empty [] [] [] w =
     (Ok [], w\<lparr>progress := fst (set_upload_total 0 (elapsed_ms env (svc w)) (progress w))\<rparr>)"
  by (simp add: upload_phase_def parts_to_upload_def upload_dirs_def unused_dirs_def check_staged_def
      io_lift_def io_bind_def io_return_def cleanup_staged_parts_def upload_part_archives_def
      timed_progress_def with_progress_def remove_dir_all_if_exists_def host_call_def
      resolve_manifest_parts_def uploaded_sizes_def)

definition demo_site :: config where
  "demo_site = demo_config\<lparr>cfg_shard := Some ''s'', cfg_replica := Some ''r''\<rparr>"

definition demo_storage :: storage where
  "demo_storage = new_storage None True DEFAULT_MIN_PART_SIZE DEFAULT_MAX_PART_SIZE 128 4"

lemma demo_site_storage: "init_storage demo_site = Inr (demo_storage, new_progress)"
  by (simp add: init_storage_def demo_site_def demo_storage_def demo_config_def from_args_def required_def)

lemma demo_site_simps [simp]:
  "cfg_use_clickhouse_local demo_site = False" "cfg_shard demo_site = Some ''s''"
  "cfg_replica demo_site = Some ''r''"
  by (simp_all add: demo_site_def)

lemma empty_backup:
  "\<exists>w'. create_snapshot (mem_env {}) (answering 200 [] (\<lambda>l. None)) empty_codec demo_site (Some ''n'') empty_mem
     = (Ok ''n'', w')"
  by (simp add: create_snapshot_def io_bind_def clock_def Let_def demo_site_storage io_lift_def
      with_progress_def answered_parts resolve_shard_replica_def io_return_def
      load_known_from_latest_manifest_def empty_names latest_name_def emit_def host_call_def
      create_dir_all_io_def cleanup_staging_dirs_def with_staging_cleanup_def attempt_def io_match_def
      remove_dir_all_if_exists_def snapshot_body_def parts_to_upload_def empty_head empty_loops
      MAX_STAGING_ITERATIONS_def empty_mem_def empty_upload write_manifest_def encode_def
      empty_codec_def put_object_conditional_def await_def mem_put_def mem_lookup_def)

theorem backup_consistent_witness:
  "\<exists>w'. create_snapshot (mem_env {}) (answering 200 [] (\<lambda>l. None)) empty_codec
     demo_site (Some ''n'') empty_mem = (Ok ''n'', w') \<and>
   mem_lookup (svc w') (manifest_object demo_storage ''n'') \<noteq> None"
proof -
  obtain w' where e: "create_snapshot (mem_env {}) (answering 200 [] (\<lambda>l. None)) empty_codec demo_site
      (Some ''n'') empty_mem = (Ok ''n'', w')" using empty_backup by blast
  have codec: "keeps_parts empty_codec" by (simp add: keeps_parts_def empty_codec_def)
  have "consistent empty_codec demo_storage (mem_lookup (svc empty_mem))"
    by (simp add: consistent_def empty_mem_def mem_lookup_def)
  from backup_consistent [OF answered.backup_site_axioms codec demo_site_storage this e] e
  show ?thesis by blast
qed

end
