(* ===== verification/Restore.thy ===== *)
theory Restore
  imports Clickhouse Util
begin

text \<open>
  \<open>restore\_snapshot\<close> of \<open>src/snapshots.rs\<close>: the selection of what to restore, the metadata files, the
  download and extraction of the parts, and their attachment. The local disk is a file system that
  the service state contains (\<open>disk\<close>); downloads run one after the other.
\<close>

section \<open>The disk\<close>

text \<open>\<open>d\_partial\<close>: what arrives of an object whose body then fails.\<close>

record 's disk =
  d_get :: "'s \<Rightarrow> fs"
  d_put :: "fs \<Rightarrow> 's \<Rightarrow> 's"
  d_os :: os
  d_partial :: "string \<Rightarrow> bytes list"

definition fs_io :: "'s disk \<Rightarrow> 'a fs_op \<Rightarrow> ('s, 'a) io" where
  "fs_io d m w =
     (case m (d_get d (svc w)) of
        (s, r) \<Rightarrow> (case r of Inl e \<Rightarrow> Err e | Inr x \<Rightarrow> Ok x, w\<lparr>svc := d_put d s (svc w)\<rparr>))"

text \<open>
  \<open>create\_dir\_all\<close> along the components below an existing directory: a component \<open>..\<close> needs the
  directory it leaves.
\<close>

fun create_dirs_along :: "os \<Rightarrow> path \<Rightarrow> component list \<Rightarrow> unit fs_op" where
  "create_dirs_along os d [] = fs_return ()"
| "create_dirs_along os d (Normal s # cs) =
     fs_bind (mkdir_one os (d @ [s])) (\<lambda>_. create_dirs_along os (d @ [s]) cs)"
| "create_dirs_along os d (c # cs) = create_dirs_along os (step_path d c) cs"

text \<open>\<open>create\_dir\_all(path.parent())\<close> and \<open>fs::write(path, content)\<close> for \<open>path = d.join(rel)\<close>.\<close>

definition write_file_join :: "os \<Rightarrow> path \<Rightarrow> string \<Rightarrow> bytes \<Rightarrow> unit fs_op" where
  "write_file_join os d rel content =
     (let cs = components rel; p = foldl step_path d cs in
      fs_bind (create_dirs_along os d (butlast cs)) (\<lambda>_.
      if dot_tail rel \<or> cs = [] \<or> last cs = ParentDir then fs_lift (Inl (IsADirectory p))
      else
        fs_bind (file_create os p) (\<lambda>_. file_append os p [] content)))"

section \<open>What to restore\<close>

record filtered_items =
  fi_parts :: "manifest_part list"
  fi_files :: "manifest_file list"
  fi_skipped :: "(string \<times> string) list"

definition part_table :: "manifest_part \<Rightarrow> string \<times> string" where
  "part_table p = (mp_database p, mp_table_name p)"

text \<open>The table whose definition a metadata file holds, if it is one of a table.\<close>

definition file_table :: "string \<Rightarrow> (string \<times> string) option" where
  "file_table path =
     (case strip_prefix ''metadata/'' path of
        None \<Rightarrow> None
      | Some rest \<Rightarrow>
          (case strip_suffix ''.sql'' rest of None \<Rightarrow> None | Some inner \<Rightarrow> split_once CHR ''/'' inner))"

definition select_table ::
  "(string \<times> string) option \<Rightarrow> manifest_part list \<Rightarrow> manifest_file list
     \<Rightarrow> (manifest_part list \<times> manifest_file list) result"
where
  "select_table table_filter parts files =
     (case table_filter of
        None \<Rightarrow> Inr (parts, files)
      | Some (db, tbl) \<Rightarrow>
          let parts = filter (\<lambda>p. mp_database p = db \<and> mp_table_name p = tbl) parts in
          if parts = [] then Inl (NoPartsForTable db tbl)
          else
            let db_sql = ''metadata/'' @ db @ ''.sql'';
                table_sql = ''metadata/'' @ db @ ''/'' @ tbl @ ''.sql''
            in Inr (parts, filter (\<lambda>f. mf_path f = db_sql \<or> mf_path f = table_sql) files))"

text \<open>A \<open>BTreeSet\<close> of pairs, in order.\<close>

definition pair_le :: "string \<times> string \<Rightarrow> string \<times> string \<Rightarrow> bool" where
  "pair_le a b \<longleftrightarrow> fst a < fst b \<or> (fst a = fst b \<and> snd a \<le> snd b)"

fun insert_pair :: "string \<times> string \<Rightarrow> (string \<times> string) list \<Rightarrow> (string \<times> string) list" where
  "insert_pair x [] = [x]"
| "insert_pair x (y # ys) =
     (if x = y then y # ys else if pair_le x y then x # y # ys else y # insert_pair x ys)"

definition filter_restore_items ::
  "manifest_part list \<Rightarrow> manifest_file list \<Rightarrow> (string \<times> string) option
     \<Rightarrow> (string \<times> string) set option \<Rightarrow> filtered_items result"
where
  "filter_restore_items parts files table_filter exclude_tables =
     bind_r (select_table table_filter parts files) (\<lambda>(parts, files).
     case exclude_tables of
       None \<Rightarrow> Inr \<lparr>fi_parts = parts, fi_files = files, fi_skipped = []\<rparr>
     | Some exclude \<Rightarrow>
         Inr \<lparr>fi_parts = filter (\<lambda>p. part_table p \<notin> exclude) parts,
              fi_files = filter (\<lambda>f. case file_table (mf_path f) of
                  Some t \<Rightarrow> t \<notin> exclude | None \<Rightarrow> True) files,
              fi_skipped = foldl (\<lambda>s p. insert_pair (part_table p) s) []
                (filter (\<lambda>p. part_table p \<in> exclude) parts)\<rparr>)"

section \<open>Restoring\<close>

definition restore_file :: "'s env \<Rightarrow> 's disk \<Rightarrow> path \<Rightarrow> manifest_file \<Rightarrow> ('s, unit) io" where
  "restore_file env d output_dir f =
     io_bind (io_lift (decode_content env f)) (\<lambda>content.
       fs_io d (write_file_join (d_os d) output_dir (mf_path f) content))"

text \<open>\<open>output\_dir.join("data").join(db).join(table)...\<close>.\<close>

definition part_components :: "bool \<Rightarrow> manifest_part \<Rightarrow> component list" where
  "part_components attach_mode p =
     components ''data'' @ components (mp_database p) @ components (mp_table_name p)
     @ (if attach_mode then components ''detached'' else []) @ components (mp_part_name p)"

definition get_object_stream ::
  "'s env \<Rightarrow> 's host \<Rightarrow> 's disk \<Rightarrow> storage \<Rightarrow> string \<Rightarrow> ('s, reader) io"
where
  "get_object_stream env h d st key =
     (let prefixed = prefixed_key st key in
      io_bind (send env (ReqGet prefixed) (s3_get env prefixed)) (\<lambda>body.
        io_return (case body of Some b \<Rightarrow> (h_chunks h b, False) | None \<Rightarrow> (d_partial d key, True))))"

definition restore_part ::
  "'s env \<Rightarrow> 's host \<Rightarrow> 's disk \<Rightarrow> storage \<Rightarrow> path \<Rightarrow> bool \<Rightarrow> manifest_part
     \<Rightarrow> ('s, string \<times> string \<times> string) io"
where
  "restore_part env h d st output_dir attach_mode p =
     (let dest_dir = foldl step_path output_dir (part_components attach_mode p) in
      io_bind (fs_io d (create_dirs_along (d_os d) output_dir (part_components attach_mode p))) (\<lambda>_.
      io_bind (get_object_stream env h d st (blob_remote_key (mp_blob_hash p))) (\<lambda>reader.
      io_bind (fs_io d (extract_zip (d_os d) (crc32 env) reader dest_dir)) (\<lambda>_.
      io_return (mp_database p, mp_table_name p, mp_part_name p)))))"

text \<open>All downloads, then all attachments, run to their end before the first error is reported.\<close>

definition attempt_all :: "('a \<Rightarrow> ('s, 'b) io) \<Rightarrow> 'a list \<Rightarrow> ('s, 'b list) io" where
  "attempt_all f xs =
     io_bind (io_map (\<lambda>x. attempt (f x)) xs) (\<lambda>results. io_lift (map_r (\<lambda>r. r) results))"

definition check_identity :: "(string \<Rightarrow> error) \<Rightarrow> string option \<Rightarrow> string \<Rightarrow> unit result" where
  "check_identity err expected actual =
     (case expected of
        Some x \<Rightarrow> if actual \<noteq> x then Inl (err x) else Inr ()
      | None \<Rightarrow> Inr ())"

record restore_options =
  ro_table_filter :: "(string \<times> string) option"
  ro_expected_shard :: "string option"
  ro_expected_replica :: "string option"
  ro_exclude_tables :: "(string \<times> string) set option"
  ro_attach_cfg :: "config option"

definition attach_parts ::
  "'s host \<Rightarrow> config option \<Rightarrow> (string \<times> string \<times> string) list \<Rightarrow> ('s, unit) io"
where
  "attach_parts h attach_cfg restored_parts =
     (case attach_cfg of
        None \<Rightarrow> io_return ()
      | Some cfg \<Rightarrow>
          io_bind (attempt_all (\<lambda>(db, table, part_name). attach_part h cfg db table part_name)
              restored_parts) (\<lambda>_. io_return ()))"

definition restore_items ::
  "'s env \<Rightarrow> 's host \<Rightarrow> 's disk \<Rightarrow> storage \<Rightarrow> path \<Rightarrow> config option \<Rightarrow> filtered_items \<Rightarrow> ('s, unit) io"
where
  "restore_items env h d st output_dir attach_cfg items =
     io_bind (fs_io d (create_dir_all (d_os d) output_dir)) (\<lambda>_.
     io_bind (io_for (fi_files items) (restore_file env d output_dir)) (\<lambda>_.
     if fi_parts items = [] then io_return ()
     else
       io_bind (attempt_all (restore_part env h d st output_dir (attach_cfg \<noteq> None)) (fi_parts items))
         (attach_parts h attach_cfg)))"

definition restore_snapshot ::
  "'s env \<Rightarrow> 's host \<Rightarrow> manifest_codec \<Rightarrow> 's disk \<Rightarrow> storage \<Rightarrow> string \<Rightarrow> path
     \<Rightarrow> restore_options \<Rightarrow> ('s, unit) io"
where
  "restore_snapshot env h cd d st snapshot_name output_dir opts =
     io_bind (read_manifest env cd st snapshot_name) (\<lambda>m.
     io_bind (io_lift (check_identity ShardMismatch (ro_expected_shard opts) (m_shard m))) (\<lambda>_.
     io_bind (io_lift (check_identity ReplicaMismatch (ro_expected_replica opts) (m_replica m))) (\<lambda>_.
     io_bind (io_lift (filter_restore_items (m_parts m) (m_files m) (ro_table_filter opts)
                (ro_exclude_tables opts))) (\<lambda>items.
     restore_items env h d st output_dir (ro_attach_cfg opts) items))))"

end
