(* ===== verification/Restore_Props.thy ===== *)
theory Restore_Props
  imports Restore Part_Zip_Props Storage_Props
begin

text \<open>
  What a restore selects, and where it writes: when the names in a manifest have no \<open>..\<close> and are
  not absolute it stays in the output directory; the names are not checked, and a manifest can make
  it write elsewhere.
\<close>

section \<open>Selection\<close>








text \<open>The file that holds the definition of a table, and of a database.\<close>

definition table_file :: "string \<Rightarrow> string \<Rightarrow> string" where
  "table_file db tbl = ''metadata/'' @ db @ ''/'' @ tbl @ ''.sql''"

definition database_file :: "string \<Rightarrow> string" where
  "database_file db = ''metadata/'' @ db @ ''.sql''"



definition selected :: "(string \<times> string) option \<Rightarrow> manifest_part \<Rightarrow> bool" where
  "selected tf p \<longleftrightarrow> tf = None \<or> tf = Some (part_table p)"

lemma select_table_cases:
  "select_table tf parts files =
     (if (\<exists>db tbl. tf = Some (db, tbl)) \<and> filter (selected tf) parts = []
      then Inl (NoPartsForTable (fst (the tf)) (snd (the tf)))
      else Inr (filter (selected tf) parts,
        filter (\<lambda>f. case tf of None \<Rightarrow> True
           | Some (db, tbl) \<Rightarrow> mf_path f = database_file db \<or> mf_path f = table_file db tbl) files))"
proof (cases tf)
  case (Some t)
  obtain db tbl where t: "t = (db, tbl)" by fastforce
  have "selected tf = (\<lambda>p. mp_database p = db \<and> mp_table_name p = tbl)"
    by (auto simp: selected_def part_table_def Some t fun_eq_iff)
  then show ?thesis
    by (simp add: select_table_def Some t Let_def database_file_def table_file_def)
qed (simp add: select_table_def selected_def)




section \<open>Where a restore writes\<close>

definition no_escape :: "component list \<Rightarrow> bool" where
  "no_escape cs \<longleftrightarrow> ParentDir \<notin> set cs \<and> RootDir \<notin> set cs"

lemma steps_under: "no_escape cs \<Longrightarrow> prefix d p \<Longrightarrow> prefix d (foldl step_path p cs)"
proof (induction cs arbitrary: p)
  case (Cons c cs)
  then have "prefix d (step_path p c)" by (intro step_path_prefix) (auto simp: no_escape_def)
  with Cons show ?case by (simp add: no_escape_def)
qed simp

lemma stays_in_dirs_along:
  "no_escape cs \<Longrightarrow> prefix d p \<Longrightarrow> stays_in d (create_dirs_along os p cs)"
proof (induction os p cs rule: create_dirs_along.induct)
  case (2 os p s cs)
  have "stays_in d (create_dirs_along os (p @ [s]) cs)"
    using 2 by (intro "2.IH") (auto simp: no_escape_def prefix_def)
  moreover have "stays_in d (mkdir_one os (p @ [s]))"
    using "2.prems" by (intro stays_in_mkdir_one) (auto simp: prefix_def)
  ultimately show ?case by (auto intro!: stays_intros)
qed (auto simp: no_escape_def stays_in_return)

lemma stays_in_create_write:
  assumes "prefix d p"
  shows "stays_in d (fs_bind (file_create os p) (\<lambda>_. file_append os p [] content))"
proof (cases "p = d")
  case True
  show ?thesis
  proof (rule stays_inI)
    fix s s' r
    assume c: "dir_chain d s"
      and r: "fs_bind (file_create os p) (\<lambda>_. file_append os p [] content) s = (s', r)"
    from c True have "file_create os p s = (s, Inl (IsADirectory p))"
      by (simp add: file_create_def dir_chain_def)
    with r c show "dir_chain d s' \<and> (\<forall>q. \<not> prefix d q \<longrightarrow> s' q = s q)"
      by (simp add: fs_bind_def)
  qed
next
  case False
  with assms have "strict_prefix d p" by (simp add: strict_prefix_def)
  then show ?thesis
    by (intro stays_intros stays_in_file_create stays_in_file_append assms)
qed

lemma butlast_no_escape: "no_escape cs \<Longrightarrow> no_escape (butlast cs)"
  by (auto simp: no_escape_def dest: in_set_butlastD)

lemma stays_in_write_file:
  assumes "no_escape (components rel)"
  shows "stays_in d (write_file_join os d rel content)"
proof -
  have "stays_in d (create_dirs_along os d (butlast (components rel)))"
    by (intro stays_in_dirs_along butlast_no_escape assms prefix_order.refl)
  moreover have "stays_in d (fs_bind (file_create os (foldl step_path d (components rel)))
      (\<lambda>_. file_append os (foldl step_path d (components rel)) [] content))"
    by (intro stays_in_create_write steps_under assms prefix_order.refl)
  ultimately show ?thesis
    unfolding write_file_join_def Let_def by (auto intro!: stays_intros)
qed

lemma stays_in_extract_zip:
  assumes "prefix d p"
  shows "stays_in d (extract_zip os crc r p)"
proof (rule stays_inI)
  fix s s' res assume c: "dir_chain d s" and run: "extract_zip os crc r p s = (s', res)"
  obtain t a where mk: "create_dir_all os p s = (t, a)" by fastforce
  from stays_inD [OF stays_in_create_dir_all [OF assms] c mk]
  have t: "dir_chain d t" "\<And>q. \<not> prefix d q \<Longrightarrow> t q = s q" by auto
  show "dir_chain d s' \<and> (\<forall>q. \<not> prefix d q \<longrightarrow> s' q = s q)"
  proof (cases a)
    case (Inl e)
    with run mk t show ?thesis by (simp add: extract_zip_def fs_bind_def)
  next
    case (Inr u)
    with mk run have l: "extract_loop os crc p r t = (s', res)"
      by (simp add: extract_zip_def fs_bind_def)
    have chain: "dir_chain p t" using create_dir_all_chain mk Inr by simp
    note inner = stays_inD [OF stays_in_extract_loop chain l]
    have "s' q = t q" if "\<not> prefix d q" for q
      using inner(2) [of q] that assms by (meson prefix_order.trans)
    moreover have "dir_chain d s'"
      using inner(1) assms by (meson dir_chain_def prefix_order.trans)
    ultimately show ?thesis using t by simp
  qed
qed

section \<open>Confinement of a restore\<close>

text \<open>
  The disk is what was written to it, and calls to the bucket and to ClickHouse do not change it.
\<close>

definition private_disk :: "'s env \<Rightarrow> 's host \<Rightarrow> 's disk \<Rightarrow> bool" where
  "private_disk env h d \<longleftrightarrow>
     (\<forall>f s. d_get d (d_put d f s) = f) \<and>
     (\<forall>k s. d_get d (snd (s3_get env k s)) = d_get d s) \<and>
     (\<forall>b s. d_get d (snd (h_which h b s)) = d_get d s) \<and>
     (\<forall>b a s. d_get d (snd (h_command h b a s)) = d_get d s) \<and>
     (\<forall>u n p q s. d_get d (snd (h_http_post h u n p q s)) = d_get d s)"

text \<open>What may have happened to a path outside the output directory.\<close>

definition only_ancestors :: "path \<Rightarrow> fs \<Rightarrow> fs \<Rightarrow> bool" where
  "only_ancestors out s0 s \<longleftrightarrow>
     (\<forall>p. \<not> prefix out p \<longrightarrow>
        s p = s0 p \<or> strict_prefix p out \<and> s0 p = None \<and> s p = Some FDir)"

definition confined :: "path \<Rightarrow> fs \<Rightarrow> fs \<Rightarrow> bool" where
  "confined out s0 s \<longleftrightarrow> dir_chain out s \<and> only_ancestors out s0 s"

lemma confined_stays:
  assumes "stays_in out m" and "private_disk env h d"
  shows "keeps (\<lambda>s. confined out s0 (d_get d s)) (fs_io d m)"
proof (rule keepsI)
  fix w r w' assume c: "confined out s0 (d_get d (svc w))" and run: "fs_io d m w = (r, w')"
  obtain s a where m: "m (d_get d (svc w)) = (s, a)" by fastforce
  from c have "dir_chain out (d_get d (svc w))" by (simp add: confined_def)
  note st = stays_inD [OF assms(1) this m]
  have "d_get d (svc w') = s"
    using run m assms(2) by (auto simp: fs_io_def private_disk_def)
  with st c show "confined out s0 (d_get d (svc w'))"
    by (auto simp: confined_def only_ancestors_def)
qed

lemma keeps_get_object_disk:
  "private_disk env h d \<Longrightarrow> keeps (\<lambda>s. P (d_get d s)) (get_object env st k)"
  unfolding get_object_def send_def Let_def
  by (auto intro!: keeps_intros simp: private_disk_def split: sum.split option.split)

lemma keeps_get_stream_disk:
  "private_disk env h d \<Longrightarrow> keeps (\<lambda>s. P (d_get d s)) (get_object_stream env h d st k)"
  unfolding get_object_stream_def send_def Let_def
  by (auto intro!: keeps_intros simp: private_disk_def split: sum.split option.split)

lemma keeps_read_manifest_disk:
  "private_disk env h d \<Longrightarrow> keeps (\<lambda>s. P (d_get d s)) (read_manifest env cd st n)"
  unfolding read_manifest_def by (intro keeps_intros keeps_get_object_disk)

lemma keeps_run_query_disk:
  "private_disk env h d \<Longrightarrow> keeps (\<lambda>s. P (d_get d s)) (run_query h cfg sql)"
  unfolding run_query_def run_sql_via_clickhouse_local_def find_clickhouse_local_bin_def
  by (auto intro!: keeps_intros simp: private_disk_def split: option.split prod.split)

lemma keeps_attach_disk:
  "private_disk env h d \<Longrightarrow> keeps (\<lambda>s. P (d_get d s)) (attach_part h cfg db t p)"
  unfolding attach_part_def by (intro keeps_intros keeps_run_query_disk)

lemma keeps_attempt_all:
  "(\<And>x. x \<in> set xs \<Longrightarrow> keeps I (f x)) \<Longrightarrow> keeps I (attempt_all f xs)"
  unfolding attempt_all_def by (intro keeps_intros) auto

text \<open>The names of a manifest stay below the directory they are joined to.\<close>

definition safe_part :: "manifest_part \<Rightarrow> bool" where
  "safe_part p \<longleftrightarrow> no_escape (components (mp_database p)) \<and>
     no_escape (components (mp_table_name p)) \<and> no_escape (components (mp_part_name p))"

definition safe_manifest :: "manifest \<Rightarrow> bool" where
  "safe_manifest m \<longleftrightarrow> (\<forall>p \<in> set (m_parts m). safe_part p) \<and>
     (\<forall>f \<in> set (m_files m). no_escape (components (mf_path f)))"

lemma safe_part_components: "safe_part p \<Longrightarrow> no_escape (part_components b p)"
proof -
  have "no_escape (components ''data'')" "no_escape (components ''detached'')"
    by (simp_all add: no_escape_def components_def inner_components_def)
  then show "safe_part p \<Longrightarrow> no_escape (part_components b p)"
    by (auto simp: safe_part_def part_components_def no_escape_def)
qed

lemma confined_restore_part:
  assumes "private_disk env h d" and "safe_part p"
  shows "keeps (\<lambda>s. confined out s0 (d_get d s)) (restore_part env h d st out att p)"
  unfolding restore_part_def Let_def
  by (intro keeps_intros confined_stays [OF _ assms(1)] stays_in_dirs_along stays_in_extract_zip
      steps_under safe_part_components assms(2) prefix_order.refl keeps_get_stream_disk assms(1))

lemma confined_restore_file:
  assumes "private_disk env h d" and "no_escape (components (mf_path f))"
  shows "keeps (\<lambda>s. confined out s0 (d_get d s)) (restore_file env d out f)"
  unfolding restore_file_def
  by (intro keeps_intros confined_stays [OF _ assms(1)] stays_in_write_file assms(2))

lemma create_output_confined:
  assumes "private_disk env h d"
  shows "triple (\<lambda>s. only_ancestors out s0 (d_get d s)) (\<lambda>s. d_get d s = s0)
     (fs_io d (create_dir_all os out)) (\<lambda>_ s. confined out s0 (d_get d s))"
proof (rule tripleI)
  fix w r w' assume s0: "d_get d (svc w) = s0" and run: "fs_io d (create_dir_all os out) w = (r, w')"
  obtain s a where mk: "create_dir_all os out s0 = (s, a)" by fastforce
  have get: "d_get d (svc w') = s" and r: "r = (case a of Inl e \<Rightarrow> Err e | Inr x \<Rightarrow> Ok x)"
    using run mk s0 assms by (auto simp: fs_io_def private_disk_def)
  have anc: "only_ancestors out s0 s"
    using create_dir_all_changes [OF mk] by (auto simp: only_ancestors_def strict_prefix_def)
  show "case r of Ok x \<Rightarrow> confined out s0 (d_get d (svc w')) | _ \<Rightarrow> only_ancestors out s0 (d_get d (svc w'))"
  proof (cases a)
    case (Inr u)
    with mk have "dir_chain out s" using create_dir_all_chain by simp
    with anc Inr show ?thesis by (simp add: r get confined_def)
  qed (simp add: r get anc)
qed

lemma filtered_subset:
  assumes "filter_restore_items parts files tf ex = Inr items"
  shows "set (fi_parts items) \<subseteq> set parts" and "set (fi_files items) \<subseteq> set files"
  using assms
  by (auto simp: filter_restore_items_def select_table_cases bind_r_Inr_iff
      split: if_splits option.splits)

definition safe_items :: "filtered_items \<Rightarrow> bool" where
  "safe_items items \<longleftrightarrow> (\<forall>p \<in> set (fi_parts items). safe_part p) \<and>
     (\<forall>f \<in> set (fi_files items). no_escape (components (mf_path f)))"

lemma safe_filtered:
  "safe_manifest m \<Longrightarrow> filter_restore_items (m_parts m) (m_files m) tf ex = Inr items \<Longrightarrow>
     safe_items items"
  using filtered_subset [of "m_parts m" "m_files m" tf ex items]
  by (auto simp: safe_items_def safe_manifest_def)

lemma confinedD: "confined out s0 s \<Longrightarrow> only_ancestors out s0 s"
  by (simp add: confined_def)

lemma restore_items_triple:
  assumes disk: "private_disk env h d" and safe: "safe_items items"
  shows "triple (\<lambda>s. only_ancestors out s0 (d_get d s)) (\<lambda>s. d_get d s = s0)
    (restore_items env h d st out cfg items) (\<lambda>_ s. only_ancestors out s0 (d_get d s))"
proof -
  let ?C = "\<lambda>s. confined out s0 (d_get d s)"
  have files: "keeps ?C (io_for (fi_files items) (restore_file env d out))"
    by (rule keeps_for, rule confined_restore_file [OF disk]) (use safe safe_items_def in blast)
  have parts: "keeps ?C (attempt_all (restore_part env h d st out att) (fi_parts items))" for att
    by (rule keeps_attempt_all, rule confined_restore_part [OF disk]) (use safe safe_items_def in blast)
  have attach: "keeps ?C (attach_parts h cfg rs)" for rs
    unfolding attach_parts_def
    by (auto intro!: keeps_intros keeps_attempt_all keeps_attach_disk [OF disk, where P = "confined out s0"]
        split: option.split prod.split)
  have rest: "keeps ?C (io_bind (io_for (fi_files items) (restore_file env d out)) (\<lambda>_.
      if fi_parts items = [] then io_return ()
      else io_bind (attempt_all (restore_part env h d st out (cfg \<noteq> None)) (fi_parts items))
             (attach_parts h cfg)))"
    by (intro keeps_intros files parts attach)
  show ?thesis
    unfolding restore_items_def
    by (rule triple_bind [OF create_output_confined [OF disk]],
        rule triple_conseq [OF triple_keeps [OF rest confinedD]]) (auto dest: confinedD)
qed

lemma restore_triple:
  assumes disk: "private_disk env h d"
    and safe: "\<And>b m. dec_manifest cd b = Some m \<Longrightarrow> safe_manifest m"
  shows "triple (\<lambda>s. only_ancestors out s0 (d_get d s)) (\<lambda>s. d_get d s = s0)
    (restore_snapshot env h cd d st name out opts) (\<lambda>_ s. only_ancestors out s0 (d_get d s))"
proof -
  let ?F = "\<lambda>s. only_ancestors out s0 (d_get d s)" and ?P = "\<lambda>s. d_get d s = s0"
  have pf: "?P s \<Longrightarrow> ?F s" for s by (simp add: only_ancestors_def)
  have read: "triple ?F ?P (read_manifest env cd st name) (\<lambda>m s. ?P s \<and> safe_manifest m)"
  proof (rule tripleI)
    fix w r w' assume p: "?P (svc w)" and run: "read_manifest env cd st name w = (r, w')"
    have "keeps ?P (read_manifest env cd st name)"
      by (rule keeps_read_manifest_disk [OF disk, where P = "\<lambda>f. f = s0"])
    from keepsD [where I = ?P, OF this p run] have k: "?P (svc w')" .
    have "safe_manifest m" if "r = Ok m" for m
      using run that safe unfolding safe_manifest_def
      by (fastforce simp: read_manifest_def decode_def io_lift_def io_return_def
          elim!: io_bind_OkE split: option.splits)
    with k pf show "case r of Ok m \<Rightarrow> ?P (svc w') \<and> safe_manifest m | _ \<Rightarrow> ?F (svc w')"
      by (simp split: outcome.split)
  qed
  have check: "triple ?F ?P (io_lift x) (\<lambda>_. ?P)" for x :: "unit result"
    by (rule triple_keeps [OF keeps_pure(5) pf])
  have filtered: "triple ?F ?P (io_lift (filter_restore_items (m_parts m) (m_files m) tf ex))
      (\<lambda>items s. ?P s \<and> safe_items items)" if "safe_manifest m" for m tf ex
    by (rule triple_lift) (use pf safe_filtered [OF that] in auto)
  show ?thesis
    unfolding restore_snapshot_def
    by (rule triple_bind [OF read], rule triple_pure, rule triple_bind [OF check],
        rule triple_bind [OF check], rule triple_bind [OF filtered], assumption, rule triple_pure,
        rule restore_items_triple [OF disk])
qed

text \<open>
  C9. A restore whose manifest has only names without \<open>..\<close> and not absolute stays in its output
  directory: on a disk that nothing else writes to, whatever the bucket and ClickHouse answer,
  however the restore ends and whatever the archives contain, a path that is not below the output
  directory keeps its node, except that missing ancestors of the directory are created.
\<close>

theorem restore_confined:
  assumes "private_disk env h d"
    and "\<And>b m. dec_manifest cd b = Some m \<Longrightarrow> safe_manifest m"
    and "restore_snapshot env h cd d st name out opts w = (r, w')" and "\<not> prefix out p"
  shows "d_get d (svc w') p = d_get d (svc w) p \<or>
    strict_prefix p out \<and> d_get d (svc w) p = None \<and> d_get d (svc w') p = Some FDir"
proof -
  have "only_ancestors out (d_get d (svc w)) (d_get d (svc w'))"
    by (rule triple_final [where P = "\<lambda>s. d_get d s = d_get d (svc w)",
          OF restore_triple [OF assms(1,2)] refl assms(3)])
  with assms(4) show ?thesis by (simp add: only_ancestors_def)
qed

text \<open>A bucket that holds one manifest, with one metadata file, and a disk that is the service state.\<close>

definition one_file :: "string \<Rightarrow> manifest" where
  "one_file file = \<lparr>m_name = ''s'', m_timestamp = 0, m_shard = ''1'', m_replica = ''1'',
     m_created_by = ''h'', m_parts = [], m_files = [\<lparr>mf_path = file, mf_content_b64 = ''Bw==''\<rparr>]\<rparr>"

definition file_codec :: "string \<Rightarrow> manifest_codec" where
  "file_codec file = \<lparr>enc_manifest = \<lambda>m. None, dec_manifest = \<lambda>b. Some (one_file file),
     fmt_timestamp = \<lambda>t. [], utc_day = \<lambda>t. None, date_in_range = \<lambda>n. True\<rparr>"

definition file_env :: "fs env" where
  "file_env = null_env\<lparr>s3_get := \<lambda>k s. (Inr (Some [1]), s), b64_decode := \<lambda>s. Some [7]\<rparr>"

definition plain_disk :: "fs disk" where
  "plain_disk = \<lparr>d_get = \<lambda>s. s, d_put = \<lambda>f s. f,
     d_os = \<lparr>refuse_create = \<lambda>p. False, refuse_write = \<lambda>p n. False\<rparr>, d_partial = \<lambda>k. []\<rparr>"

definition whole_restore :: restore_options where
  "whole_restore = \<lparr>ro_table_filter = None, ro_expected_shard = None, ro_expected_replica = None,
     ro_exclude_tables = None, ro_attach_cfg = None\<rparr>"

definition fs_world :: "fs world" where
  "fs_world = \<lparr>svc = [[] \<mapsto> FDir], progress = new_progress, guarded = False, trace = []\<rparr>"

abbreviation demo_restore :: "string \<Rightarrow> (fs, unit) io" where
  "demo_restore file \<equiv> restore_snapshot file_env null_host (file_codec file) plain_disk plain_storage
     ''s'' [''out''] whole_restore"

lemma demo_disk_private: "private_disk file_env null_host plain_disk"
  by (simp add: private_disk_def file_env_def null_host_def plain_disk_def null_env_def)

lemmas run_restore = Let_def
  restore_snapshot_def restore_items_def read_manifest_def get_object_def send_def await_def
  io_bind_def io_return_def io_lift_def decode_def check_identity_def filter_restore_items_def
  select_table_def restore_file_def decode_content_def fs_io_def create_dir_all_def mkdir_one_def
  write_file_join_def fs_bind_def fs_return_def fs_lift_def file_create_def file_append_def
  file_codec_def one_file_def file_env_def null_env_def plain_disk_def whole_restore_def fs_world_def

theorem restore_confined_witness:
  "\<exists>w'. demo_restore ''metadata/d.sql'' fs_world = (Ok (), w') \<and> svc w' [''metadata''] = None"
proof -
  have comps: "components ''metadata/d.sql'' = [Normal ''metadata'', Normal ''d.sql'']"
    by (simp add: components_def inner_components_def)
  then have safe: "safe_manifest (one_file ''metadata/d.sql'')"
    by (simp add: safe_manifest_def one_file_def no_escape_def)
  have "\<exists>w'. demo_restore ''metadata/d.sql'' fs_world = (Ok (), w')"
    by (simp add: run_restore comps dot_tail_def)
  then obtain w' where run: "demo_restore ''metadata/d.sql'' fs_world = (Ok (), w')" by blast
  have "d_get plain_disk (svc w') [''metadata''] = d_get plain_disk (svc fs_world) [''metadata''] \<or>
    strict_prefix [''metadata''] [''out''] \<and> d_get plain_disk (svc fs_world) [''metadata''] = None \<and>
      d_get plain_disk (svc w') [''metadata''] = Some FDir"
    by (rule restore_confined [OF demo_disk_private _ run])
       (use safe in \<open>simp_all add: file_codec_def\<close>)
  with run show ?thesis by (simp add: plain_disk_def fs_world_def)
qed


end
