(* ===== verification/Commands.thy ===== *)
theory Commands
  imports Snapshots Restore Gc
begin

text \<open>
  The commands of \<open>src/main.rs\<close>: the parsed command line, its defaults, and the dispatch of a
  command with the checks that come before its work. What a command prints is part of the state
  (\<open>si\_print\<close>); the name of a directory is resolved to a path of the disk by \<open>si\_resolve\<close>.
\<close>

section \<open>The command line\<close>

definition DEFAULT_MULTIPART_PART_CONCURRENCY :: nat where "DEFAULT_MULTIPART_PART_CONCURRENCY = 16"

text \<open>The arguments when neither an option nor an environment variable is given.\<close>

definition default_args :: args where
  "default_args =
     \<lparr>a_ch_url = ''http://localhost:8123'', a_ch_user = ''default'', a_ch_password = [],
      a_use_clickhouse_local = False, a_ch_config_path = None,
      a_ch_data_path = ''/var/lib/clickhouse'', a_backup_dir = ''./backup'',
      a_ignore = ''^system'' @ [CHR 0x5C] @ ''.'', a_only = None,
      a_s3_bucket = None, a_s3_region = None, a_s3_endpoint = None, a_s3_access_key_id = None,
      a_s3_secret_access_key = None, a_s3_prefix = None,
      a_multipart_part_concurrency = DEFAULT_MULTIPART_PART_CONCURRENCY, a_part_concurrency = 8,
      a_delete_concurrency = 32, a_upload_min_chunk_size = None, a_upload_max_chunk_size = None,
      a_upload_target_parts = DEFAULT_TARGET_PARTS, a_shard = None, a_replica = None\<rparr>"

record restore_call =
  rc_name :: string
  rc_to :: string
  rc_table :: "string option"
  rc_force :: bool
  rc_download_concurrency :: nat
  rc_shard :: "string option"
  rc_replica :: "string option"
  rc_skip_existing :: bool
  rc_attach :: bool

text \<open>Name; restore; name and dry run; dry run, shards at a time, grace in hours; shard and replica;
  durations, dry run, and the time to take for now.\<close>

datatype command =
    CreateSnapshot string
  | Restore restore_call
  | RmSnapshot string bool
  | GcAll bool nat u64
  | ListSnapshots "string option" "string option"
  | GenerateEnv
  | GcLive string "string option" bool "i64 option"

record 's site =
  si_env :: "'s env"
  si_host :: "'s host"
  si_disk :: "'s disk"
  si_gc :: gc_params
  si_print :: "string \<Rightarrow> 's \<Rightarrow> 's"
  si_resolve :: "string \<Rightarrow> path"
  si_format_time :: "i64 \<Rightarrow> string option"

definition println :: "'s site \<Rightarrow> string \<Rightarrow> ('s, unit) io" where
  "println s line = host_call (\<lambda>x. ((), si_print s (line @ nl) x))"

section \<open>\<open>generate-env\<close>\<close>

definition rule_line :: "nat \<Rightarrow> string" where
  "rule_line n = concat (replicate n [CHR 0xE2, CHR 0x94, CHR 0x80])"

definition heading :: "string \<Rightarrow> nat \<Rightarrow> string" where
  "heading name n = ''# '' @ rule_line 2 @ '' '' @ name @ '' '' @ rule_line n"

definition example_env :: string where
  "example_env = concat (map (\<lambda>l. l @ nl)
     [''# chbk environment configuration'', ''#'', ''# Copy to .env.'',
      ''# Generate this file: chbk generate-env > .env'', ''#'', ''# Precedence (highest wins):'',
      ''#   CLI flag > environment variable > .env file > default'', [],
      heading ''ClickHouse'' 56, [],
      ''# CH_URL=http://localhost:8123'', ''# CH_USER=default'', ''# CH_PASSWORD='',
      ''# CH_DATA_PATH=/var/lib/clickhouse'', ''# CH_USE_LOCAL=false'',
      ''# CH_CONFIG_PATH=/path/to/config.xml'', ''# CH_SHARD=shard1'', ''# CH_REPLICA=replica1'', [],
      heading ''S3 Storage'' 56, [],
      ''# S3_BUCKET=my-backup-bucket'', ''# S3_REGION=us-east-1'',
      ''# S3_ENDPOINT=http://minio:9000'', ''# S3_ACCESS_KEY_ID=AKIA...'',
      ''# S3_SECRET_ACCESS_KEY=...'', ''# S3_PREFIX=backups/'', [],
      heading ''Backup'' 60, [],
      ''# BACKUP_DIR=./backup'', ''# CHBK_IGNORE=^system'' @ [CHR 0x5C] @ ''.'',
      ''# CHBK_ONLY=^production'' @ [CHR 0x5C] @ ''.'', [],
      heading ''Tuning'' 60, [],
      ''# PART_CONCURRENCY=8'', ''# MULTIPART_PART_CONCURRENCY=16'', ''# DELETE_CONCURRENCY=32'',
      ''# UPLOAD_MIN_CHUNK_SIZE_MB=16'', ''# UPLOAD_MAX_CHUNK_SIZE_MB=512'',
      ''# UPLOAD_TARGET_PARTS=128''])"

definition generate_env :: "'s site \<Rightarrow> ('s, unit) io" where
  "generate_env s = host_call (\<lambda>x. ((), si_print s example_env x))"

section \<open>\<open>restore\<close>\<close>

text \<open>
  \<open>to.exists() \&\& to.read\_dir()?.next().is\_some() \&\& !force\<close>: the directory is read even
  when the answer does not matter.
\<close>

definition check_output_empty :: "'s site \<Rightarrow> string \<Rightarrow> bool \<Rightarrow> ('s, unit) io" where
  "check_output_empty s to force =
     io_bind (host_call (h_exists (si_host s) to)) (\<lambda>there.
     if \<not> there then io_return ()
     else
       io_bind (host_call (h_read_dir (si_host s) to)) (\<lambda>names.
       case names of
         None \<Rightarrow> io_fail (OpenFailed to)
       | Some names \<Rightarrow> if names \<noteq> [] \<and> \<not> force then io_fail OutputNotEmpty else io_return ()))"

definition tables_to_exclude ::
  "'s site \<Rightarrow> config \<Rightarrow> bool \<Rightarrow> ('s, (string \<times> string) set option) io"
where
  "tables_to_exclude s cfg skip_existing =
     (if skip_existing then
        io_bind (query_existing_tables (si_host s) cfg) (\<lambda>existing.
        io_bind (println s (''Found '' @ show_nat (card existing)
            @ '' existing tables in target ClickHouse'')) (\<lambda>_.
        io_return (Some existing)))
      else io_return None)"

definition restore_command :: "'s site \<Rightarrow> config \<Rightarrow> restore_call \<Rightarrow> ('s, unit) io" where
  "restore_command s cfg c =
     io_bind (io_lift (parse_table_filter (rc_table c))) (\<lambda>table_filter.
     io_bind (check_output_empty s (rc_to c) (rc_force c)) (\<lambda>_.
     io_bind (tables_to_exclude s cfg (rc_skip_existing c)) (\<lambda>exclude_tables.
     io_bind (io_lift (init_storage cfg)) (\<lambda>(st, counters).
     io_bind (restore_snapshot (si_env s) (si_host s) (gp_codec (si_gc s)) (si_disk s) st (rc_name c)
         (si_resolve s (rc_to c))
         \<lparr>ro_table_filter = table_filter, ro_expected_shard = rc_shard c,
          ro_expected_replica = rc_replica c, ro_exclude_tables = exclude_tables,
          ro_attach_cfg = (if rc_attach c then Some cfg else None)\<rparr>) (\<lambda>_.
     io_bind (println s (''Restored snapshot '' @ [apos] @ rc_name c @ [apos] @ '' to '' @ rc_to c)) (\<lambda>_.
     if table_filter \<noteq> None \<and> \<not> rc_attach c
     then println s (''Tip: query with: clickhouse-local --path '' @ rc_to c)
     else io_return ()))))))"

section \<open>\<open>list-snapshots\<close>\<close>

definition show_i64 :: "i64 \<Rightarrow> string" where
  "show_i64 n = (if sint n < 0 then ''-'' @ show_nat (nat (- sint n)) else show_nat (nat (sint n)))"

definition listed_snapshots ::
  "string option \<Rightarrow> string option \<Rightarrow> manifest list \<Rightarrow> manifest list"
where
  "listed_snapshots shard replica ms =
     sort_key (\<lambda>m. sint (m_timestamp m))
       (filter (\<lambda>m. case replica of None \<Rightarrow> True | Some r \<Rightarrow> m_replica m = r)
         (filter (\<lambda>m. case shard of None \<Rightarrow> True | Some x \<Rightarrow> m_shard m = x) ms))"

definition table_count :: "manifest \<Rightarrow> nat" where
  "table_count m = length (remdups (map part_table (m_parts m)))"

definition dash_if_empty :: "string \<Rightarrow> string" where
  "dash_if_empty x = (if x = [] then ''-'' else x)"

definition snapshot_line :: "'s site \<Rightarrow> manifest \<Rightarrow> string" where
  "snapshot_line s m =
     m_name m @ ''  ''
     @ (case si_format_time s (m_timestamp m) of
          Some t \<Rightarrow> t | None \<Rightarrow> show_i64 (m_timestamp m))
     @ ''  shard='' @ dash_if_empty (m_shard m) @ ''  replica='' @ dash_if_empty (m_replica m)
     @ ''  tables='' @ show_nat (table_count m)"

definition list_snapshots ::
  "'s site \<Rightarrow> config \<Rightarrow> string option \<Rightarrow> string option \<Rightarrow> ('s, unit) io"
where
  "list_snapshots s cfg shard replica =
     io_bind (io_lift (init_storage cfg)) (\<lambda>(st, counters).
     io_bind (read_all_manifests (si_env s) (gp_codec (si_gc s)) st (gp_download_order (si_gc s)))
       (\<lambda>manifests.
     io_for (listed_snapshots shard replica manifests) (\<lambda>m. println s (snapshot_line s m))))"

section \<open>The other commands\<close>

definition rm_snapshot :: "'s site \<Rightarrow> config \<Rightarrow> string \<Rightarrow> bool \<Rightarrow> ('s, unit) io" where
  "rm_snapshot s cfg name dry_run =
     io_bind (io_lift (init_storage cfg)) (\<lambda>(st, counters).
       gc_snapshot (si_env s) (si_gc s) st name dry_run)"

definition gc_all :: "'s site \<Rightarrow> config \<Rightarrow> bool \<Rightarrow> u64 \<Rightarrow> ('s, unit) io" where
  "gc_all s cfg dry_run grace_period_hours =
     io_bind (io_lift (init_storage cfg)) (\<lambda>(st, counters).
       gc_all_blobs (si_env s) (si_gc s) st dry_run grace_period_hours)"

text \<open>\<open>Option::transpose\<close> of a parsed option.\<close>

definition parse_retain_daily :: "string option \<Rightarrow> u64 option result" where
  "parse_retain_daily t =
     (case t of None \<Rightarrow> Inr None | Some x \<Rightarrow> bind_r (parse_duration_minutes x) (\<lambda>m. Inr (Some m)))"

definition gc_live ::
  "'s site \<Rightarrow> config \<Rightarrow> string \<Rightarrow> string option \<Rightarrow> bool \<Rightarrow> i64 option \<Rightarrow> ('s, unit) io"
where
  "gc_live s cfg retain_all retain_daily dry_run now =
     io_bind (io_lift (init_storage cfg)) (\<lambda>(st, counters).
     io_bind (io_lift (parse_duration_minutes retain_all)) (\<lambda>retain_all_minutes.
     io_bind (io_lift (parse_retain_daily retain_daily)) (\<lambda>retain_daily_minutes.
     io_bind (case now of
                Some t \<Rightarrow> io_return t
              | None \<Rightarrow> io_bind (clock (si_env s)) (\<lambda>ns. io_return (word_of_int (ns div 1000000000))))
       (\<lambda>now.
     prune_old_live_snapshots (si_env s) (si_gc s) st retain_all_minutes retain_daily_minutes now
       dry_run))))"

definition create_command :: "'s site \<Rightarrow> config \<Rightarrow> string option \<Rightarrow> ('s, unit) io" where
  "create_command s cfg name =
     io_bind (create_snapshot (si_env s) (si_host s) (gp_codec (si_gc s)) cfg name) (\<lambda>snapshot_name.
       println s (''Snapshot created: '' @ snapshot_name))"

text \<open>\<open>async\_main\<close>: no command is the creation of a snapshot with a generated name.\<close>

definition async_main :: "'s site \<Rightarrow> args \<Rightarrow> command option \<Rightarrow> ('s, unit) io" where
  "async_main s args command =
     (let cfg = from_args args in
      case command of
        Some GenerateEnv \<Rightarrow> generate_env s
      | Some (CreateSnapshot name) \<Rightarrow> create_command s cfg (Some name)
      | Some (Restore c) \<Rightarrow> restore_command s cfg c
      | Some (RmSnapshot name dry_run) \<Rightarrow> rm_snapshot s cfg name dry_run
      | Some (GcAll dry_run shard_concurrency grace_period_hours) \<Rightarrow>
          gc_all s cfg dry_run grace_period_hours
      | Some (GcLive retain_all retain_daily dry_run now) \<Rightarrow>
          gc_live s cfg retain_all retain_daily dry_run now
      | Some (ListSnapshots shard replica) \<Rightarrow> list_snapshots s cfg shard replica
      | None \<Rightarrow> create_command s cfg None)"

end
