(* ===== verification/Command_Props.thy ===== *)
theory Command_Props
  imports Commands Gc_Dangling Restore_Props
begin

text \<open>
  The commands as a whole: arguments are checked before anything is done, the commands that only
  look make no request that writes, a dry run writes nothing but the lock, the list of snapshots is
  that of the bucket, and a restore without \<open>--force\<close> overwrites no file.
\<close>

section \<open>Arguments\<close>








section \<open>Commands that only look\<close>

definition reads_only :: "request \<Rightarrow> bool" where
  "reads_only q \<longleftrightarrow> writes q = {}"

lemma reads_only_simps [simp]:
  "reads_only (ReqList p t)" "reads_only (ReqGet k)"
  by (simp_all add: reads_only_def)

lemma requests_fs_io [requests_intros]: "requests Q (fs_io d m)"
  by (simp add: requests_def fs_io_def split: prod.split sum.split)

lemma requests_case_pair [requests_intros]:
  "(\<And>a b. requests Q (f a b)) \<Longrightarrow> requests Q (case x of (a, b) \<Rightarrow> f a b)"
  by (cases x) simp

lemma requests_case_option [requests_intros]:
  "requests Q f \<Longrightarrow> (\<And>x. requests Q (g x)) \<Longrightarrow> requests Q (case v of None \<Rightarrow> f | Some x \<Rightarrow> g x)"
  by (cases v) simp_all

lemma requests_send: "Q q \<Longrightarrow> requests Q (send env q call)"
  unfolding send_def by (auto intro!: requests_intros split: sum.split)

lemma requests_run_query [requests_intros]: "requests Q (run_query h cfg sql)"
  unfolding run_query_def run_sql_via_clickhouse_local_def find_clickhouse_local_bin_def
  by (intro requests_intros | simp)+

lemma requests_println [requests_intros]: "requests Q (println s l)"
  unfolding println_def by (intro requests_intros)

lemma requests_attempt_all [requests_intros]:
  "(\<And>x. x \<in> set xs \<Longrightarrow> requests Q (f x)) \<Longrightarrow> requests Q (attempt_all f xs)"
  unfolding attempt_all_def by (intro requests_intros) auto

lemma requests_restore_part: "requests reads_only (restore_part env h d st out att p)"
  unfolding restore_part_def get_object_stream_def Let_def
  by (intro requests_intros requests_send) simp_all

lemma requests_restore: "requests reads_only (restore_snapshot env h cd d st name out opts)"
  unfolding restore_snapshot_def restore_items_def restore_file_def attach_parts_def attach_part_def
  by (intro requests_intros requests_read_manifest requests_restore_part reads_only_simps)

fun quiet_command :: "command \<Rightarrow> bool" where
  "quiet_command (RmSnapshot name dry_run) \<longleftrightarrow> dry_run"
| "quiet_command (GcAll dry_run shards grace) \<longleftrightarrow> dry_run"
| "quiet_command (GcLive retain_all retain_daily dry_run now) \<longleftrightarrow> dry_run"
| "quiet_command (CreateSnapshot name) \<longleftrightarrow> False"
| "quiet_command c \<longleftrightarrow> True"

fun locks :: "command \<Rightarrow> bool" where
  "locks (RmSnapshot name dry_run) \<longleftrightarrow> True"
| "locks (GcAll dry_run shards grace) \<longleftrightarrow> True"
| "locks (GcLive retain_all retain_daily dry_run now) \<longleftrightarrow> True"
| "locks c \<longleftrightarrow> False"

lemma requests_restore_command: "requests reads_only (restore_command s cfg c)"
  unfolding restore_command_def check_output_empty_def tables_to_exclude_def query_existing_tables_def
  by (intro requests_intros requests_restore)

lemma requests_list_snapshots: "requests reads_only (list_snapshots s cfg shard replica)"
  unfolding list_snapshots_def by (intro requests_intros requests_read_all reads_only_simps)

lemma requests_init_storage:
  assumes "\<And>st pr. init_storage cfg = Inr (st, pr) \<Longrightarrow> requests Q (f (st, pr))"
  shows "requests Q (io_bind (io_lift (init_storage cfg)) f)"
  by (rule requests_bind_post [OF requests_lift])
     (use assms in \<open>auto simp: io_lift_def split: sum.splits\<close>)

lemma requests_dry_run:
  assumes "init_storage cfg = Inr (st, pr)"
  shows "requests (harmless st) (rm_snapshot s cfg name True)"
    and "requests (harmless st) (gc_all s cfg True grace)"
    and "requests (harmless st) (gc_live s cfg retain_all retain_daily True now)"
proof -
  note d = dry_run_requests [THEN conjunct1] dry_run_requests [THEN conjunct2, THEN conjunct1]
    dry_run_requests [THEN conjunct2, THEN conjunct2]
  show "requests (harmless st) (rm_snapshot s cfg name True)"
    and "requests (harmless st) (gc_all s cfg True grace)"
    unfolding rm_snapshot_def gc_all_def by (rule requests_init_storage, simp add: assms d)+
  show "requests (harmless st) (gc_live s cfg retain_all retain_daily True now)"
    unfolding gc_live_def
    by (rule requests_init_storage) (auto simp: assms intro!: requests_intros d split: option.split)
qed

text \<open>
  C19. Restoring and listing only read the bucket, and a dry run writes no object but the lock, whatever
  the services answer and however the command ends.
\<close>

theorem quiet_commands_write_nothing:
  assumes "quiet_command c" and "init_storage (from_args a) = Inr (st, pr)"
  shows "requests (\<lambda>q. writes q \<subseteq> (if locks c then {lock_object st} else {})) (async_main s a (Some c))"
proof (cases "locks c")
  case True
  have "requests (harmless st) (async_main s a (Some c))"
    using assms(1) True requests_dry_run [OF assms(2)] by (cases c) (auto simp: async_main_def Let_def)
  with True show ?thesis by (simp add: harmless_def [abs_def])
next
  case False
  have "requests reads_only (async_main s a (Some c))"
    using assms(1) False requests_restore_command requests_list_snapshots
    by (cases c) (auto simp: async_main_def Let_def generate_env_def intro: requests_host_call)
  with False show ?thesis by (simp add: reads_only_def [abs_def])
qed

section \<open>The list of snapshots\<close>

text \<open>What a loop of printed lines does to the state.\<close>

lemma print_all:
  "io_for ms (\<lambda>m. println s (line m)) w =
     (Ok (), w\<lparr>svc := fold (\<lambda>m x. si_print s (line m @ nl) x) ms (svc w)\<rparr>)"
  by (induction ms arbitrary: w) (simp_all add: io_return_def io_bind_def println_def host_call_def)

text \<open>
  C20. The list of snapshots is complete and in order: it consists of one line for each manifest of the
  bucket, as decoded and named by its key, whose shard and replica are those asked for, printed in the
  order of their time stamps.
\<close>

theorem list_snapshots_lists:
  assumes "s3_bucket (si_env s) objs remaining"
    and "\<And>xs. mset (gp_download_order (si_gc s) xs) = mset xs"
    and "init_storage cfg = Inr (st, pr)"
    and "list_snapshots s cfg shard replica w = (Ok (), w')"
  shows "\<exists>ms x. objs x = objs (svc w) \<and> svc w' = fold (\<lambda>m. si_print s (snapshot_line s m @ nl)) ms x \<and>
     sorted_wrt (\<lambda>m m'. sint (m_timestamp m) \<le> sint (m_timestamp m')) ms \<and>
     set ms = {m \<in> bucket_manifests (si_gc s) st (objs (svc w)).
       (shard = None \<or> shard = Some (m_shard m)) \<and> (replica = None \<or> replica = Some (m_replica m))}"
proof -
  let ?read = "read_all_manifests (si_env s) (gp_codec (si_gc s)) st (gp_download_order (si_gc s))"
  obtain ms u where read: "?read w = (Ok ms, u)"
    and rest: "io_for (listed_snapshots shard replica ms) (\<lambda>m. println s (snapshot_line s m)) u = (Ok (), w')"
    using assms(3,4) by (auto simp: list_snapshots_def io_bind_Ok io_lift_def elim: io_bind_OkE)
  have ord: "set (gp_download_order (si_gc s) xs) = set xs" for xs
    using assms(2) by (metis set_mset_mset)
  have "objs (svc u) = objs (svc w)"
    by (rule keepsD [OF s3_bucket.read_all_keeps [OF assms(1)] _ read]) simp
  moreover have "svc w' = fold (\<lambda>m. si_print s (snapshot_line s m @ nl))
      (listed_snapshots shard replica ms) (svc u)"
    using rest by (auto simp: print_all)
  moreover have "sorted_wrt (\<lambda>m m'. sint (m_timestamp m) \<le> sint (m_timestamp m'))
      (listed_snapshots shard replica ms)"
    unfolding listed_snapshots_def by (rule sorted_map [THEN iffD1, OF sorted_sort_key])
  moreover have "set (listed_snapshots shard replica ms) =
      {m \<in> bucket_manifests (si_gc s) st (objs (svc w)).
        (shard = None \<or> shard = Some (m_shard m)) \<and> (replica = None \<or> replica = Some (m_replica m))}"
    unfolding s3_bucket.read_all_manifests_set [OF assms(1) read ord, symmetric]
    by (cases shard; cases replica) (auto simp: listed_snapshots_def)
  ultimately show ?thesis by blast
qed

section \<open>A restore without force\<close>











text \<open>
  Without \<open>--force\<close> a directory that is not empty is refused, also with \<open>--attach\<close>, where the
  directory is the data directory of a running server: nothing is requested and nothing printed.
\<close>

theorem restore_needs_force:
  assumes "h_exists (si_host s) (rc_to c) (svc w) = (True, x)"
    and "h_read_dir (si_host s) (rc_to c) x = (Some names, y)" and "names \<noteq> []"
    and "\<not> rc_force c" and "parse_table_filter (rc_table c) = Inr tf"
  shows "async_main s a (Some (Restore c)) w = (Err OutputNotEmpty, w\<lparr>svc := y\<rparr>)"
  using assms
  by (simp add: async_main_def Let_def restore_command_def check_output_empty_def io_bind_def
      io_lift_def host_call_def io_fail_def)

section \<open>Witnesses\<close>

text \<open>The arguments with a storage, and two machines: a disk and a bucket in memory.\<close>

definition demo_args :: args where
  "demo_args = default_args\<lparr>a_s3_bucket := Some ''b'', a_s3_region := Some ''r'',
     a_s3_access_key_id := Some ''k'', a_s3_secret_access_key := Some ''s''\<rparr>"

definition args_storage :: storage where
  "args_storage = new_storage None True DEFAULT_MIN_PART_SIZE DEFAULT_MAX_PART_SIZE
     DEFAULT_TARGET_PARTS DEFAULT_MULTIPART_PART_CONCURRENCY"

lemma demo_args_storage: "init_storage (from_args demo_args) = Inr (args_storage, new_progress)"
  by (simp add: init_storage_def from_args_def demo_args_def default_args_def args_storage_def
      required_def)

definition mem_site :: "mem site" where
  "mem_site = \<lparr>si_env = mem_env {}, si_host = null_host,
     si_disk = \<lparr>d_get = \<lambda>s p. None, d_put = \<lambda>f s. s, d_os = d_os plain_disk, d_partial = \<lambda>k. []\<rparr>,
     si_gc = demo_gp, si_print = \<lambda>t x. x, si_resolve = \<lambda>t. [''out''], si_format_time = \<lambda>t. None\<rparr>"

definition fs_site :: "fs site" where
  "fs_site = \<lparr>si_env = file_env, si_host = null_host, si_disk = plain_disk,
     si_gc = demo_gp\<lparr>gp_codec := file_codec ''metadata/d.sql''\<rparr>, si_print = \<lambda>t x. x,
     si_resolve = \<lambda>t. [''out''], si_format_time = \<lambda>t. None\<rparr>"

definition demo_restore_command :: restore_call where
  "demo_restore_command = \<lparr>rc_name = ''s'', rc_to = ''/out'', rc_table = None, rc_force = False,
     rc_download_concurrency = 32, rc_shard = None, rc_replica = None, rc_skip_existing = False,
     rc_attach = False\<rparr>"


theorem quiet_commands_write_nothing_witness:
  "requests (\<lambda>q. writes q \<subseteq> {}) (async_main mem_site demo_args (Some (ListSnapshots None None)))"
  using quiet_commands_write_nothing [of "ListSnapshots None None" demo_args args_storage new_progress mem_site]
    demo_args_storage by simp


theorem restore_needs_force_witness:
  "async_main (fs_site\<lparr>si_host := null_host\<lparr>h_exists := \<lambda>t x. (True, x),
        h_read_dir := \<lambda>t x. (Some [''metadata''], x)\<rparr>\<rparr>) demo_args
      (Some (Restore (demo_restore_command\<lparr>rc_attach := True\<rparr>))) fs_world
    = (Err OutputNotEmpty, fs_world)"
  by (subst restore_needs_force [where names = "[''metadata'']" and tf = None])
     (simp_all add: fs_site_def demo_restore_command_def parse_table_filter_def fs_world_def)

definition one_snapshot :: mem where
  "one_snapshot = \<lparr>mem_objs = [(''snapshots/live_1.json.zst'', [1], 0)], mem_now = 0, mem_parts = []\<rparr>"

lemma args_storage_prefix [simp]: "key_prefix args_storage = None"
  by (simp add: args_storage_def new_storage_def sanitize_s3_prefix_def Let_def)

lemma one_snapshot_key: "manifest_object args_storage ''live_1'' = ''snapshots/live_1.json.zst''"
  by (simp add: manifest_object_def prefixed_key_def manifest_key_def
      MANIFEST_PREFIX_def MANIFEST_SUFFIX_def)

lemma one_snapshot_names:
  "\<exists>w'. list_manifest_names (mem_env {}) args_storage (start_world one_snapshot) = (Ok [''live_1''], w') \<and>
     svc w' = one_snapshot"
proof -
  have pk: "prefixed_key args_storage MANIFEST_PREFIX = ''snapshots/''"
    by (simp add: prefixed_key_def MANIFEST_PREFIX_def)
  have m: "mem_matching one_snapshot ''snapshots/'' None = [(''snapshots/live_1.json.zst'', [1], 0)]"
    by (simp add: mem_matching_def one_snapshot_def starts_with_def)
  have rk: "relative_key args_storage ''snapshots/live_1.json.zst'' = manifest_key ''live_1''"
    by (simp add: relative_key_def manifest_key_def
        MANIFEST_PREFIX_def MANIFEST_SUFFIX_def)
  have mk: "manifest_name_from_key (manifest_key ''live_1'') = Some ''live_1''"
    by (simp add: manifest_name_from_key_def manifest_key_def MANIFEST_PREFIX_def MANIFEST_SUFFIX_def
        strip_suffix_def)
  show ?thesis
    by (simp add: list_manifest_names_def list_objects_def pk send_def await_def io_bind_def
        io_return_def clock_def numeral_2_eq_2 mem_list_def m Let_def page_entries_def
        map_filter_simps rk mk start_world_def)
qed

lemma one_snapshot_listed:
  "\<exists>w'. list_snapshots mem_site (from_args demo_args) None None (start_world one_snapshot) = (Ok (), w')"
proof -
  obtain u where u: "list_manifest_names (mem_env {}) args_storage (start_world one_snapshot) = (Ok [''live_1''], u)"
    "svc u = one_snapshot" using one_snapshot_names by blast
  have "mem_lookup (svc u) (prefixed_key args_storage (manifest_key ''live_1'')) = Some [1]"
    by (simp add: u(2) mem_lookup_def one_snapshot_def manifest_object_def [symmetric] one_snapshot_key)
  then have "\<exists>v. read_manifest (mem_env {}) (gp_codec demo_gp) args_storage ''live_1'' u = (Ok demo_manifest, v)"
    by (simp add: read_manifest_def get_object_def send_def await_def io_bind_def io_return_def Let_def
        io_lift_def decode_def demo_manifest_def)
  with u show ?thesis
    by (auto simp: list_snapshots_def mem_site_def demo_args_storage io_lift_def io_bind_Ok
        read_all_manifests_def io_return_def print_all)
qed

theorem list_snapshots_lists_witness:
  "\<exists>w' ms x. list_snapshots mem_site (from_args demo_args) None None (start_world one_snapshot) = (Ok (), w') \<and>
     set ms = bucket_manifests demo_gp args_storage (mem_lookup one_snapshot) \<and>
     svc w' = fold (\<lambda>m. si_print mem_site (snapshot_line mem_site m @ nl)) ms x"
proof -
  obtain w' where run: "list_snapshots mem_site (from_args demo_args) None None (start_world one_snapshot)
      = (Ok (), w')" using one_snapshot_listed by blast
  have bucket: "s3_bucket (si_env mem_site) mem_lookup mem_remaining"
    using mem.s3_bucket_axioms by (simp add: mem_site_def)
  have "si_gc mem_site = demo_gp" by (simp add: mem_site_def)
  with list_snapshots_lists [OF bucket _ demo_args_storage run] run show ?thesis
    by (simp add: start_world_def) blast
qed

end
