(* ===== verification/Tui_State.thy ===== *)
theory Tui_State
  imports Tui_Events "HOL-Library.Sorting_Algorithms" "HOL-Library.Product_Lexorder"
    "HOL-Library.List_Lexorder" "HOL-Library.Char_ord"
begin

text \<open>
  The state behind the progress display of \<open>src/tui.rs\<close>: one row per part, updated by the events of
  the backup; the filtered and sorted list, the totals and the summary per table that a frame shows.
  Indexing a vector out of its range panics, which is \<open>None\<close> here. An \<open>Instant\<close> is an integer.
\<close>

section \<open>Rows\<close>

datatype part_status =
  Skipped | Pending | HeadCheck | Staging | Staged | Uploading | HeadSkip | Done

text \<open>The discriminants; the derived order is theirs.\<close>

fun status_rank :: "part_status \<Rightarrow> nat" where
  "status_rank Skipped = 0"
| "status_rank Pending = 1"
| "status_rank HeadCheck = 2"
| "status_rank Staging = 3"
| "status_rank Staged = 4"
| "status_rank Uploading = 5"
| "status_rank HeadSkip = 6"
| "status_rank Done = 7"

instantiation part_status :: linorder
begin

definition less_eq_part_status :: "part_status \<Rightarrow> part_status \<Rightarrow> bool" where
  "less_eq_part_status a b \<longleftrightarrow> status_rank a \<le> status_rank b"

definition less_part_status :: "part_status \<Rightarrow> part_status \<Rightarrow> bool" where
  "less_part_status a b \<longleftrightarrow> status_rank a < status_rank b"

instance
proof
  fix a b :: part_status
  assume "a \<le> b" "b \<le> a"
  then have "status_rank a = status_rank b" by (simp add: less_eq_part_status_def)
  then show "a = b" by (cases a; cases b) simp_all
qed (auto simp: less_eq_part_status_def less_part_status_def)

end

fun status_label :: "part_status \<Rightarrow> string" where
  "status_label Skipped = ''skipped''"
| "status_label Pending = ''pending''"
| "status_label Staging = ''staging''"
| "status_label Staged = ''staged''"
| "status_label HeadCheck = ''checking''"
| "status_label Uploading = ''uploading''"
| "status_label HeadSkip = ''exists''"
| "status_label Done = ''done''"

record part_row =
  pr_database :: string
  pr_table :: string
  pr_part_name :: string
  pr_bytes_on_disk :: u64
  pr_rows_count :: u64
  pr_file_count :: "u32 option"
  pr_status :: part_status
  pr_progress_bytes :: u64
  pr_progress_total :: u64
  pr_is_new :: bool
  pr_zip_size :: u64
  pr_done_at :: "int option"

datatype sort_column = ByDatabase | ByTable | ByPartName | BySize | ByStatus

datatype status_filter = ShowAll | ShowNew | ShowSkip | ShowTodo | ShowDoing | ShowDone

fun next_filter :: "status_filter \<Rightarrow> status_filter" where
  "next_filter ShowAll = ShowNew"
| "next_filter ShowNew = ShowSkip"
| "next_filter ShowSkip = ShowTodo"
| "next_filter ShowTodo = ShowDoing"
| "next_filter ShowDoing = ShowDone"
| "next_filter ShowDone = ShowAll"

fun filter_matches :: "status_filter \<Rightarrow> part_row \<Rightarrow> bool" where
  "filter_matches ShowAll p = True"
| "filter_matches ShowNew p = pr_is_new p"
| "filter_matches ShowSkip p = (pr_status p = Skipped \<or> pr_status p = HeadSkip)"
| "filter_matches ShowTodo p = (pr_status p = Pending \<or> pr_status p = Staged)"
| "filter_matches ShowDoing p =
     (pr_status p = HeadCheck \<or> pr_status p = Staging \<or> pr_status p = Uploading)"
| "filter_matches ShowDone p = (pr_status p = Done)"

fun filter_label :: "status_filter \<Rightarrow> string" where
  "filter_label ShowAll = ''All''"
| "filter_label ShowNew = ''New''"
| "filter_label ShowSkip = ''Skip''"
| "filter_label ShowTodo = ''Todo''"
| "filter_label ShowDoing = ''Doing''"
| "filter_label ShowDone = ''Done''"

section \<open>The state\<close>

record tui_state =
  ts_snapshot_name :: string
  ts_start :: int
  ts_parts :: "part_row list"
  ts_part_index :: "string \<Rightarrow> nat option"
  ts_sort_column :: sort_column
  ts_sort_ascending :: bool
  ts_status_filter :: status_filter
  ts_complete :: bool

definition new_tui :: "string \<Rightarrow> int \<Rightarrow> tui_state" where
  "new_tui snapshot_name now =
     \<lparr>ts_snapshot_name = snapshot_name, ts_start = now, ts_parts = [], ts_part_index = Map.empty,
      ts_sort_column = ByStatus, ts_sort_ascending = False, ts_status_filter = ShowNew,
      ts_complete = False\<rparr>"

definition new_row :: "string set \<Rightarrow> part_summary \<Rightarrow> part_row" where
  "new_row known p =
     (let is_new = ps_hash p \<notin> known in
      \<lparr>pr_database = ps_database p, pr_table = ps_table p, pr_part_name = ps_part_name p,
       pr_bytes_on_disk = ps_bytes_on_disk p, pr_rows_count = ps_rows_count p, pr_file_count = None,
       pr_status = (if is_new then Pending else Skipped), pr_progress_bytes = 0,
       pr_progress_total = 0, pr_is_new = is_new, pr_zip_size = 0, pr_done_at = None\<rparr>)"

text \<open>The loop over \<open>parts.into\_iter().enumerate()\<close>, from index \<open>i\<close>.\<close>

fun discover :: "string set \<Rightarrow> nat \<Rightarrow> part_summary list \<Rightarrow> tui_state \<Rightarrow> tui_state" where
  "discover known i [] s = s"
| "discover known i (p # ps) s =
     discover known (Suc i) ps
       (s\<lparr>ts_part_index := (ts_part_index s)(ps_hash p \<mapsto> i),
          ts_parts := ts_parts s @ [new_row known p]\<rparr>)"

text \<open>\<open>if let Some(\&idx) = self.part\_index.get(\&hash)\<close> and an update of \<open>self.parts[idx]\<close>.\<close>

definition update_part :: "string \<Rightarrow> (part_row \<Rightarrow> part_row) \<Rightarrow> tui_state \<Rightarrow> tui_state option" where
  "update_part hash f s =
     (case ts_part_index s hash of
        None \<Rightarrow> Some s
      | Some i \<Rightarrow>
          if i < length (ts_parts s)
          then Some (s\<lparr>ts_parts := (ts_parts s)[i := f (ts_parts s ! i)]\<rparr>)
          else None)"

definition advance :: "part_status \<Rightarrow> (part_row \<Rightarrow> part_row) \<Rightarrow> part_row \<Rightarrow> part_row" where
  "advance st f p = (if pr_status p < st then f (p\<lparr>pr_status := st\<rparr>) else p)"

fun apply_event :: "int \<Rightarrow> backup_event \<Rightarrow> tui_state \<Rightarrow> tui_state option" where
  "apply_event now (PartsDiscovered parts known) s =
     Some (discover known 0 parts (s\<lparr>ts_parts := [], ts_part_index := Map.empty\<rparr>))"
| "apply_event now (PartHeadCheck hash) s = update_part hash (advance HeadCheck (\<lambda>p. p)) s"
| "apply_event now (PartHeadSkipped hash sz) s =
     update_part hash (advance HeadSkip (\<lambda>p. p\<lparr>pr_zip_size := sz, pr_done_at := Some now\<rparr>)) s"
| "apply_event now (PartStaging hash) s = update_part hash (advance Staging (\<lambda>p. p)) s"
| "apply_event now (PartStaged hash file_count) s =
     update_part hash (advance Staged (\<lambda>p. p\<lparr>pr_file_count := Some file_count\<rparr>)) s"
| "apply_event now (PartUploading hash) s =
     update_part hash (advance Uploading (\<lambda>p. p\<lparr>pr_progress_bytes := 0\<rparr>)) s"
| "apply_event now (PartUploadProgress hash bytes_uploaded tot) s =
     update_part hash
       (\<lambda>p. p\<lparr>pr_progress_bytes := bytes_uploaded, pr_progress_total := tot\<rparr>) s"
| "apply_event now (PartDone hash zip_size) s =
     update_part hash (advance Done
       (\<lambda>p. p\<lparr>pr_zip_size := zip_size, pr_progress_bytes := zip_size,
              pr_progress_total := zip_size, pr_done_at := Some now\<rparr>)) s"
| "apply_event now (BackupComplete n) s = Some (s\<lparr>ts_complete := True\<rparr>)"

section \<open>The list of parts\<close>

definition column_order :: "sort_column \<Rightarrow> part_row comparator" where
  "column_order col =
     (case col of
        ByDatabase \<Rightarrow> key (\<lambda>p. (pr_database p, pr_table p)) default
      | ByTable \<Rightarrow> key (\<lambda>p. (pr_table p, pr_database p)) default
      | ByPartName \<Rightarrow> key pr_part_name default
      | BySize \<Rightarrow> key pr_bytes_on_disk default
      | ByStatus \<Rightarrow> key pr_status default)"

definition row_order :: "tui_state \<Rightarrow> part_row comparator" where
  "row_order s =
     (let cmp = column_order (ts_sort_column s) in if ts_sort_ascending s then cmp else reversed cmp)"

definition sorted_filtered_indices :: "tui_state \<Rightarrow> nat list" where
  "sorted_filtered_indices s =
     Sorting_Algorithms.sort (key (\<lambda>i. ts_parts s ! i) (row_order s))
       (filter (\<lambda>i. filter_matches (ts_status_filter s) (ts_parts s ! i)) [0..<length (ts_parts s)])"

definition toggle_sort :: "sort_column \<Rightarrow> tui_state \<Rightarrow> tui_state" where
  "toggle_sort col s =
     (if ts_sort_column s = col then s\<lparr>ts_sort_ascending := \<not> ts_sort_ascending s\<rparr>
      else s\<lparr>ts_sort_column := col, ts_sort_ascending := True\<rparr>)"

section \<open>Totals\<close>

record overall_totals =
  os_new_parts :: u64
  os_staging :: u64
  os_staged :: u64
  os_in_progress :: u64
  os_uploaded :: u64
  os_head_skipped :: u64
  os_total_bytes :: u64
  os_uploaded_bytes :: u64

definition no_stats :: overall_totals where
  "no_stats = \<lparr>os_new_parts = 0, os_staging = 0, os_staged = 0, os_in_progress = 0, os_uploaded = 0,
     os_head_skipped = 0, os_total_bytes = 0, os_uploaded_bytes = 0\<rparr>"

definition add_to_stats :: "overall_totals \<Rightarrow> part_row \<Rightarrow> overall_totals" where
  "add_to_stats st p =
     (let st = st\<lparr>os_total_bytes := os_total_bytes st + pr_bytes_on_disk p\<rparr>;
          st = (if pr_is_new p then st\<lparr>os_new_parts := os_new_parts st + 1\<rparr> else st)
      in case pr_status p of
           Skipped \<Rightarrow> st\<lparr>os_uploaded_bytes := os_uploaded_bytes st + pr_bytes_on_disk p\<rparr>
         | Done \<Rightarrow> st\<lparr>os_uploaded := os_uploaded st + 1,
                      os_uploaded_bytes := os_uploaded_bytes st + pr_zip_size p\<rparr>
         | Uploading \<Rightarrow> st\<lparr>os_in_progress := os_in_progress st + 1,
                           os_uploaded_bytes := os_uploaded_bytes st + pr_progress_bytes p\<rparr>
         | Staged \<Rightarrow> st\<lparr>os_staged := os_staged st + 1\<rparr>
         | Staging \<Rightarrow> st\<lparr>os_staging := os_staging st + 1\<rparr>
         | HeadCheck \<Rightarrow> st\<lparr>os_in_progress := os_in_progress st + 1\<rparr>
         | HeadSkip \<Rightarrow> st\<lparr>os_head_skipped := os_head_skipped st + 1,
                          os_uploaded := os_uploaded st + 1,
                          os_uploaded_bytes := os_uploaded_bytes st + pr_zip_size p\<rparr>
         | Pending \<Rightarrow> st)"

definition overall_stats :: "tui_state \<Rightarrow> overall_totals" where
  "overall_stats s = foldl add_to_stats no_stats (ts_parts s)"

record table_summary_row =
  tr_database :: string
  tr_table :: string
  tr_parts :: u32
  tr_skip :: u32
  tr_todo :: u32
  tr_doing :: u32
  tr_done :: u32
  tr_bytes_on_disk :: u64
  tr_rows_count :: u64
  tr_file_count :: u32

definition new_table_row :: "string \<times> string \<Rightarrow> table_summary_row" where
  "new_table_row k = \<lparr>tr_database = fst k, tr_table = snd k, tr_parts = 0, tr_skip = 0, tr_todo = 0,
     tr_doing = 0, tr_done = 0, tr_bytes_on_disk = 0, tr_rows_count = 0, tr_file_count = 0\<rparr>"

definition add_to_row :: "part_row \<Rightarrow> table_summary_row \<Rightarrow> table_summary_row" where
  "add_to_row p r =
     (let r = r\<lparr>tr_parts := tr_parts r + 1\<rparr>;
          r = (case pr_status p of
                 Skipped \<Rightarrow> r\<lparr>tr_skip := tr_skip r + 1\<rparr>
               | HeadSkip \<Rightarrow> r\<lparr>tr_skip := tr_skip r + 1\<rparr>
               | Pending \<Rightarrow> r\<lparr>tr_todo := tr_todo r + 1\<rparr>
               | Staged \<Rightarrow> r\<lparr>tr_todo := tr_todo r + 1\<rparr>
               | HeadCheck \<Rightarrow> r\<lparr>tr_doing := tr_doing r + 1\<rparr>
               | Staging \<Rightarrow> r\<lparr>tr_doing := tr_doing r + 1\<rparr>
               | Uploading \<Rightarrow> r\<lparr>tr_doing := tr_doing r + 1\<rparr>
               | Done \<Rightarrow> r\<lparr>tr_done := tr_done r + 1\<rparr>);
          r = r\<lparr>tr_bytes_on_disk := tr_bytes_on_disk r + pr_bytes_on_disk p,
                tr_rows_count := tr_rows_count r + pr_rows_count p\<rparr>
      in case pr_file_count p of
           Some fc \<Rightarrow> r\<lparr>tr_file_count := tr_file_count r + fc\<rparr>
         | None \<Rightarrow> r)"

definition row_table :: "part_row \<Rightarrow> string \<times> string" where
  "row_table p = (pr_database p, pr_table p)"

text \<open>The map from tables to rows, in the order of first appearance: its own order is lost in the sort.\<close>

fun add_to_map ::
  "part_row \<Rightarrow> ((string \<times> string) \<times> table_summary_row) list
     \<Rightarrow> ((string \<times> string) \<times> table_summary_row) list"
where
  "add_to_map p [] = [(row_table p, add_to_row p (new_table_row (row_table p)))]"
| "add_to_map p ((k, r) # m) =
     (if k = row_table p then (k, add_to_row p r) # m else (k, r) # add_to_map p m)"

definition table_summary :: "tui_state \<Rightarrow> table_summary_row list" where
  "table_summary s =
     Sorting_Algorithms.sort (key (\<lambda>r. (tr_database r, tr_table r)) default)
       (map snd (foldl (\<lambda>m p. add_to_map p m) [] (ts_parts s)))"

end
