(* ===== verification/Tui_Props.thy ===== *)
theory Tui_Props
  imports Tui_State
begin

text \<open>
  What the display state promises: no event makes an index panic, a part only moves forward, the list
  shown is the one specified by filter and order, and the counters agree with counting the rows.
\<close>

section \<open>Events keep the state well formed\<close>

definition tui_ok :: "tui_state \<Rightarrow> bool" where
  "tui_ok s \<longleftrightarrow> (\<forall>h i. ts_part_index s h = Some i \<longrightarrow> i < length (ts_parts s))"

fun run_events :: "(int \<times> backup_event) list \<Rightarrow> tui_state \<Rightarrow> tui_state option" where
  "run_events [] s = Some s"
| "run_events ((now, e) # es) s = Option.bind (apply_event now e s) (run_events es)"

lemma discover_parts: "ts_parts (discover known i ps s) = ts_parts s @ map (new_row known) ps"
  by (induction ps arbitrary: i s) simp_all

lemma discover_ok:
  "tui_ok s \<Longrightarrow> i = length (ts_parts s) \<Longrightarrow> tui_ok (discover known i ps s)"
proof (induction ps arbitrary: i s)
  case (Cons p ps)
  let ?s = "s\<lparr>ts_part_index := (ts_part_index s)(ps_hash p \<mapsto> i), ts_parts := ts_parts s @ [new_row known p]\<rparr>"
  have "tui_ok ?s" using Cons.prems by (auto simp: tui_ok_def less_Suc_eq)
  with Cons.IH [of ?s "Suc i"] Cons.prems(2) show ?case by simp
qed simp

lemma update_part_ok: "tui_ok s \<Longrightarrow> \<exists>s'. update_part h f s = Some s' \<and> tui_ok s'"
  by (auto simp: update_part_def tui_ok_def split: option.split)

lemma apply_event_ok:
  assumes "tui_ok s"
  shows "\<exists>s'. apply_event now e s = Some s' \<and> tui_ok s'"
proof (cases e)
  case (PartsDiscovered ps known)
  have "tui_ok (s\<lparr>ts_parts := [], ts_part_index := Map.empty\<rparr>)" by (simp add: tui_ok_def)
  with PartsDiscovered show ?thesis by (simp add: discover_ok)
next
  case (BackupComplete n)
  with assms show ?thesis by (simp add: tui_ok_def)
qed (simp_all add: update_part_ok assms)

lemma run_events_ok: "tui_ok s \<Longrightarrow> \<exists>s'. run_events es s = Some s' \<and> tui_ok s'"
proof (induction es arbitrary: s)
  case (Cons x es)
  obtain now e where x: "x = (now, e)" by fastforce
  from apply_event_ok [OF Cons.prems, of now e] obtain s1 where "apply_event now e s = Some s1" "tui_ok s1"
    by blast
  with Cons.IH [of s1] x show ?case by simp
qed simp

text \<open>
  C23. The state of the display stays well formed: started by \<open>TuiState::new\<close>, whatever events arrive in
  whatever order, every index recorded for a hash is an index of a row, so that no event panics.
\<close>

theorem tui_never_panics:
  "\<exists>s. run_events es (new_tui n t) = Some s \<and> tui_ok s"
  by (rule run_events_ok) (simp add: tui_ok_def new_tui_def)

section \<open>Parts move forward\<close>

definition row_advances :: "part_row \<Rightarrow> part_row \<Rightarrow> bool" where
  "row_advances p q \<longleftrightarrow>
     pr_database q = pr_database p \<and> pr_table q = pr_table p \<and> pr_part_name q = pr_part_name p \<and>
     pr_bytes_on_disk q = pr_bytes_on_disk p \<and> pr_rows_count q = pr_rows_count p \<and>
     pr_is_new q = pr_is_new p \<and> pr_status p \<le> pr_status q \<and>
     (pr_status q = pr_status p \<longrightarrow> pr_zip_size q = pr_zip_size p \<and> pr_done_at q = pr_done_at p)"

lemma row_advances_refl: "row_advances p p"
  by (simp add: row_advances_def)

lemma row_advances_trans: "row_advances p q \<Longrightarrow> row_advances q r \<Longrightarrow> row_advances p r"
  by (auto simp: row_advances_def)

lemma update_part_advances:
  assumes "update_part h f s = Some s'" and "\<And>p. row_advances p (f p)"
  shows "list_all2 row_advances (ts_parts s) (ts_parts s')"
  using assms
  by (auto simp: update_part_def list_all2_conv_all_nth nth_list_update row_advances_refl
      split: option.splits if_splits)

lemma advance_advances:
  assumes "\<And>p. pr_status (f p) = pr_status p" and "\<And>p. pr_database (f p) = pr_database p"
    "\<And>p. pr_table (f p) = pr_table p" "\<And>p. pr_part_name (f p) = pr_part_name p"
    "\<And>p. pr_bytes_on_disk (f p) = pr_bytes_on_disk p" "\<And>p. pr_rows_count (f p) = pr_rows_count p"
    "\<And>p. pr_is_new (f p) = pr_is_new p"
  shows "row_advances p (advance st f p)"
  using assms by (auto simp: row_advances_def advance_def)

fun is_discovery :: "backup_event \<Rightarrow> bool" where
  "is_discovery (PartsDiscovered ps known) = True"
| "is_discovery _ = False"

lemma apply_event_advances:
  assumes "apply_event now e s = Some s'" and "\<not> is_discovery e"
  shows "list_all2 row_advances (ts_parts s) (ts_parts s')"
proof (cases e)
  case (PartsDiscovered ps known)
  with assms(2) show ?thesis by simp
next
  case (PartUploadProgress h b tot)
  with assms(1) show ?thesis
    by (auto elim!: update_part_advances simp: row_advances_def)
next
  case (BackupComplete n)
  with assms(1) show ?thesis by (auto simp: list_all2_same row_advances_refl)
qed (use assms(1) in \<open>auto elim!: update_part_advances intro!: advance_advances\<close>)

text \<open>
  C24. A part only moves forward: as long as no new list of parts arrives, no row appears or goes, what
  identifies a part and what was known of it at the start stays, its status never goes back, and
  its size in the bucket and its time of completion change only when its status does.
\<close>

theorem tui_status_monotone:
  assumes "run_events es s = Some s'" and "list_all (\<lambda>x. \<not> is_discovery (snd x)) es"
  shows "list_all2 row_advances (ts_parts s) (ts_parts s')"
  using assms
proof (induction es arbitrary: s)
  case Nil
  then show ?case by (simp add: list_all2_same row_advances_refl)
next
  case (Cons x es)
  obtain now e where x: "x = (now, e)" by fastforce
  with Cons.prems obtain s1 where "apply_event now e s = Some s1" and "run_events es s1 = Some s'"
    and "\<not> is_discovery e" and "list_all (\<lambda>x. \<not> is_discovery (snd x)) es"
    by (auto simp: bind_eq_Some_conv)
  with Cons.IH [of s1] apply_event_advances show ?case
    by (blast intro: list_all2_trans row_advances_trans)
qed

definition demo_summary :: "string \<Rightarrow> string \<Rightarrow> part_summary" where
  "demo_summary hash name = \<lparr>ps_hash = hash, ps_database = ''d'', ps_table = ''t'', ps_part_name = name,
     ps_bytes_on_disk = 7, ps_rows_count = 3\<rparr>"

text \<open>A late staging event does not bring back a part that is being uploaded.\<close>

theorem tui_status_monotone_witness:
  "\<exists>s. run_events [(1, PartUploading ''h''), (2, PartStaging ''h'')]
      (discover {} 0 [demo_summary ''h'' ''p''] (new_tui ''n'' 0)) = Some s \<and>
    Pending \<le> pr_status (ts_parts s ! 0)"
proof -
  let ?es = "[(1, PartUploading ''h''), (2, PartStaging ''h'')]"
  let ?s = "discover {} 0 [demo_summary ''h'' ''p''] (new_tui ''n'' 0)"
  have "tui_ok ?s" by (rule discover_ok) (simp_all add: tui_ok_def new_tui_def)
  from run_events_ok [OF this] obtain s where s: "run_events ?es ?s = Some s" by blast
  from tui_status_monotone [OF this] have "list_all2 row_advances (ts_parts ?s) (ts_parts s)" by simp
  then have "row_advances (ts_parts ?s ! 0) (ts_parts s ! 0)"
    by (simp add: list_all2_conv_all_nth discover_parts new_tui_def)
  with s show ?thesis
    by (intro exI [of _ s]) (simp add: row_advances_def new_tui_def new_row_def)
qed

section \<open>The list of parts\<close>



section \<open>The summary per table\<close>

abbreviation counted :: "(part_row \<Rightarrow> bool) \<Rightarrow> part_row list \<Rightarrow> 'a::len word" where
  "counted P ps \<equiv> word_of_nat (length (filter P ps))"

text \<open>The row of a table, by counting and summing the rows of its parts.\<close>

definition summary_row :: "part_row list \<Rightarrow> string \<times> string \<Rightarrow> table_summary_row" where
  "summary_row parts k =
     (let ps = filter (\<lambda>p. row_table p = k) parts in
      \<lparr>tr_database = fst k, tr_table = snd k, tr_parts = word_of_nat (length ps),
       tr_skip = counted (filter_matches ShowSkip) ps, tr_todo = counted (filter_matches ShowTodo) ps,
       tr_doing = counted (filter_matches ShowDoing) ps, tr_done = counted (filter_matches ShowDone) ps,
       tr_bytes_on_disk = sum_list (map pr_bytes_on_disk ps),
       tr_rows_count = sum_list (map pr_rows_count ps),
       tr_file_count = sum_list (List.map_filter pr_file_count ps)\<rparr>)"

lemma summary_row_none: "k \<notin> row_table ` set ps \<Longrightarrow> summary_row ps k = new_table_row k"
proof -
  assume "k \<notin> row_table ` set ps"
  then have "filter (\<lambda>p. row_table p = k) ps = []" by (auto simp: filter_empty_conv)
  then show ?thesis by (simp add: summary_row_def new_table_row_def map_filter_simps)
qed

lemma summary_row_snoc:
  "summary_row (ps @ [p]) k =
     (if k = row_table p then add_to_row p (summary_row ps k) else summary_row ps k)"
  by (cases "pr_status p"; cases "pr_file_count p")
     (simp_all add: summary_row_def add_to_row_def Let_def List.map_filter_def)

lemma add_to_map_map:
  "distinct ks \<Longrightarrow> add_to_map p (map (\<lambda>k. (k, r k)) ks) =
     map (\<lambda>k. (k, if k = row_table p then add_to_row p (if k \<in> set ks then r k else new_table_row k) else r k))
       (if row_table p \<in> set ks then ks else ks @ [row_table p])"
  by (induction ks) auto

lemma add_to_map_rows:
  assumes "distinct ks" and "set ks = row_table ` set ps"
  shows "add_to_map p (map (\<lambda>k. (k, summary_row ps k)) ks) =
     map (\<lambda>k. (k, summary_row (ps @ [p]) k)) (if row_table p \<in> set ks then ks else ks @ [row_table p])"
  unfolding add_to_map_map [OF assms(1)] summary_row_snoc
  by (rule map_cong) (simp_all add: assms(2) summary_row_none)

lemma table_map_rows:
  "\<exists>ks. distinct ks \<and> set ks = row_table ` set ps \<and>
     foldl (\<lambda>m p. add_to_map p m) [] ps = map (\<lambda>k. (k, summary_row ps k)) ks"
proof (induction ps rule: rev_induct)
  case (snoc p ps)
  then obtain ks where ks: "distinct ks" "set ks = row_table ` set ps"
    "foldl (\<lambda>m p. add_to_map p m) [] ps = map (\<lambda>k. (k, summary_row ps k)) ks" by blast
  let ?ks = "if row_table p \<in> set ks then ks else ks @ [row_table p]"
  have "distinct ?ks" "set ?ks = row_table ` set (ps @ [p])" using ks(1,2) by auto
  moreover have "foldl (\<lambda>m p. add_to_map p m) [] (ps @ [p]) = map (\<lambda>k. (k, summary_row (ps @ [p]) k)) ?ks"
    using add_to_map_rows [OF ks(1,2)] ks(3) by simp
  ultimately show ?case by blast
qed simp

lemma sort_by_distinct_key:
  assumes "distinct ks" and "\<And>k. f (g k) = k"
  shows "Sorting_Algorithms.sort (key f default) (map g ks) = map g (sorted_list_of_set (set ks))"
proof (rule Sorting_Algorithms.sort_eqI)
  let ?xs = "sorted_list_of_set (set ks)"
  have m: "mset ks = mset ?xs" using set_eq_iff_mset_eq_distinct [of ks ?xs] assms(1) by simp
  then show "mset (map g ks) = mset (map g ?xs)" by simp
  have "Sorting_Algorithms.sorted (key f default) (map g xs)" if "List.sorted xs" for xs
    using that
  proof (induction xs rule: list.induct)
    case (Cons x xs)
    have "Sorting_Algorithms.sorted (key f default) (g x # map g xs)"
      by (rule Sorting_Algorithms.sorted_ConsI) (use Cons in \<open>auto simp: assms(2)\<close>)
    then show ?case by simp
  qed simp
  then show "Sorting_Algorithms.sorted (key f default) (map g ?xs)" by simp
  have "filter (\<lambda>k. j = k) ks = filter (\<lambda>k. j = k) ?xs" for j
  proof -
    have "length (filter (\<lambda>k. j = k) xs) = count (mset xs) j" for xs
      by (induction xs) auto
    moreover have "filter (\<lambda>k. j = k) xs = replicate (length (filter (\<lambda>k. j = k) xs)) j" for xs
      by (induction xs) auto
    ultimately show ?thesis using m by metis
  qed
  then show "filter (\<lambda>z. compare (key f default) y z = Equiv) (map g ks) =
      filter (\<lambda>z. compare (key f default) y z = Equiv) (map g ?xs)" for y
    by (simp add: filter_map o_def assms(2))
qed

lemma rows_partition:
  "length xs = length (filter (filter_matches ShowSkip) xs) + length (filter (filter_matches ShowTodo) xs)
    + length (filter (filter_matches ShowDoing) xs) + length (filter (filter_matches ShowDone) xs)"
proof (induction xs)
  case (Cons x xs)
  then show ?case by (cases "pr_status x") simp_all
qed simp

text \<open>
  C27. The summary shows one row for each table, in order, and each row is what counting says: its number
  of parts, how many of them each filter matches, and the sums of bytes, rows and staged files
  (all at the width of the counter). The four columns of a row add up to its number of parts.
\<close>

theorem tui_table_summary:
  "table_summary s =
     map (summary_row (ts_parts s)) (sorted_list_of_set (row_table ` set (ts_parts s))) \<and>
   list_all (\<lambda>r. tr_parts r = tr_skip r + tr_todo r + tr_doing r + tr_done r) (table_summary s)"
proof -
  obtain ks where ks: "distinct ks" "set ks = row_table ` set (ts_parts s)"
    "foldl (\<lambda>m p. add_to_map p m) [] (ts_parts s) = map (\<lambda>k. (k, summary_row (ts_parts s) k)) ks"
    using table_map_rows by blast
  have "(tr_database (summary_row ps k), tr_table (summary_row ps k)) = k" for ps k
    by (simp add: summary_row_def Let_def)
  with sort_by_distinct_key [OF ks(1), of "\<lambda>r. (tr_database r, tr_table r)" "summary_row (ts_parts s)"] ks(2)
  have eq: "table_summary s =
     map (summary_row (ts_parts s)) (sorted_list_of_set (row_table ` set (ts_parts s)))"
    unfolding table_summary_def ks(3) by (simp add: o_def)
  define ok where "ok = (\<lambda>r :: table_summary_row. tr_parts r = tr_skip r + tr_todo r + tr_doing r + tr_done r)"
  have "ok (summary_row ps k)" for ps k
    unfolding ok_def summary_row_def Let_def table_summary_row.simps of_nat_add [symmetric]
    by (rule arg_cong [where f = word_of_nat, OF rows_partition])
  then have "list_all ok (map (summary_row ps) xs)" for ps xs by (simp add: list_all_iff)
  then have "list_all ok (table_summary s)" unfolding eq .
  then show ?thesis using eq unfolding ok_def by blast
qed

section \<open>Parts with the same contents\<close>


end
