(* ===== verification/Tui_Text.thy ===== *)
theory Tui_Text
  imports Tui_State Rust_Text Upload_Progress
begin

text \<open>
  The texts of the progress display: sizes and counts as \<open>format\_bytes\<close> of \<open>src/util.rs\<close> and
  \<open>format\_rows\<close> print them, and what \<open>draw\_header\<close>, \<open>draw\_table\_summary\<close>, \<open>draw\_parts\_detail\<close>
  and \<open>draw\_footer\<close> of \<open>src/tui.rs\<close> put on the screen. Layout, colours and widgets belong to the
  terminal library. Floating point arithmetic is a parameter.
\<close>

section \<open>Floating point\<close>

text \<open>\<open>fl\_fixed k v\<close> is \<open>{v:.k}\<close>; \<open>fl\_secs\<close> turns nanoseconds into seconds.\<close>

record 'f floats =
  fl_of_u64 :: "u64 \<Rightarrow> 'f"
  fl_num :: "nat \<Rightarrow> 'f"
  fl_div :: "'f \<Rightarrow> 'f \<Rightarrow> 'f"
  fl_ge :: "'f \<Rightarrow> 'f \<Rightarrow> bool"
  fl_fixed :: "nat \<Rightarrow> 'f \<Rightarrow> string"
  fl_to_u64 :: "'f \<Rightarrow> u64"
  fl_secs :: "int \<Rightarrow> 'f"

abbreviation show_word :: "'a::len word \<Rightarrow> string" where
  "show_word w \<equiv> show_nat (unat w)"

definition byte_units :: "string list" where
  "byte_units = [''B'', ''KB'', ''MB'', ''GB'', ''TB'']"

text \<open>The first argument: the units left to move up to.\<close>

fun scale_bytes :: "nat \<Rightarrow> 'f floats \<Rightarrow> 'f \<Rightarrow> nat \<Rightarrow> 'f \<times> nat" where
  "scale_bytes 0 fl v i = (v, i)"
| "scale_bytes (Suc n) fl v i =
     (if fl_ge fl v (fl_num fl 1024) then scale_bytes n fl (fl_div fl v (fl_num fl 1024)) (Suc i)
      else (v, i))"

definition format_bytes :: "'f floats \<Rightarrow> u64 \<Rightarrow> string" where
  "format_bytes fl b =
     (if b = 0 then ''0 B''
      else
        (case scale_bytes (length byte_units - 1) fl (fl_of_u64 fl b) 0 of
           (v, i) \<Rightarrow>
             if i = 0 then show_word b @ '' '' @ byte_units ! i
             else fl_fixed fl 2 v @ '' '' @ byte_units ! i))"

definition format_rows :: "'f floats \<Rightarrow> u64 \<Rightarrow> string" where
  "format_rows fl n =
     (if 1000000000 \<le> n then fl_fixed fl 1 (fl_div fl (fl_of_u64 fl n) (fl_num fl 1000000000)) @ ''B''
      else if 1000000 \<le> n then fl_fixed fl 1 (fl_div fl (fl_of_u64 fl n) (fl_num fl 1000000)) @ ''M''
      else if 1000 \<le> n then fl_fixed fl 1 (fl_div fl (fl_of_u64 fl n) (fl_num fl 1000)) @ ''K''
      else show_word n)"

lemma scale_bytes_index: "snd (scale_bytes n fl v i) \<le> n + i"
proof (induction n arbitrary: v i)
  case (Suc n)
  from Suc [of "fl_div fl v (fl_num fl 1024)" "Suc i"] show ?case by simp
qed simp

section \<open>Times and bars\<close>

text \<open>\<open>{:02}\<close>\<close>

definition show_02 :: "nat \<Rightarrow> string" where
  "show_02 n = (if n < 10 then CHR ''0'' # show_nat n else show_nat n)"

text \<open>An \<open>Instant\<close> minus an earlier one, in whole seconds; \<open>duration\_since\<close> saturates.\<close>

definition secs_since :: "int \<Rightarrow> int \<Rightarrow> nat" where
  "secs_since t0 t = nat ((t - t0) div 1000000000)"

definition full_block :: string where "full_block = byte_string [0xE2, 0x96, 0x93]"
definition light_block :: string where "light_block = byte_string [0xE2, 0x96, 0x91]"

text \<open>Only called with a positive total; the division panics otherwise.\<close>

definition bar_pct :: "u64 \<Rightarrow> u64 \<Rightarrow> u64" where
  "bar_pct bytes tot = min (bytes * 100 div tot) 100"

definition bar_filled :: "u64 \<Rightarrow> u64 \<Rightarrow> nat \<Rightarrow> nat" where
  "bar_filled bytes tot width = min (unat (bar_pct bytes tot) * width div 100) width"

definition progress_bar :: "u64 \<Rightarrow> u64 \<Rightarrow> nat \<Rightarrow> string" where
  "progress_bar bytes tot width =
     concat (replicate (bar_filled bytes tot width) full_block)
     @ concat (replicate (width - bar_filled bytes tot width) light_block)
     @ ''  '' @ show_word (bar_pct bytes tot) @ ''%''"

definition status_display :: "part_row \<Rightarrow> string" where
  "status_display p =
     (if pr_status p = Uploading then
        (if 0 < pr_progress_total p
         then ''up:'' @ progress_bar (pr_progress_bytes p) (pr_progress_total p) 6
         else ''uploading'')
      else status_label (pr_status p))"

section \<open>Header and footer\<close>

definition retry_text :: "upload_progress option \<Rightarrow> string" where
  "retry_text up =
     (case up of
        None \<Rightarrow> []
      | Some p \<Rightarrow>
          if 0 < p_retries p \<or> 0 < p_errors p then
            '' | '' @ show_word (p_retries p) @ '' retries''
            @ (if 0 < p_throttles p then '' ('' @ show_word (p_throttles p) @ '' throttled)'' else [])
            @ (if 0 < p_errors p then '' '' @ show_word (p_errors p) @ '' errors'' else [])
          else [])"

definition header_text ::
  "'f floats \<Rightarrow> overall_totals \<Rightarrow> u64 \<Rightarrow> nat \<Rightarrow> upload_progress option \<Rightarrow> string"
where
  "header_text fl st rate elapsed_secs up =
     '' Parts: '' @ show_word (os_uploaded st) @ ''/'' @ show_word (os_new_parts st) @ '' uploaded | ''
     @ format_bytes fl (os_uploaded_bytes st) @ '' / '' @ format_bytes fl (os_total_bytes st) @ '' | ''
     @ format_bytes fl rate @ ''/s | '' @ show_nat (elapsed_secs div 60) @ ''m ''
     @ show_02 (elapsed_secs mod 60) @ ''s''
     @ (if 0 < os_head_skipped st then '' | '' @ show_word (os_head_skipped st) @ '' already in S3'' else [])
     @ retry_text up"

definition footer_text :: "overall_totals \<Rightarrow> bool \<Rightarrow> string" where
  "footer_text st complete =
     '' '' @
     (if complete then ''complete''
      else ''stage '' @ show_word (os_staging st + os_staged st + os_in_progress st + os_uploaded st)
           @ ''/'' @ show_word (os_new_parts st) @ '' | zip+upload '' @ show_word (os_uploaded st) @ ''/''
           @ show_word (os_new_parts st) @ '' | q: quit'')
     @ '' ''"

section \<open>The two tables\<close>

definition positive_cell :: "u32 \<Rightarrow> string" where
  "positive_cell n = (if 0 < n then show_word n else [])"

definition summary_cells :: "'f floats \<Rightarrow> table_summary_row \<Rightarrow> string list" where
  "summary_cells fl t =
     [tr_database t, tr_table t, show_word (tr_parts t), show_word (tr_skip t),
      positive_cell (tr_todo t), positive_cell (tr_doing t), positive_cell (tr_done t),
      format_bytes fl (tr_bytes_on_disk t), format_rows fl (tr_rows_count t),
      show_word (tr_file_count t)]"

definition add_rows :: "table_summary_row \<Rightarrow> table_summary_row \<Rightarrow> table_summary_row" where
  "add_rows a t =
     a\<lparr>tr_parts := tr_parts a + tr_parts t, tr_skip := tr_skip a + tr_skip t,
       tr_todo := tr_todo a + tr_todo t, tr_doing := tr_doing a + tr_doing t,
       tr_done := tr_done a + tr_done t, tr_bytes_on_disk := tr_bytes_on_disk a + tr_bytes_on_disk t,
       tr_rows_count := tr_rows_count a + tr_rows_count t,
       tr_file_count := tr_file_count a + tr_file_count t\<rparr>"

definition total_row :: "table_summary_row list \<Rightarrow> table_summary_row" where
  "total_row tables = foldl add_rows (new_table_row (''(total)'', [])) tables"

definition table_summary_cells :: "'f floats \<Rightarrow> table_summary_row list \<Rightarrow> string list list" where
  "table_summary_cells fl tables = map (summary_cells fl) tables @ [summary_cells fl (total_row tables)]"

definition sort_indicator :: "tui_state \<Rightarrow> sort_column \<Rightarrow> string" where
  "sort_indicator s col =
     (if ts_sort_column s = col then (if ts_sort_ascending s then '' ^'' else '' v'') else [])"

definition detail_header :: "tui_state \<Rightarrow> string list" where
  "detail_header s =
     [''Database'' @ sort_indicator s ByDatabase, ''Table'' @ sort_indicator s ByTable,
      ''Part'' @ sort_indicator s ByPartName, ''Size'' @ sort_indicator s BySize, ''Files'',
      ''Status'' @ sort_indicator s ByStatus, ''Done at'']"

definition detail_cells :: "'f floats \<Rightarrow> int \<Rightarrow> part_row \<Rightarrow> string list" where
  "detail_cells fl start p =
     [pr_database p, pr_table p, pr_part_name p, format_bytes fl (pr_bytes_on_disk p),
      (case pr_file_count p of None \<Rightarrow> ''-'' | Some c \<Rightarrow> show_word c), status_display p,
      (case pr_done_at p of
         Some t \<Rightarrow> let e = secs_since start t in show_nat (e div 60) @ '':'' @ show_02 (e mod 60)
       | None \<Rightarrow> [])]"

definition detail_title :: "tui_state \<Rightarrow> nat option \<Rightarrow> nat \<Rightarrow> string" where
  "detail_title s selected n =
     '' '' @ filter_label (ts_status_filter s) @ '' parts (''
     @ show_nat (case selected of None \<Rightarrow> 0 | Some i \<Rightarrow> i + 1) @ ''/'' @ show_nat n
     @ '')  [d]b [t]able [n]ame [s]ize [S]tatus  Tab: filter ''"

text \<open>The rows of the detail table; an index out of range would panic.\<close>

definition detail_rows :: "'f floats \<Rightarrow> tui_state \<Rightarrow> nat list \<Rightarrow> string list list option" where
  "detail_rows fl s order =
     those (map (\<lambda>i. if i < length (ts_parts s) then Some (detail_cells fl (ts_start s) (ts_parts s ! i))
                     else None) order)"

section \<open>The texts agree with the counters\<close>

lemma those_map_Some: "(\<And>x. x \<in> set xs \<Longrightarrow> f x = Some (g x)) \<Longrightarrow> those (map f xs) = Some (map g xs)"
  by (induction xs) auto

lemma bar_pct_le: "unat (bar_pct b t) \<le> 100"
proof -
  have "bar_pct b t \<le> 100" by (simp add: bar_pct_def)
  then show ?thesis by (simp add: word_le_nat_alt)
qed

lemma bar_filled_le: "bar_filled b t w \<le> w"
  by (simp add: bar_filled_def)

lemma total_row_sums:
  "tr_parts (total_row ts) = sum_list (map tr_parts ts)"
  "tr_skip (total_row ts) = sum_list (map tr_skip ts)"
  "tr_todo (total_row ts) = sum_list (map tr_todo ts)"
  "tr_doing (total_row ts) = sum_list (map tr_doing ts)"
  "tr_done (total_row ts) = sum_list (map tr_done ts)"
proof -
  have "tr_parts (foldl add_rows a ts) = tr_parts a + sum_list (map tr_parts ts) \<and>
    tr_skip (foldl add_rows a ts) = tr_skip a + sum_list (map tr_skip ts) \<and>
    tr_todo (foldl add_rows a ts) = tr_todo a + sum_list (map tr_todo ts) \<and>
    tr_doing (foldl add_rows a ts) = tr_doing a + sum_list (map tr_doing ts) \<and>
    tr_done (foldl add_rows a ts) = tr_done a + sum_list (map tr_done ts)" for a
    by (induction ts arbitrary: a) (simp_all add: add_rows_def add.assoc)
  from this [of "new_table_row (''(total)'', [])"] show
    "tr_parts (total_row ts) = sum_list (map tr_parts ts)"
    "tr_skip (total_row ts) = sum_list (map tr_skip ts)"
    "tr_todo (total_row ts) = sum_list (map tr_todo ts)"
    "tr_doing (total_row ts) = sum_list (map tr_doing ts)"
    "tr_done (total_row ts) = sum_list (map tr_done ts)"
    by (simp_all add: total_row_def new_table_row_def)
qed

end
