(* ===== verification/Tui_Loop.thy ===== *)
theory Tui_Loop
  imports Tui_Props Tui_Text
begin

text \<open>
  The loop of \<open>run\_tui\_inner\<close> of \<open>src/tui.rs\<close>: a frame takes at most 32 events from the channel,
  updates the transfer rate, keeps the selection inside the list, draws, and handles a key. What
  arrives between two frames, the clock, the keys and whether the terminal works are the inputs of a
  frame. The plain logger used without a terminal follows.
\<close>

section \<open>The frame\<close>

datatype key_code =
  KeyChar char | KeyEsc | KeyDown | KeyUp | KeyPageDown | KeyPageUp | KeyHome | KeyEnd | KeyTab | KeyOther

type_synonym event_queue = "(int \<times> backup_event) list"

text \<open>An event is paired with the time at which it is applied.\<close>

record frame_input =
  fi_arrived :: event_queue
  fi_closed :: bool
  fi_now :: int
  fi_uploaded :: "u64 option"
  fi_page_size :: nat
  fi_key :: "(key_code \<times> bool) option"
  fi_terminal_ok :: bool

record screen =
  sc_state :: tui_state
  sc_selected :: "nat option"
  sc_rate_samples :: "(int \<times> u64) list"
  sc_last_rate_check :: int
  sc_upload_rate :: u64

definition new_screen :: "string \<Rightarrow> int \<Rightarrow> screen" where
  "new_screen snapshot_name now =
     \<lparr>sc_state = new_tui snapshot_name now, sc_selected = None, sc_rate_samples = [],
      sc_last_rate_check = now, sc_upload_rate = 0\<rparr>"

definition MAX_EVENTS_PER_FRAME :: nat where "MAX_EVENTS_PER_FRAME = 32"

fun drain :: "nat \<Rightarrow> event_queue \<Rightarrow> bool \<Rightarrow> tui_state \<Rightarrow> (event_queue \<times> tui_state) option" where
  "drain 0 q closed s = Some (q, s)"
| "drain (Suc n) [] closed s = Some ([], if closed then s\<lparr>ts_complete := True\<rparr> else s)"
| "drain (Suc n) ((now, e) # q) closed s = Option.bind (apply_event now e s) (drain n q closed)"

definition saturating_sub :: "u64 \<Rightarrow> u64 \<Rightarrow> u64" where
  "saturating_sub a b = (if b \<le> a then a - b else 0)"

text \<open>The rate over the last five samples, one a second.\<close>

definition update_rate :: "'f floats \<Rightarrow> int \<Rightarrow> u64 \<Rightarrow> screen \<Rightarrow> screen" where
  "update_rate fl now current_bytes sc =
     (if now - sc_last_rate_check sc < 1000000000 then sc
      else
        let samples = sc_rate_samples sc @ [(now, current_bytes)];
            samples = drop (length samples - 5) samples;
            rate = (if 2 \<le> length samples then
                      (let (oldest_t, oldest_b) = hd samples;
                           delta_b = saturating_sub current_bytes oldest_b;
                           delta_s = fl_secs fl (now - oldest_t)
                       in if now - oldest_t \<le> 0 then 0
                          else fl_to_u64 fl (fl_div fl (fl_of_u64 fl delta_b) delta_s))
                    else sc_upload_rate sc)
        in sc\<lparr>sc_rate_samples := samples, sc_upload_rate := rate, sc_last_rate_check := now\<rparr>)"

definition clamp_selection :: "nat \<Rightarrow> nat option \<Rightarrow> nat option" where
  "clamp_selection n sel =
     (case sel of
        Some i \<Rightarrow> if n \<le> i then (if n = 0 then None else Some (n - 1)) else sel
      | None \<Rightarrow> None)"

definition selected_or_0 :: "nat option \<Rightarrow> nat" where
  "selected_or_0 sel = (case sel of Some i \<Rightarrow> i | None \<Rightarrow> 0)"

definition select_down :: "nat \<Rightarrow> nat option \<Rightarrow> nat option" where
  "select_down n sel = (let i = selected_or_0 sel in if i + 1 < n then Some (i + 1) else sel)"

definition select_up :: "nat option \<Rightarrow> nat option" where
  "select_up sel = (let i = selected_or_0 sel in if 0 < i then Some (i - 1) else sel)"

text \<open>A key on a list of \<open>n\<close> rows: \<open>None\<close> quits.\<close>

fun handle_key ::
  "key_code \<times> bool \<Rightarrow> nat \<Rightarrow> nat \<Rightarrow> tui_state \<times> nat option \<Rightarrow> (tui_state \<times> nat option) option"
where
  "handle_key (KeyChar c, ctrl) n page (s, sel) =
     (if c = CHR ''q'' \<or> (c = CHR ''c'' \<and> ctrl) then None
      else if c = CHR ''d'' then Some (toggle_sort ByDatabase s, sel)
      else if c = CHR ''t'' then Some (toggle_sort ByTable s, sel)
      else if c = CHR ''n'' then Some (toggle_sort ByPartName s, sel)
      else if c = CHR ''s'' then Some (toggle_sort BySize s, sel)
      else if c = CHR ''S'' then Some (toggle_sort ByStatus s, sel)
      else if c = CHR ''j'' then Some (s, select_down n sel)
      else if c = CHR ''k'' then Some (s, select_up sel)
      else Some (s, sel))"
| "handle_key (KeyEsc, ctrl) n page (s, sel) = None"
| "handle_key (KeyDown, ctrl) n page (s, sel) = Some (s, select_down n sel)"
| "handle_key (KeyUp, ctrl) n page (s, sel) = Some (s, select_up sel)"
| "handle_key (KeyPageDown, ctrl) n page (s, sel) =
     Some (s, Some (min (selected_or_0 sel + page) (n - 1)))"
| "handle_key (KeyPageUp, ctrl) n page (s, sel) = Some (s, Some (selected_or_0 sel - page))"
| "handle_key (KeyHome, ctrl) n page (s, sel) = Some (s, Some 0)"
| "handle_key (KeyEnd, ctrl) n page (s, sel) = Some (s, if 0 < n then Some (n - 1) else sel)"
| "handle_key (KeyTab, ctrl) n page (s, sel) =
     Some (s\<lparr>ts_status_filter := next_filter (ts_status_filter s)\<rparr>, Some 0)"
| "handle_key (KeyOther, ctrl) n page (s, sel) = Some (s, sel)"

text \<open>What a frame draws: the events taken, the rate updated, the selection inside the list.\<close>

definition frame_view ::
  "'f floats \<Rightarrow> frame_input \<Rightarrow> event_queue \<Rightarrow> screen \<Rightarrow> (event_queue \<times> screen) option"
where
  "frame_view fl i q sc =
     (case drain MAX_EVENTS_PER_FRAME (q @ fi_arrived i) (fi_closed i) (sc_state sc) of
        None \<Rightarrow> None
      | Some (q', s) \<Rightarrow>
          (let stats = overall_stats s;
               bytes = (case fi_uploaded i of None \<Rightarrow> os_uploaded_bytes stats | Some b \<Rightarrow> b);
               sc = update_rate fl (fi_now i) bytes (sc\<lparr>sc_state := s\<rparr>)
           in Some (q', sc\<lparr>sc_selected :=
                clamp_selection (length (sorted_filtered_indices s)) (sc_selected sc)\<rparr>)))"

datatype frame_result = Panicked | Failed | Quit screen | Completed screen | Running event_queue screen

definition tui_frame :: "'f floats \<Rightarrow> frame_input \<Rightarrow> event_queue \<Rightarrow> screen \<Rightarrow> frame_result" where
  "tui_frame fl i q sc =
     (case frame_view fl i q sc of
        None \<Rightarrow> Panicked
      | Some (q', sc) \<Rightarrow>
          if \<not> fi_terminal_ok i then Failed
          else
            (let n = length (sorted_filtered_indices (sc_state sc)) in
             case (case fi_key i of None \<Rightarrow> Some (sc_state sc, sc_selected sc)
                   | Some k \<Rightarrow> handle_key k n (fi_page_size i) (sc_state sc, sc_selected sc)) of
               None \<Rightarrow> Quit sc
             | Some (s, sel) \<Rightarrow>
                 let sc = sc\<lparr>sc_state := s, sc_selected := sel\<rparr> in
                 if ts_complete s then Completed sc else Running q' sc))"

fun run_tui_inner :: "'f floats \<Rightarrow> frame_input list \<Rightarrow> event_queue \<Rightarrow> screen \<Rightarrow> frame_result" where
  "run_tui_inner fl [] q sc = Running q sc"
| "run_tui_inner fl (i # is) q sc =
     (case tui_frame fl i q sc of Running q' sc' \<Rightarrow> run_tui_inner fl is q' sc' | r \<Rightarrow> r)"

section \<open>What a frame keeps\<close>

lemma drain_Some:
  "tui_ok s \<Longrightarrow> \<exists>s'. drain n q closed s = Some (drop n q, s') \<and> tui_ok s' \<and>
     (ts_complete s \<longrightarrow> ts_complete s') \<and> (length q < n \<longrightarrow> closed \<longrightarrow> ts_complete s')"
proof (induction n q closed s rule: drain.induct)
  case (3 n now e q closed s)
  have complete: "apply_event now e s = Some s' \<Longrightarrow> ts_complete s \<Longrightarrow> ts_complete s'" for s'
  proof (cases e)
    case (PartsDiscovered ps known)
    have "ts_complete (discover known i ps s0) = ts_complete s0" for i and s0 :: tui_state
      by (induction ps arbitrary: i s0) simp_all
    with PartsDiscovered show "apply_event now e s = Some s' \<Longrightarrow> ts_complete s \<Longrightarrow> ts_complete s'" by auto
  qed (auto simp: update_part_def split: option.splits if_splits)
  from apply_event_ok [OF 3(2)] obtain s1 where s1: "apply_event now e s = Some s1" "tui_ok s1" by blast
  with 3(1) complete show ?case by fastforce
qed (auto simp: tui_ok_def)

lemma update_rate_simps [simp]:
  "sc_state (update_rate fl now b sc) = sc_state sc"
  "sc_selected (update_rate fl now b sc) = sc_selected sc"
  by (simp_all add: update_rate_def Let_def)

lemma frame_view_Some:
  assumes "tui_ok (sc_state sc)"
  shows "\<exists>sc'. frame_view fl i q sc = Some (drop MAX_EVENTS_PER_FRAME (q @ fi_arrived i), sc') \<and>
    tui_ok (sc_state sc') \<and>
    (length (q @ fi_arrived i) < MAX_EVENTS_PER_FRAME \<longrightarrow> fi_closed i \<longrightarrow> ts_complete (sc_state sc'))"
  using drain_Some [OF assms, of MAX_EVENTS_PER_FRAME "q @ fi_arrived i" "fi_closed i"]
  by (auto simp: frame_view_def Let_def)

lemma clamp_selection_less: "clamp_selection n sel = Some j \<Longrightarrow> j < n"
  by (auto simp: clamp_selection_def split: option.splits if_splits)

lemma toggle_sort_ok [simp]: "tui_ok (toggle_sort col s) = tui_ok s"
  by (simp add: tui_ok_def toggle_sort_def)

lemma next_filter_ok [simp]: "tui_ok (s\<lparr>ts_status_filter := f\<rparr>) = tui_ok s"
  by (simp add: tui_ok_def)

lemma handle_key_ok: "handle_key k n page (s, sel) = Some (s', sel') \<Longrightarrow> tui_ok s \<Longrightarrow> tui_ok s'"
  by (cases "(k, n, page, (s, sel))" rule: handle_key.cases) (auto split: if_splits)

text \<open>
  C25. What is drawn is in range: from a well-formed state a frame never panics, the row it highlights is a
  row of the list it shows, every row of that list is a row of the vector, and at most five rate
  samples are kept.
\<close>

theorem tui_frame_bounds:
  assumes "tui_ok (sc_state sc)" and "length (sc_rate_samples sc) \<le> 5"
  shows "\<exists>q' sc'. frame_view fl i q sc = Some (q', sc') \<and> tui_ok (sc_state sc') \<and>
    length (sc_rate_samples sc') \<le> 5 \<and>
    (\<forall>j. sc_selected sc' = Some j \<longrightarrow> j < length (sorted_filtered_indices (sc_state sc'))) \<and>
    detail_rows fl (sc_state sc') (sorted_filtered_indices (sc_state sc')) \<noteq> None"
proof -
  obtain s q' where s: "drain MAX_EVENTS_PER_FRAME (q @ fi_arrived i) (fi_closed i) (sc_state sc) = Some (q', s)"
    "tui_ok s" using drain_Some [OF assms(1)] by blast
  have "length (sc_rate_samples (update_rate fl now b sc0)) \<le> 5" if "length (sc_rate_samples sc0) \<le> 5"
    for now b and sc0 :: screen
    using that by (auto simp: update_rate_def Let_def)
  moreover have "detail_rows fl s (sorted_filtered_indices s) =
      Some (map (\<lambda>i. detail_cells fl (ts_start s) (ts_parts s ! i)) (sorted_filtered_indices s))" for s
    unfolding detail_rows_def by (rule those_map_Some) (simp add: sorted_filtered_indices_def)
  ultimately show ?thesis
    using assms(2) s by (auto simp: frame_view_def Let_def clamp_selection_less)
qed

text \<open>Arithmetic on whole numbers in place of floating point.\<close>

definition whole_floats :: "nat floats" where
  "whole_floats = \<lparr>fl_of_u64 = unat, fl_num = \<lambda>n. n, fl_div = (div), fl_ge = (\<ge>),
     fl_fixed = \<lambda>k v. show_nat v, fl_to_u64 = word_of_nat, fl_secs = \<lambda>t. nat (t div 1000000000)\<rparr>"

text \<open>A frame of a display that was left with a row selected that the filter no longer shows.\<close>

definition idle_frame :: frame_input where
  "idle_frame = \<lparr>fi_arrived = [], fi_closed = True, fi_now = 1, fi_uploaded = None, fi_page_size = 10,
     fi_key = None, fi_terminal_ok = True\<rparr>"

theorem tui_frame_bounds_witness:
  "\<exists>q' sc'. frame_view whole_floats idle_frame [] ((new_screen ''n'' 0)\<lparr>sc_selected := Some 7\<rparr>) = Some (q', sc') \<and>
     sc_selected sc' = None"
proof -
  let ?sc = "(new_screen ''n'' 0)\<lparr>sc_selected := Some 7\<rparr>"
  from tui_frame_bounds [of ?sc whole_floats idle_frame "[]"] obtain q' sc'
    where v: "frame_view whole_floats idle_frame [] ?sc = Some (q', sc')"
      and sel: "\<forall>j. sc_selected sc' = Some j \<longrightarrow> j < length (sorted_filtered_indices (sc_state sc'))"
    by (auto simp: new_screen_def tui_ok_def new_tui_def)
  have "ts_parts (sc_state sc') = []"
    using v by (auto simp: frame_view_def idle_frame_def MAX_EVENTS_PER_FRAME_def new_screen_def new_tui_def
        eval_nat_numeral Let_def)
  then have "sorted_filtered_indices (sc_state sc') = []" by (simp add: sorted_filtered_indices_def)
  with v sel show ?thesis by (cases "sc_selected sc'") auto
qed

section \<open>The display ends\<close>

definition quiet :: "frame_input \<Rightarrow> bool" where
  "quiet i \<longleftrightarrow> fi_arrived i = [] \<and> fi_closed i \<and> fi_terminal_ok i \<and> fi_key i = None"

text \<open>
  C26. The display ends by itself: once the backup is over and the channel closed, the \<open>n\<close> events still
  in it are worked off and the loop is left after at most \<open>n div 32 + 1\<close> frames without any key.
\<close>

theorem tui_ends:
  assumes "tui_ok (sc_state sc)" and "list_all quiet is"
    and "length is = length q div MAX_EVENTS_PER_FRAME + 1"
  shows "\<exists>sc'. run_tui_inner fl is q sc = Completed sc'"
  using assms
proof (induction "is" arbitrary: q sc)
  case (Cons i "is")
  then have i: "fi_arrived i = []" "fi_closed i" "fi_terminal_ok i" "fi_key i = None"
    by (simp_all add: quiet_def)
  from frame_view_Some [OF Cons.prems(1), of fl i q] i obtain sc1
    where v: "frame_view fl i q sc = Some (drop MAX_EVENTS_PER_FRAME q, sc1)" and ok: "tui_ok (sc_state sc1)"
      and c: "length q < MAX_EVENTS_PER_FRAME \<Longrightarrow> ts_complete (sc_state sc1)" by auto
  have f: "tui_frame fl i q sc =
      (if ts_complete (sc_state sc1) then Completed sc1 else Running (drop MAX_EVENTS_PER_FRAME q) sc1)"
    using v i by (simp add: tui_frame_def Let_def)
  show ?case
  proof (cases "ts_complete (sc_state sc1)")
    case True
    with f show ?thesis by simp
  next
    case False
    with c have "MAX_EVENTS_PER_FRAME \<le> length q" by force
    moreover have "0 < MAX_EVENTS_PER_FRAME" by (simp add: MAX_EVENTS_PER_FRAME_def)
    ultimately have "length is = length (drop MAX_EVENTS_PER_FRAME q) div MAX_EVENTS_PER_FRAME + 1"
      using Cons.prems(3) le_div_geq [of MAX_EVENTS_PER_FRAME "length q"] by simp
    with Cons.IH [OF ok] Cons.prems(2) f False show ?thesis by simp
  qed
qed simp

theorem tui_ends_witness:
  "\<exists>sc'. run_tui_inner whole_floats [idle_frame, idle_frame] (replicate 40 (1, PartStaging ''h'')) (new_screen ''n'' 0)
     = Completed sc'"
  by (rule tui_ends)
     (simp_all add: new_screen_def tui_ok_def new_tui_def quiet_def idle_frame_def MAX_EVENTS_PER_FRAME_def)

section \<open>The plain logger\<close>







end
