(* ===== verification/Backup_Roundtrip.thy ===== *)
theory Backup_Roundtrip
  imports Backup_Safety Restore_Props Part_Zip_Theorems Multipart
begin

text \<open>
  From a staged directory to the bucket and back: what a successful upload stores under the key of a
  blob, and what a restore of that blob puts on the disk. The laws of the bucket are extended by
  what S3 documents of multipart uploads: \<open>stored\<close> is what was last accepted for a part number of an
  upload, and a completion that succeeds stores the parts it lists, one after the other.
\<close>

section \<open>The laws of multipart uploads\<close>

locale storing_bucket = upload_bucket env objs remaining
  for env :: "'s env" and objs remaining +
  fixes stored :: "'s \<Rightarrow> string \<Rightarrow> nat \<Rightarrow> bytes option"
  assumes part_done: "s3_upload_part env k i n d c s = (Inr out, s') \<Longrightarrow> stored s' i n = Some d"
    and part_frame: "n' \<noteq> n \<Longrightarrow> stored (snd (s3_upload_part env k i n d c s)) i n' = stored s i n'"
    and complete_value: "s3_complete env k i ps s = (Inr (), s') \<Longrightarrow>
      (\<And>p. p \<in> set ps \<Longrightarrow> stored s i (cp_number p) = Some (f p)) \<Longrightarrow>
      objs s' k = Some (concat (map f ps))"
    and complete_fails: "s3_complete env k i ps s = (Inl e, s') \<Longrightarrow> stored s' = stored s"
    and sleep_stored: "stored (do_sleep env ms s) = stored s"
begin

text \<open>The parts sent so far are stored.\<close>

definition holds_parts :: "string \<Rightarrow> (nat \<times> bytes) set \<Rightarrow> 's \<Rightarrow> bool" where
  "holds_parts i A s \<longleftrightarrow> (\<forall>(n, d) \<in> A. stored s i n = Some d)"

lemma holds_parts_sleep: "holds_parts i A s \<Longrightarrow> holds_parts i A (do_sleep env ms s)"
  by (simp add: holds_parts_def sleep_stored)

lemma upload_one_stores:
  assumes run: "upload_one env st k i c w = (Ok x, w')" and held: "holds_parts i A (svc w)"
    and fresh: "fst c \<notin> fst ` A"
  shows "holds_parts i (insert c A) (svc w')"
proof -
  let ?call = "s3_upload_part env k i (fst c) (snd c) (base64_encode_crc32 env (crc32 env (snd c)))"
  have frame: "holds_parts i A (snd (?call s))" if "holds_parts i A s" for s
    unfolding holds_parts_def
  proof safe
    fix n d assume nd: "(n, d) \<in> A"
    with fresh have "n \<noteq> fst c" by (metis fst_conv image_eqI)
    with that nd show "stored (snd (?call s)) i n = Some d"
      by (auto simp: holds_parts_def part_frame)
  qed
  from run obtain resp where r: "s3_retry env st (ReqUploadPart k i (fst c) (snd c)) ?call w = (Ok resp, w')"
    by (auto simp: upload_one_def case_prod_beta Let_def io_return_def elim!: io_bind_OkE)
  have "holds_parts i A (svc w')"
    by (rule keepsD [OF keeps_s3_retry [where I = "holds_parts i A"] held r])
       (auto intro: frame holds_parts_sleep)
  moreover obtain s where "?call s = (Inr resp, svc w')" using s3_retry_result [OF r] by blast
  then have "stored (svc w') i (fst c) = Some (snd c)" by (rule part_done)
  ultimately show ?thesis by (simp add: holds_parts_def case_prod_beta)
qed

lemma upload_all_stores:
  "io_map (upload_one env st k i) cs w = (Ok xs, w') \<Longrightarrow> holds_parts i A (svc w) \<Longrightarrow>
     distinct (map fst cs) \<Longrightarrow> fst ` A \<inter> fst ` set cs = {} \<Longrightarrow> holds_parts i (A \<union> set cs) (svc w')"
proof (induction cs arbitrary: A w xs)
  case Nil
  then show ?case by (simp add: io_return_def)
next
  case (Cons c cs)
  then obtain x u xs' where one: "upload_one env st k i c w = (Ok x, u)"
    and rest: "io_map (upload_one env st k i) cs u = (Ok xs', w')"
    by (auto simp: io_return_def elim!: io_bind_OkE)
  have "holds_parts i (insert c A) (svc u)"
    by (rule upload_one_stores [OF one Cons.prems(2)]) (use Cons.prems(4) in auto)
  from Cons.IH [OF rest this] Cons.prems(3,4) show ?case by auto
qed

text \<open>Reporting progress between the parts and the completion.\<close>

lemma keeps_handle_completed:
  assumes "\<And>n. keeps I (cb n)"
  shows "keeps I (handle_completed env st cb acc ds)"
proof (induction ds arbitrary: acc)
  case (Cons d ds)
  have "keeps I (\<lambda>w. with_progress (f (g w)) w)" for f and g :: "'s world \<Rightarrow> u64"
    by (simp add: keeps_def with_progress_def)
  then show ?case
    unfolding handle_completed.simps handle_completed_part_def case_prod_beta Let_def
    by (intro keeps_intros assms Cons.IH)
qed (simp add: keeps_pure)

lemma completed_parts:
  assumes "holds_parts i (set cs) s" and "map cp_number ps = map fst cs" and "distinct (map fst cs)"
    and "s3_complete env k i ps s = (Inr (), s')"
  shows "objs s' k = Some (concat (map snd cs))"
proof -
  define f where "f p = the (stored s i (cp_number p))" for p :: completed_part
  have held: "stored s i n = Some d" if "(n, d) \<in> set cs" for n d
    using assms(1) that by (auto simp: holds_parts_def)
  have "\<exists>d. (cp_number p, d) \<in> set cs" if "p \<in> set ps" for p
  proof -
    from that have "cp_number p \<in> set (map cp_number ps)" by simp
    then show ?thesis unfolding assms(2) by auto
  qed
  then have "stored s i (cp_number p) = Some (f p)" if "p \<in> set ps" for p
    using that held by (fastforce simp: f_def)
  from complete_value [OF assms(4) this] have "objs s' k = Some (concat (map f ps))" .
  moreover have "map f ps = map (\<lambda>n. the (stored s i n)) (map cp_number ps)" by (simp add: f_def)
  moreover have "\<dots> = map snd cs" unfolding assms(2) using held by force
  ultimately show ?thesis by simp
qed

lemma upload_stores:
  assumes ok: "put_object_multipart_reader env st key r esz cb w = (Ok n, w')"
    and perm: "permuting env" and grow: "\<And>n. grows (cb n)"
    and quiet: "\<And>n i A. keeps (holds_parts i A) (cb n)"
    and bounds: "MULTIPART_MIN_CHUNK \<le> min_chunk_size st" "MULTIPART_MIN_CHUNK \<le> max_chunk_size st"
  shows "objs (svc w') (prefixed_key st key) = Some (pending r) \<and> \<not> snd r \<and>
    n = word_of_nat (length (pending r))"
proof -
  let ?k = "prefixed_key st key"
  from ok obtain i u0 where inner: "multipart_inner env st ?k i r esz cb u0 = (Ok n, w')"
    by (auto simp: put_object_multipart_reader_def Let_def io_match_def io_fail_def io_return_def
          io_bind_def split: option.splits prod.splits outcome.splits sum.splits)
  from multipart_inner_steps [OF inner perm grow bounds] obtain cs results u ds t where
    cs: "concat (map snd cs) = pending r" "map fst cs = [1..<Suc (length cs)]"
    and n: "\<not> snd r" "n = word_of_nat (length (pending r))"
    and up: "io_map (upload_one env st ?k i) cs u0 = (Ok results, u)"
    and prog: "handle_completed env st cb (0, []) (completion env results) u = (Ok (n, ds), t)"
    and nums: "map cp_number (sort_key cp_number ds) = [1..<Suc (length cs)]"
    and fin: "s3_retry env st (ReqComplete ?k i (map cp_number (sort_key cp_number ds)))
        (s3_complete env ?k i (sort_key cp_number ds)) t = (Ok (), w')" by blast
  let ?H = "holds_parts i (set cs)"
  have dist: "distinct (map fst cs)" using cs(2) by simp
  have "holds_parts i ({} \<union> set cs) (svc u)"
    by (rule upload_all_stores [OF up]) (use dist in \<open>simp_all add: holds_parts_def\<close>)
  then have "?H (svc t)"
    using keepsD [OF keeps_handle_completed [OF quiet] _ prog] by simp
  then have "\<exists>s. ?H s \<and> s3_complete env ?k i (sort_key cp_number ds) s = (Inr (), svc w')"
    by (rule s3_retry_result_inv [OF fin])
       (auto simp: holds_parts_def complete_fails sleep_stored)
  then obtain s where "?H s" "s3_complete env ?k i (sort_key cp_number ds) s = (Inr (), svc w')" by blast
  from completed_parts [OF this(1) _ dist this(2)] nums cs(2) show ?thesis
    unfolding cs(1) [symmetric] using n by (simp add: cs(1))
qed

end

section \<open>What an uploaded archive is\<close>

text \<open>Staged files still read as they were staged, and the transport delivers what it is given.\<close>

definition faithful_host :: "'s host \<Rightarrow> bool" where
  "faithful_host h \<longleftrightarrow> (\<forall>p c. h_open h p c = Some c) \<and> (\<forall>b. concat (h_chunks h b) = b)"

locale archive_site = backup_site env objs remaining h + storing_bucket env objs remaining stored
  for env :: "'s env" and objs remaining h stored +
  assumes emit_stored: "stored (h_emit h e s) = stored s"
begin

lemma keeps_emit_parts: "keeps (holds_parts i A) (emit h e)"
  unfolding emit_def by (rule keeps_host_call) (simp add: holds_parts_def emit_stored)

lemma keeps_local_objs:
  "keeps (\<lambda>s. objs s = c) (emit h e)" "keeps (\<lambda>s. objs s = c) (cleanup_staged_part h dir)"
  unfolding emit_def cleanup_staged_part_def remove_file_if_exists_def remove_dir_all_if_exists_def
  by (auto intro!: keeps_intros keeps_host_call simp: local_laws)

lemma archive_stored:
  assumes run: "upload_one_archive env h st (hash, dir, t) w = (Ok (hash', n), w')"
    and perm: "permuting env" and host: "faithful_host h"
    and bounds: "MULTIPART_MIN_CHUNK \<le> min_chunk_size st" "MULTIPART_MIN_CHUNK \<le> max_chunk_size st"
  shows "\<exists>files out. collect_files dir t = Inr files \<and>
    write_zip (crc32 env) (tree_content dir t) files = Inr (out, n) \<and>
    objs (svc w') (blob_object st hash) = Some out"
proof -
  have content: "(\<lambda>path. Option.bind (tree_content dir t path) (h_open h path)) = tree_content dir t"
  proof (rule ext)
    fix path
    show "Option.bind (tree_content dir t path) (h_open h path) = tree_content dir t path"
      using host by (cases "tree_content dir t path") (auto simp: faithful_host_def)
  qed
  from run obtain files where files: "collect_files dir t = Inr files"
    by (auto simp: upload_one_archive_def io_lift_def elim!: io_bind_OkE split: sum.splits)
  let ?put = "put_object_multipart_reader env st (blob_remote_key hash)
      (h_chunks h (zip_sink (crc32 env) (tree_content dir t) files), False) (estimate_zip_size files)
      (\<lambda>b. emit h (PartUploadProgress hash b (estimate_zip_size files)))"
  have "io_bind (with_progress (add_upload_total_bytes_est (estimate_zip_size files))) (\<lambda>_.
      io_bind (emit h (PartUploading hash)) (\<lambda>_.
      io_bind ?put (\<lambda>uploaded.
      io_bind (io_lift (write_zip (crc32 env) (tree_content dir t) files)) (\<lambda>(out, wr).
      if uploaded \<noteq> wr then io_fail (UploadSizeMismatch hash uploaded wr)
      else
        io_bind (timed_progress env record_upload_done) (\<lambda>_.
        io_bind (cleanup_staged_part h dir) (\<lambda>_.
        io_bind (emit h (PartDone hash uploaded)) (\<lambda>_.
        io_return (hash, uploaded)))))))) w = (Ok (hash', n), w')"
    using run by (simp add: upload_one_archive_def content Let_def io_lift_def io_bind_Ok files)
  then obtain u v x zip v' where put: "?put u = (Ok x, v)"
    and lift: "io_lift (write_zip (crc32 env) (tree_content dir t) files) v = (Ok zip, v')"
    and rest: "(case zip of (out, wr) \<Rightarrow>
      if x \<noteq> wr then io_fail (UploadSizeMismatch hash x wr)
      else
        io_bind (timed_progress env record_upload_done) (\<lambda>_.
        io_bind (cleanup_staged_part h dir) (\<lambda>_.
        io_bind (emit h (PartDone hash x)) (\<lambda>_.
        io_return (hash, x))))) v' = (Ok (hash', n), w')"
    by (elim io_bind_OkE) blast
  from lift have zip: "write_zip (crc32 env) (tree_content dir t) files = Inr zip" "v' = v"
    by (auto simp: io_lift_def split: sum.splits)
  obtain out m where om: "zip = (out, m)" by fastforce
  from rest have size: "x = m" by (auto simp: om io_fail_def split: if_splits)
  from rest have "io_bind (timed_progress env record_upload_done) (\<lambda>_.
        io_bind (cleanup_staged_part h dir) (\<lambda>_.
        io_bind (emit h (PartDone hash x)) (\<lambda>_.
        io_return (hash, x)))) v = (Ok (hash', n), w')"
    by (simp only: om size zip(2) prod.case if_False simp_thms)
  then obtain v1 y z l q z' where timed: "timed_progress env record_upload_done v = (Ok l, v1)"
    and clean: "cleanup_staged_part h dir v1 = (Ok y, z)"
    and last: "emit h (PartDone hash x) z = (Ok q, z')" and ret: "io_return (hash, x) z' = (Ok (hash', n), w')"
    by (elim io_bind_OkE) blast
  from ret have n: "n = x" "w' = z'" by (simp_all add: io_return_def)
  have "objs (svc v) (prefixed_key st (blob_remote_key hash)) =
      Some (pending (h_chunks h (zip_sink (crc32 env) (tree_content dir t) files), False))"
    using upload_stores [OF put perm _ keeps_emit_parts bounds] by (simp add: requests_emit)
  then have "objs (svc v) (blob_object st hash) = Some out"
    using host zip(1) om by (simp add: faithful_host_def pending_def zip_sink_ok blob_object_def)
  moreover have "objs (svc z) = objs (svc v)"
    using keepsD [OF keeps_local_objs(2) _ clean, of "objs (svc v1)"] timed
    by (auto simp: timed_progress_def with_progress_def)
  moreover have "objs (svc w') = objs (svc z)"
    unfolding n(2) by (rule keepsD [OF keeps_local_objs(1) _ last]) simp
  ultimately show ?thesis using files zip(1) om size n(1) by auto
qed

end

section \<open>What a restore of it makes of the disk\<close>

lemma tree_content_holds:
  assumes "tree_ok t" and "t = TDir es"
  shows "holds_tree (tree_content dir t) dir t"
  unfolding holds_tree_def
proof (intro allI impI)
  fix p c assume at: "tree_at t p = Some (TFile c)"
  with assms(2) have ne: "p \<noteq> []" by auto
  have names: "CHR ''/'' \<notin> set n" if "n \<in> set p" for n
    using tree_at_good [OF assms(1) at that] by (simp add: good_name_def)
  have "join_on CHR ''/'' (dir # p) = (dir @ ''/'') @ join_on CHR ''/'' p" using ne by (cases p) simp_all
  then have "strip_prefix (dir @ ''/'') (join_on CHR ''/'' (dir # p)) = Some (join_on CHR ''/'' p)"
    by (simp add: strip_prefix_Some)
  moreover have "split_on CHR ''/'' (join_on CHR ''/'' p) = p"
    by (rule split_on_join_on) (use ne names in auto)
  ultimately show "tree_content dir t (join_on CHR ''/'' (dir # p)) = Some c"
    using at by (simp add: tree_content_def)
qed

lemma create_along_ok:
  assumes "permits os" and "no_escape cs" and "no_file_above (foldl step_path d cs) s"
  shows "\<exists>s'. create_dirs_along os d cs s = (s', Inr ()) \<and>
    (\<forall>q. s' q = s q \<or> prefix q (foldl step_path d cs) \<and> s' q = Some FDir)"
  using assms(2,3)
proof (induction cs arbitrary: d s)
  case Nil
  then show ?case by (simp add: fs_return_def)
next
  case (Cons x cs)
  have esc: "no_escape cs" using Cons.prems(1) by (simp add: no_escape_def)
  show ?case
  proof (cases x)
    case (Normal n)
    let ?d = "d @ [n]" and ?dest = "foldl step_path d (x # cs)"
    have under: "prefix ?d ?dest" using steps_under [OF esc, of ?d ?d] by (simp add: Normal)
    have "s ?d \<noteq> Some (FFile c)" for c using Cons.prems(2) under by (simp add: no_file_above_def)
    then have "s ?d = None \<or> s ?d = Some FDir" by (metis fnode.exhaust option.exhaust)
    then obtain s1 where s1: "mkdir_one os ?d s = (s1, Inr ())"
      and same: "\<forall>q. s1 q = s q \<or> prefix q ?dest \<and> s1 q = Some FDir"
      using assms(1) under by (auto simp: mkdir_one_def permits_def)
    have "no_file_above (foldl step_path ?d cs) s1"
      using Cons.prems(2) same unfolding no_file_above_def Normal foldl.simps step_path.simps
      by (metis fnode.distinct(1) option.inject)
    from Cons.IH [OF esc this] obtain s' where s': "create_dirs_along os ?d cs s1 = (s', Inr ())"
      "\<forall>q. s' q = s1 q \<or> prefix q ?dest \<and> s' q = Some FDir" by (auto simp: Normal)
    have "\<forall>q. s' q = s q \<or> prefix q ?dest \<and> s' q = Some FDir" using s'(2) same by metis
    with s1 s'(1) show ?thesis unfolding Normal create_dirs_along.simps
      by (intro exI [of _ s']) (simp add: fs_bind_Inr)
  next
    case CurDir
    with Cons.IH [OF esc, of d s] Cons.prems(2) show ?thesis by simp
  qed (use Cons.prems(1) in \<open>simp_all add: no_escape_def\<close>)
qed

lemma overlay_along:
  assumes "\<forall>q. s' q = s q \<or> prefix q dest \<and> s' q = Some FDir"
  shows "overlay dest g s' = overlay dest g s" and "fresh_dir dest s \<Longrightarrow> fresh_dir dest s'"
proof -
  show "overlay dest g s' = overlay dest g s" using assms by (auto simp: overlay_def fun_eq_iff)
  show "fresh_dir dest s \<Longrightarrow> fresh_dir dest s'"
    unfolding fresh_dir_def no_file_above_def
    using assms by (metis fnode.distinct(1) option.inject prefix_order.less_le_not_le)
qed

section \<open>The round trip\<close>

text \<open>The disk is no part of the bucket, and an answered download comes with its body.\<close>

definition separate_disk :: "'s env \<Rightarrow> ('s \<Rightarrow> string \<Rightarrow> bytes option) \<Rightarrow> 's disk \<Rightarrow> bool" where
  "separate_disk env objs d \<longleftrightarrow>
     (\<forall>f s. objs (d_put d f s) = objs s) \<and> (\<forall>k s. fst (s3_get env k s) \<noteq> Inr None)"

definition reads_truly :: "'s env \<Rightarrow> ('s \<Rightarrow> string \<Rightarrow> bytes option) \<Rightarrow> bool" where
  "reads_truly env objs \<longleftrightarrow> (\<forall>k s b s'. s3_get env k s = (Inr (Some b), s') \<longrightarrow> objs s k = Some b)"

text \<open>The directory of a part below the output directory.\<close>

definition part_dest :: "path \<Rightarrow> bool \<Rightarrow> manifest_part \<Rightarrow> path" where
  "part_dest out attach p = foldl step_path out (part_components attach p)"

lemma restore_part_run:
  assumes disk: "private_disk env h d" and sep: "separate_disk env objs d"
    and val: "reads_truly env objs"
    and os: "permits (d_os d)" and safe: "safe_part p"
    and fresh: "fresh_dir (part_dest out attach p) (d_get d (svc w))" and free: "\<not> guarded w"
    and run: "restore_part env h d st out attach p w = (r, w')"
  shows "(\<exists>e s s'. s3_get env (blob_object st (mp_blob_hash p)) s = (Inl e, s') \<and> objs s = objs (svc w) \<and>
      r = Err (S3Failure e)) \<or>
    (\<exists>b s'. objs (svc w) (blob_object st (mp_blob_hash p)) = Some b \<and>
       fresh_dir (part_dest out attach p) s' \<and>
       (\<forall>g. overlay (part_dest out attach p) g s' = overlay (part_dest out attach p) g (d_get d (svc w))) \<and>
       (case extract_zip (d_os d) (crc32 env) (h_chunks h b, False) (part_dest out attach p) s' of
          (f, x) \<Rightarrow> d_get d (svc w') = f \<and>
            r = (case x of Inl e \<Rightarrow> Err e
                 | Inr _ \<Rightarrow> Ok (mp_database p, mp_table_name p, mp_part_name p))))"
proof -
  let ?dest = "part_dest out attach p" and ?cs = "part_components attach p"
  let ?key = "blob_object st (mp_blob_hash p)"
  have put: "d_get d (d_put d f s) = f" for f s using disk by (simp add: private_disk_def)
  have "no_file_above ?dest (d_get d (svc w))" using fresh by (simp add: fresh_dir_def)
  from create_along_ok [OF os safe_part_components [OF safe] this [unfolded part_dest_def]] obtain s' where
    dirs: "create_dirs_along (d_os d) out ?cs (d_get d (svc w)) = (s', Inr ())"
    and same: "\<forall>q. s' q = d_get d (svc w) q \<or> prefix q ?dest \<and> s' q = Some FDir"
    unfolding part_dest_def by blast
  note ov = overlay_along [OF same]
  obtain a s2 where get: "s3_get env ?key (d_put d s' (svc w)) = (a, s2)" by fastforce
  have s2: "d_get d s2 = s'"
    using disk get put by (metis private_disk_def snd_conv)
  show ?thesis
  proof (cases a)
    case (Inl e)
    have "objs (d_put d s' (svc w)) = objs (svc w)" using sep by (simp add: separate_disk_def)
    moreover have "r = Err (S3Failure e)"
      using run dirs get free Inl
      by (auto simp: restore_part_def Let_def fs_io_def io_bind_def get_object_stream_def send_def
          await_def io_fail_def blob_object_def)
    ultimately show ?thesis using get Inl by blast
  next
    case (Inr v)
    with sep get obtain b where v: "v = Some b"
      by (metis fst_conv option.exhaust separate_disk_def)
    have "objs (svc w) ?key = Some b"
      using val get Inr v sep by (metis reads_truly_def separate_disk_def)
    moreover obtain f x where ex: "extract_zip (d_os d) (crc32 env) (h_chunks h b, False) ?dest s' = (f, x)"
      by fastforce
    moreover have "d_get d (svc w') = f \<and> r = (case x of Inl e \<Rightarrow> Err e
        | Inr _ \<Rightarrow> Ok (mp_database p, mp_table_name p, mp_part_name p))"
      using run dirs get free Inr v s2 ex put
      by (cases x) (auto simp: restore_part_def Let_def fs_io_def io_bind_def get_object_stream_def
          send_def await_def io_return_def blob_object_def part_dest_def [symmetric])
    ultimately show ?thesis using ov fresh by auto
  qed
qed

text \<open>
  C3. What is backed up is what is restored: after a successful upload of a staged part directory, as
  long as its object is not changed, restoring the part into a fresh directory either fails because
  the download does, or succeeds and puts exactly the files and contents of the directory there,
  leaving the rest of the disk alone.
\<close>

theorem backup_restores:
  assumes "archive_site env objs remaining h stored" and "permuting env" and "faithful_host h"
    and "MULTIPART_MIN_CHUNK \<le> min_chunk_size st" and "MULTIPART_MIN_CHUNK \<le> max_chunk_size st"
    and "t = TDir es" and "tree_ok t" and "sizes_ok t"
    and "upload_one_archive env h st (mp_blob_hash p, dir, t) w = (Ok y, u)"
    and "objs (svc v) (blob_object st (mp_blob_hash p)) = objs (svc u) (blob_object st (mp_blob_hash p))"
    and "private_disk env h d" and "separate_disk env objs d" and "permits (d_os d)" and "safe_part p"
    and "fresh_dir (part_dest out attach p) (d_get d (svc v))" and "\<not> guarded v"
    and "restore_part env h d st out attach p v = (r, w')"
  shows "(\<exists>e s s'. s3_get env (blob_object st (mp_blob_hash p)) s = (Inl e, s') \<and> objs s = objs (svc v) \<and>
      r = Err (S3Failure e)) \<or>
    r = Ok (mp_database p, mp_table_name p, mp_part_name p) \<and>
    d_get d (svc w') = overlay (part_dest out attach p) (restored t) (d_get d (svc v))"
proof -
  from assms(9) obtain hash n where "upload_one_archive env h st (mp_blob_hash p, dir, t) w = (Ok (hash, n), u)"
    by (cases y) simp
  from archive_site.archive_stored [OF assms(1) this assms(2-5)] obtain files z where
    z: "collect_files dir t = Inr files"
    "write_zip (crc32 env) (tree_content dir t) files = Inr (z, n)"
    "objs (svc u) (blob_object st (mp_blob_hash p)) = Some z" by blast
  have pend: "pending (h_chunks h z, False) = z" using assms(3) by (simp add: pending_def faithful_host_def)
  note ex = extract_tree [OF assms(13,7) _ z(1) tree_content_holds [OF assms(7,6)] assms(8) z(2) pend]
  have val: "objs s k = Some b" if "s3_get env k s = (Inr (Some b), s')" for k s b s'
    by (rule s3_bucket.get_value [where remaining = remaining, OF _ that])
       (use assms(1) in \<open>simp add: archive_site_def backup_site_def upload_bucket_def\<close>)
  then have "reads_truly env objs" by (simp add: reads_truly_def)
  from restore_part_run [OF assms(11,12) this assms(13-17)] show ?thesis
    using ex z(3) assms(6,10) by auto
qed

section \<open>A run\<close>

text \<open>A machine whose state is a bucket in memory and a disk.\<close>

record machine = mem + mc_fs :: fs

definition mem_stored :: "'z mem_scheme \<Rightarrow> string \<Rightarrow> nat \<Rightarrow> bytes option" where
  "mem_stored s i = map_of (map snd (filter (\<lambda>x. fst x = i) (mem_parts s)))"

interpretation stored: archive_site "mem_env P" mem_lookup mem_remaining "answering code answer js" mem_stored
  for P code answer js
proof unfold_locales
  fix k i d c out n' and n :: nat and s s' :: "'a mem_scheme"
  show "mem_stored s' i n = Some d" if "s3_upload_part (mem_env P) k i n d c s = (Inr out, s')"
    using that by (auto simp: mem_stored_def)
  show "mem_stored (snd (s3_upload_part (mem_env P) k i n d c s)) i n' = mem_stored s i n'" if "n' \<noteq> n"
    using that by (simp add: mem_stored_def)
next
  fix k i ps f and s s' :: "'a mem_scheme"
  assume run: "s3_complete (mem_env P) k i ps s = (Inr (), s')"
    and held: "\<And>p. p \<in> set ps \<Longrightarrow> mem_stored s i (cp_number p) = Some (f p)"
  have "s' = s\<lparr>mem_objs := (k, concat (map (\<lambda>p. case mem_stored s i (cp_number p) of
      Some d \<Rightarrow> d | None \<Rightarrow> []) ps), mem_now s) # mem_objs s,
      mem_parts := filter (\<lambda>x. fst x \<noteq> i) (mem_parts s)\<rparr>"
    using run by (simp add: mem_complete_def mem_stored_def Let_def)
  then show "mem_lookup s' k = Some (concat (map f ps))"
    by (simp add: mem_lookup_def held cong: map_cong)
qed (auto simp: mem_complete_def mem_stored_def answering_def null_host_def Let_def)

lemma read_one_chunk:
  "pending r = z \<Longrightarrow> \<not> snd r \<Longrightarrow> z \<noteq> [] \<Longrightarrow> length z < c \<Longrightarrow> read_chunks c 0 r = ([(1, z)], False)"
  by (simp add: read_chunks.simps read_chunk_def)

abbreviation idle_host :: "'s host" where
  "idle_host \<equiv> answering 200 [] (\<lambda>l. None)"

lemma idle_emit: "emit idle_host e w = (Ok (), w)"
  by (simp add: emit_def host_call_def answering_def null_host_def)

lemma mem_machine: "completion (mem_env P) xs = xs" "crc32 (mem_env P) bs = 0"
  by (simp_all add: mem_env_def null_env_def)

lemma mem_upload:
  fixes w :: "machine world"
  assumes "\<not> guarded w" and "\<not> has_progress st"
    and "read_chunks (unat (compute_chunk_size (max esz 1) (min_chunk_size st) (max_chunk_size st)
      (target_parts st))) 0 r = ([(1, z)], False)"
  shows "\<exists>w'. put_object_multipart_reader (mem_env P) st key r esz (\<lambda>b. emit idle_host (ev b)) w
      = (Ok (word_of_nat (length z)), w') \<and> \<not> guarded w' \<and> mc_fs (svc w') = mc_fs (svc w)"
  using assms
  by (simp add: put_object_multipart_reader_def multipart_inner_def s3_retry_def with_retry_def
      s3_retry_config_def upt_rec await_def Let_def io_bind_def io_return_def io_match_def
      classify_s3_def upload_one_def handle_completed_part_def completed_part_from_upload_def
      idle_emit mem_complete_def mem_machine)

definition small_tree :: dir_tree where
  "small_tree = TDir [(''a'', TFile [7])]"

definition round_part :: manifest_part where
  "round_part = \<lparr>mp_database = ''d'', mp_table_name = ''t'', mp_part_name = ''p'',
     mp_blob_hash = replicate 32 CHR ''a'', mp_blob_size = 0\<rparr>"

definition machine_disk :: "machine disk" where
  "machine_disk = \<lparr>d_get = mc_fs, d_put = \<lambda>f s. s\<lparr>mc_fs := f\<rparr>, d_os = allow_all, d_partial = \<lambda>k. []\<rparr>"

definition new_machine :: "machine world" where
  "new_machine = start_world \<lparr>mem_objs = [], mem_now = 0, mem_parts = [], mc_fs = [[] \<mapsto> FDir]\<rparr>"

definition small_files :: "zip_file_entry list" where
  "small_files = [\<lparr>abs_path = ''s/a'', rel_path = ''a'', file_size = 1\<rparr>]"

lemma small_collect: "collect_files ''s'' small_tree = Inr small_files"
  by code_simp

lemma small_content: "tree_content ''s'' small_tree ''s/a'' = Some [7]"
  by code_simp

lemma small_name: "path_to_zip_name ''a'' = Inr ''a''"
  by code_simp

lemma small_archive:
  "\<exists>out. write_zip crc (tree_content ''s'' small_tree) small_files = Inr (out, word_of_nat (length out)) \<and>
     length out = 117"
  by (simp add: write_zip_def write_entry_def small_files_def small_content small_name stream_file.simps
      try_u16_def write_central_def write_eocd_def Let_def local_header_fields_def
      local_sizes_def data_descriptor_def)

lemma small_host: "h_chunks idle_host = (\<lambda>b. [b])" "h_open idle_host = (\<lambda>p c. Some c)"
  by (simp_all add: answering_def null_host_def)

lemma small_estimate: "estimate_zip_size small_files = 117"
  by (simp add: estimate_zip_size_def entry_estimate_def small_files_def small_name Let_def)

lemma machine_crc: "crc32 (mem_env {} :: machine env) = (\<lambda>bs. 0)"
  by (rule ext) (rule mem_machine)

text \<open>The upload of a small stream, after the counters were set.\<close>

abbreviation counted_machine :: "machine world" where
  "counted_machine \<equiv> snd (with_progress (add_upload_total_bytes_est 117) new_machine)"

lemma small_put:
  assumes "out \<noteq> []" and "length out < 1000"
  shows "\<exists>v. put_object_multipart_reader (mem_env {}) plain_storage (blob_remote_key hash) ([out], False) 117
      (\<lambda>b. emit idle_host (PartUploadProgress hash b 117)) counted_machine
        = (Ok (word_of_nat (length out)), v) \<and>
    \<not> guarded v \<and> mc_fs (svc v) = [[] \<mapsto> FDir] \<and> mem_lookup (svc v) (blob_object plain_storage hash) = Some out"
proof -
  have chunk: "compute_chunk_size (max 117 1) (min_chunk_size plain_storage) (max_chunk_size plain_storage)
      (target_parts plain_storage) = 5242880" by code_simp
  have one: "read_chunks (unat (compute_chunk_size (max 117 1) (min_chunk_size plain_storage)
      (max_chunk_size plain_storage) (target_parts plain_storage))) 0 ([out], False) = ([(1, out)], False)"
    unfolding chunk by (rule read_one_chunk) (use assms in \<open>auto simp: pending_def\<close>)
  have w: "\<not> guarded counted_machine" "mc_fs (svc counted_machine) = [[] \<mapsto> FDir]"
    by (simp_all add: with_progress_def new_machine_def start_world_def)
  obtain v where v: "put_object_multipart_reader (mem_env {}) plain_storage (blob_remote_key hash) ([out], False) 117
      (\<lambda>b. emit idle_host (PartUploadProgress hash b 117)) counted_machine
        = (Ok (word_of_nat (length out)), v)" "\<not> guarded v" "mc_fs (svc v) = [[] \<mapsto> FDir]"
    using mem_upload [where P = "{}" and key = "blob_remote_key hash"
        and ev = "\<lambda>b. PartUploadProgress hash b 117", OF w(1) _ one] w(2) by auto
  have "mem_lookup (svc v) (prefixed_key plain_storage (blob_remote_key hash)) = Some (pending ([out], False))"
    using stored.upload_stores [OF v(1) _ _ stored.keeps_emit_parts plain_storage_simps(4,5)]
    by (simp add: permuting_def mem_machine requests_emit)
  with v show ?thesis by (simp add: pending_def blob_object_def)
qed

lemma small_upload:
  "\<exists>n u. upload_one_archive (mem_env {}) idle_host plain_storage
       (mp_blob_hash round_part, ''s'', small_tree) new_machine = (Ok (mp_blob_hash round_part, n), u) \<and>
     mc_fs (svc u) = [[] \<mapsto> FDir] \<and> \<not> guarded u"
proof -
  have content: "(\<lambda>path. Option.bind (tree_content ''s'' small_tree path) (\<lambda>c. Some c))
      = tree_content ''s'' small_tree" by simp
  obtain out where out: "write_zip (\<lambda>bs. 0) (tree_content ''s'' small_tree) small_files
      = Inr (out, word_of_nat (length out))" "length out = 117"
    using small_archive by blast
  obtain v where v: "put_object_multipart_reader (mem_env {}) plain_storage
      (blob_remote_key (mp_blob_hash round_part)) ([out], False) 117
      (\<lambda>b. emit idle_host (PartUploadProgress (mp_blob_hash round_part) b 117)) counted_machine
        = (Ok (word_of_nat (length out)), v)"
    "\<not> guarded v" "mc_fs (svc v) = [[] \<mapsto> FDir]"
    using small_put [of out] out(2) by fastforce
  have clean: "cleanup_staged_part idle_host d u = (Ok (), u)" for d and u :: "machine world"
    by (simp add: cleanup_staged_part_def remove_dir_all_if_exists_def remove_file_if_exists_def
        io_bind_def host_call_def answering_def null_host_def io_return_def)
  show ?thesis
    unfolding upload_one_archive_def prod.case small_host content machine_crc Let_def small_collect
    using v out
    by (simp add: io_bind_def io_lift_def small_estimate with_progress_def idle_emit zip_sink_ok clean
        timed_progress_def io_return_def)
qed

theorem backup_restores_witness:
  "\<exists>y u w'. upload_one_archive (mem_env {}) idle_host plain_storage
      (mp_blob_hash round_part, ''s'', small_tree) new_machine = (Ok y, u) \<and>
    restore_part (mem_env {}) idle_host machine_disk plain_storage [''out''] False round_part u = (Ok (''d'', ''t'', ''p''), w') \<and>
    mc_fs (svc w') [''out'', ''data'', ''d'', ''t'', ''p'', ''a''] = Some (FFile [7])"
proof -
  obtain n u where up: "upload_one_archive (mem_env {}) idle_host plain_storage
       (mp_blob_hash round_part, ''s'', small_tree) new_machine = (Ok (mp_blob_hash round_part, n), u)"
    and u: "mc_fs (svc u) = [[] \<mapsto> FDir]" "\<not> guarded u" using small_upload by blast
  obtain r w' where run: "restore_part (mem_env {}) idle_host machine_disk plain_storage [''out''] False
      round_part u = (r, w')" by fastforce
  let ?c = "mem_lookup (svc u)" and ?k = "blob_object plain_storage (mp_blob_hash round_part)"
  let ?dest = "[''out'', ''data'', ''d'', ''t'', ''p'']"
  have names: "components ''d'' = [Normal ''d'']" "components ''t'' = [Normal ''t'']"
    "components ''p'' = [Normal ''p'']" "components ''data'' = [Normal ''data'']"
    by (simp_all add: components_def inner_components_def)
  have dest: "part_dest [''out''] False round_part = ?dest"
    by (simp add: part_dest_def part_components_def round_part_def names)
  have perm: "permuting (mem_env {} :: machine env)" by (simp add: permuting_def mem_machine)
  have host: "faithful_host (idle_host :: machine host)"
    by (simp add: faithful_host_def answering_def null_host_def)
  have ok: "tree_ok small_tree" by code_simp
  have sizes: "sizes_ok small_tree"
    unfolding sizes_ok_def walk_files [OF ok] by (simp add: small_tree_def)
  have disk: "private_disk (mem_env {}) idle_host machine_disk"
    by (simp add: private_disk_def machine_disk_def answering_def null_host_def)
  have sep: "separate_disk (mem_env {}) mem_lookup machine_disk"
    by (auto simp: separate_disk_def machine_disk_def mem_lookup_def fun_eq_iff split: option.split)
  have safe: "safe_part round_part" by (simp add: safe_part_def round_part_def names no_escape_def)
  have fresh: "fresh_dir (part_dest [''out''] False round_part) (d_get machine_disk (svc u))"
    unfolding dest by (auto simp: fresh_dir_def no_file_above_def machine_disk_def u(1))
  have os: "permits (d_os machine_disk)" by (simp add: machine_disk_def)
  note rt = backup_restores [OF stored.archive_site_axioms perm host plain_storage_simps(4,5)
      small_tree_def ok sizes up refl disk sep os safe fresh u(2) run]
  have "?c ?k \<noteq> None"
    using stored.archive_stored [OF up perm host plain_storage_simps(4,5)] by auto
  with rt have r: "r = Ok (''d'', ''t'', ''p'')"
    and fs: "mc_fs (svc w') = overlay ?dest (restored small_tree) (mc_fs (svc u))"
    unfolding dest by (auto simp: machine_disk_def round_part_def split: option.splits)
  have "mc_fs (svc w') [''out'', ''data'', ''d'', ''t'', ''p'', ''a''] = Some (FFile [7])"
    unfolding fs by (simp add: overlay_def restored_def small_tree_def)
  with up run r show ?thesis by blast
qed

section \<open>An upload that fails\<close>




end
