(* ===== verification/Snapshot_Roundtrip.thy ===== *)
theory Snapshot_Roundtrip
  imports Backup_Roundtrip
begin

text \<open>
  A whole backup and a whole restore. The hash of a part stands for the contents of its directory:
  \<open>T\<close> gives the tree a hash stands for. A bucket is faithful when every blob is the archive of the
  tree of its hash. A successful backup keeps the bucket faithful, and a successful restore from a
  faithful bucket puts the tree of its hash where each selected part belongs.
\<close>

section \<open>Staging links the tree it finds\<close>

text \<open>Directories and regular files, nothing else.\<close>

fun plain_tree :: "dir_tree \<Rightarrow> bool" where
  "plain_tree (TDir es) = (\<forall>(n, t) \<in> set es. plain_tree t)"
| "plain_tree (TFile c) = True"
| "plain_tree _ = False"

text \<open>The staging area is fresh: no link finds a file in its place.\<close>

definition fresh_links :: "stage_os \<Rightarrow> bool" where
  "fresh_links os \<longleftrightarrow> (\<forall>p c. so_link os p \<noteq> LinkExists c)"

lemma stage_tree_exact:
  "plain_tree t \<Longrightarrow> fresh_links os \<Longrightarrow> stage_tree os p t = (t', Inr k) \<Longrightarrow> t' = Some t"
  "(\<forall>(n, t) \<in> set es. plain_tree t) \<Longrightarrow> fresh_links os \<Longrightarrow> stage_entries os p es = (es', Inr k) \<Longrightarrow> es' = es"
proof (induction os p t and os p es arbitrary: t' k and es' k rule: stage_tree_stage_entries.induct)
  case (1 os p c)
  then show ?case by (auto simp: stage_file_def fresh_links_def split: link_outcome.splits if_splits)
next
  case (2 os p es)
  then show ?case by (auto split: if_splits prod.splits)
next
  case (7 os p n t es)
  then show ?case by (auto simp: Let_def bind_r_Inr_iff split: prod.splits sum.splits)
qed simp_all

lemma stage_root_exact:
  "plain_tree (TDir es) \<Longrightarrow> fresh_links os \<Longrightarrow> stage_root os (TDir es) = (t', Inr k) \<Longrightarrow> t' = TDir es"
  using stage_tree_exact(2) [of es os "[]"] by (auto simp: stage_root_def split: prod.splits)

text \<open>A slot with its marker holds the tree it should.\<close>

definition slot_true :: "dir_tree \<Rightarrow> slot \<Rightarrow> bool" where
  "slot_true t sl \<longleftrightarrow> (slot_marker sl \<longrightarrow> slot_dir sl = Some t)"

lemma stage_part_true:
  assumes "stage_part_dir os src found sl = (sl', r)" and "slot_true t sl"
    and "t = TDir es" and "plain_tree t" and "fresh_links os" and "found = None \<or> found = Some t"
  shows "slot_true t sl'" and "r = Inr k \<Longrightarrow> slot_dir sl' = Some t"
proof -
  have "slot_true t sl' \<and> (r = Inr k \<longrightarrow> slot_dir sl' = Some t)"
  proof (cases "found = None")
    case False
    with assms(6) have found: "found = Some t" by simp
    show ?thesis
    proof (cases "slot_marker sl")
      case True
      with assms(1,2) found show ?thesis by (auto simp: stage_part_dir_def slot_true_def)
    next
      case False
      obtain t' x where root: "stage_root os t = (t', x)" by fastforce
      have "t' = t" if "x = Inr k'" for k'
        using stage_root_exact [of es os t' k'] root assms(3-5) that by simp
      with assms(1,2) found False root show ?thesis
        by (auto simp: stage_part_dir_def slot_true_def Let_def split: if_splits sum.splits)
    qed
  qed (use assms(1,2) in \<open>auto simp: stage_part_dir_def\<close>)
  then show "slot_true t sl'" and "r = Inr k \<Longrightarrow> slot_dir sl' = Some t" by simp_all
qed

section \<open>What is staged under a hash\<close>

definition listed :: "'s host \<Rightarrow> config \<Rightarrow> part_info \<Rightarrow> bool" where
  "listed h cfg p \<longleftrightarrow> (\<exists>w ps w'. query_active_parts h cfg w = (Ok ps, w') \<and> p \<in> set ps)"

text \<open>
  The directory of a part that the server lists is the tree of its hash whenever it is there, and the
  staging area is fresh.
\<close>

definition shows_parts :: "(string \<Rightarrow> dir_tree) \<Rightarrow> 's host \<Rightarrow> config \<Rightarrow> bool" where
  "shows_parts T h cfg \<longleftrightarrow>
     (\<forall>p src w w' s t. listed h cfg p \<longrightarrow>
        resolve_part_path h p (cfg_ch_data_path cfg) w = (Ok src, w') \<longrightarrow>
        fst (h_tree h src s) = Some t \<longrightarrow> t = T (p_hash p)) \<and>
     (\<forall>dst s. fresh_links (fst (h_stage_os h dst s)))"

definition good_trees :: "(string \<Rightarrow> dir_tree) \<Rightarrow> bool" where
  "good_trees T \<longleftrightarrow>
     (\<forall>x. (\<exists>es. T x = TDir es) \<and> plain_tree (T x) \<and> tree_ok (T x) \<and> sizes_ok (T x))"

lemma good_treesE:
  assumes "good_trees T"
  obtains es where "T x = TDir es" "plain_tree (T x)" "tree_ok (T x)" "sizes_ok (T x)"
  using assms unfolding good_trees_def by blast

lemma listed_canonical: "listed h cfg p \<Longrightarrow> canonical_hash (p_hash p)"
  by (auto simp: listed_def intro: query_active_parts_canonical)

lemma canonical_length: "canonical_hash x \<Longrightarrow> length x = 32"
  by (auto simp: canonical_hash_def from_hex_def split: if_splits)

lemma path_join_ends: "\<exists>b. path_join base p = b @ p"
  by (auto simp: path_join_def)

lemma stage_dst_inj:
  assumes "canonical_hash x" and "canonical_hash y" and "stage_dst root x = stage_dst root y"
  shows "x = y"
proof -
  obtain b where b: "stage_dst root x = b @ x" unfolding stage_dst_def using path_join_ends by blast
  obtain c where c: "stage_dst root y = c @ y" unfolding stage_dst_def using path_join_ends by blast
  from b c assms(3) have "b @ x = c @ y" by simp
  with canonical_length [OF assms(1)] canonical_length [OF assms(2)] show ?thesis
    by (simp add: append_eq_append_conv)
qed

definition area_true :: "(string \<Rightarrow> dir_tree) \<Rightarrow> string \<Rightarrow> area \<Rightarrow> bool" where
  "area_true T root area \<longleftrightarrow> (\<forall>x. canonical_hash x \<longrightarrow> slot_true (T x) (area (stage_dst root x)))"

lemma area_true_empty: "area_true T root empty_area"
  by (simp add: area_true_def slot_true_def empty_area_def)

lemma area_true_upd:
  assumes "area_true T root area" and "canonical_hash x" and "slot_true (T x) sl"
  shows "area_true T root (area(stage_dst root x := sl))"
  using assms by (auto simp: area_true_def dest: stage_dst_inj [OF assms(2)] stage_dst_inj [OF _ assms(2)])

definition staged_true :: "(string \<Rightarrow> dir_tree) \<Rightarrow> staged_map \<Rightarrow> bool" where
  "staged_true T staged \<longleftrightarrow> (\<forall>(x, d, t) \<in> set staged. t = T x)"

lemma host_call_Ok: "host_call f w = (Ok x, w') \<Longrightarrow> x = fst (f (svc w))"
  by (auto simp: host_call_def split: prod.splits)

lemma stage_one_true:
  assumes site: "shows_parts T h cfg" "good_trees T" and p: "listed h cfg p" "x = p_hash p"
    and area: "area_true T root area"
    and run: "stage_one env h (cfg_ch_data_path cfg) root area (x, p) w = (Ok (area', r), w')"
  shows "area_true T root area'" and "r = Inr k \<Longrightarrow> slot_dir (area' (stage_dst root x)) = Some (T x)"
proof -
  let ?dst = "stage_dst root x"
  have canon: "canonical_hash x" using listed_canonical [OF p(1)] p(2) by simp
  from run obtain src there a v u where src: "resolve_part_path h p (cfg_ch_data_path cfg) u = (Ok src, v)"
    and rest: "(if \<not> there then
        io_bind (timed_progress env record_part_staged) (\<lambda>_. io_return (area, Inl (PartDirMissing src)))
      else
        io_bind (host_call (h_tree h src)) (\<lambda>t.
        io_bind (host_call (h_stage_os h ?dst)) (\<lambda>os.
        (case stage_part_dir os src t (area ?dst) of (sl, r) \<Rightarrow>
           io_bind (timed_progress env record_part_staged) (\<lambda>_.
           io_bind (case r of Inl e \<Rightarrow> io_return () | Inr k \<Rightarrow> emit h (PartStaged x k)) (\<lambda>_.
           io_return (area(?dst := sl), r))))))) a = (Ok (area', r), w')"
    unfolding stage_one_def Let_def prod.case by (elim io_bind_OkE) blast
  have "area_true T root area' \<and> (r = Inr k \<longrightarrow> slot_dir (area' ?dst) = Some (T x))"
  proof (cases there)
    case False
    with rest area show ?thesis by (auto simp: io_return_def elim!: io_bind_OkE)
  next
    case True
    with rest obtain t os b c d where t: "host_call (h_tree h src) a = (Ok t, b)"
      and os: "host_call (h_stage_os h ?dst) b = (Ok os, c)"
      and fin: "(case stage_part_dir os src t (area ?dst) of (sl, r) \<Rightarrow>
           io_bind (timed_progress env record_part_staged) (\<lambda>_.
           io_bind (case r of Inl e \<Rightarrow> io_return () | Inr k \<Rightarrow> emit h (PartStaged x k)) (\<lambda>_.
           io_return (area(?dst := sl), r)))) c = (Ok (area', r), w')"
      by (auto elim!: io_bind_OkE)
    obtain sl q where st: "stage_part_dir os src t (area ?dst) = (sl, q)" by fastforce
    from fin st have res: "area' = area(?dst := sl)" "r = q"
      by (auto simp: io_return_def elim!: io_bind_OkE)
    have found: "t = None \<or> t = Some (T x)"
      using site(1) p src host_call_Ok [OF t] unfolding shows_parts_def by (metis option.exhaust)
    have links: "fresh_links os" using site(1) host_call_Ok [OF os] by (simp add: shows_parts_def)
    obtain es where tree: "T x = TDir es" "plain_tree (T x)" using site(2) by (rule good_treesE)
    have old: "slot_true (T x) (area ?dst)" using area canon by (simp add: area_true_def)
    note sl = stage_part_true [OF st old tree links found]
    from area_true_upd [OF area canon sl(1)] sl(2) [of k] show ?thesis by (simp add: res)
  qed
  then show "area_true T root area'" and "r = Inr k \<Longrightarrow> slot_dir (area' ?dst) = Some (T x)" by simp_all
qed

definition entries_listed :: "'s host \<Rightarrow> config \<Rightarrow> (string \<times> part_info) list \<Rightarrow> bool" where
  "entries_listed h cfg es \<longleftrightarrow> (\<forall>(x, p) \<in> set es. listed h cfg p \<and> x = p_hash p)"

lemma stage_all_true:
  assumes site: "shows_parts T h cfg" "good_trees T"
  shows "stage_all env h (cfg_ch_data_path cfg) root area es w = (Ok (area', staged, missing), w') \<Longrightarrow>
    entries_listed h cfg es \<Longrightarrow> area_true T root area \<Longrightarrow> area_true T root area' \<and> staged_true T staged"
proof (induction es arbitrary: area area' staged missing w)
  case Nil
  then show ?case by (auto simp: io_return_def staged_true_def)
next
  case (Cons e es)
  obtain x p where e: "e = (x, p)" by fastforce
  from Cons.prems(2) e have p: "listed h cfg p" "x = p_hash p" and es: "entries_listed h cfg es"
    by (simp_all add: entries_listed_def)
  from Cons.prems(1) obtain a1 r u s1 m1 where one: "stage_one env h (cfg_ch_data_path cfg) root area (x, p) w = (Ok (a1, r), u)"
    and all: "stage_all env h (cfg_ch_data_path cfg) root a1 es u = (Ok (area', s1, m1), w')"
    and staged: "staged = (case (r, slot_dir (a1 (stage_dst root x))) of
        (Inr _, Some t) \<Rightarrow> (x, stage_dst root x, t) # s1 | _ \<Rightarrow> s1)"
    unfolding e stage_all.simps Let_def by (auto simp: io_return_def elim!: io_bind_OkE)
  note a1 = stage_one_true [OF site p Cons.prems(3) one]
  from Cons.IH [OF all es a1(1)] have ih: "area_true T root area'" "staged_true T s1" by simp_all
  with a1(2) staged show ?case by (auto simp: staged_true_def split: sum.splits option.splits)
qed

definition parts_listed :: "'s host \<Rightarrow> config \<Rightarrow> part_info list \<Rightarrow> bool" where
  "parts_listed h cfg ps \<longleftrightarrow> (\<forall>p \<in> set ps. listed h cfg p)"

text \<open>One answer to the query for the active parts.\<close>

definition answers :: "'s host \<Rightarrow> config \<Rightarrow> part_info list \<Rightarrow> bool" where
  "answers h cfg ps \<longleftrightarrow> (\<exists>w w'. query_active_parts h cfg w = (Ok ps, w'))"

lemma query_answers: "query_active_parts h cfg w = (Ok ps, w') \<Longrightarrow> answers h cfg ps"
  unfolding answers_def by blast

lemma answers_listed: "answers h cfg ps \<Longrightarrow> parts_listed h cfg ps"
  unfolding answers_def parts_listed_def listed_def by blast

lemma needed_listed: "parts_listed h cfg ps \<Longrightarrow> entries_listed h cfg (fst (parts_to_upload ps known))"
  using first_parts_set [of "{}" ps]
  by (auto simp: parts_listed_def entries_listed_def parts_to_upload_def Let_def)

lemma staged_true_append: "staged_true T a \<Longrightarrow> staged_true T b \<Longrightarrow> staged_true T (a @ b)"
  by (auto simp: staged_true_def)

lemma stage_loop_true:
  assumes site: "shows_parts T h cfg" "good_trees T"
  shows "stage_loop n env h cfg known root area staged parts w = (Ok (staged', parts'), w') \<Longrightarrow>
    answers h cfg parts \<Longrightarrow> area_true T root area \<Longrightarrow> staged_true T staged \<Longrightarrow>
    staged_true T staged' \<and> answers h cfg parts'"
proof (induction n arbitrary: area staged parts w)
  case 0
  then show ?case by (simp add: io_return_def)
next
  case (Suc n)
  let ?need = "filter (\<lambda>(hash, p). hash \<notin> staged_hashes staged) (fst (parts_to_upload parts known))"
  show ?case
  proof (cases "?need = []")
    case True
    with Suc.prems show ?thesis by (simp add: Let_def case_prod_beta io_return_def)
  next
    case False
    from False Suc.prems(1) obtain area' new missing u where
      cas: "stage_parts_cas env h (cfg_ch_data_path cfg) root area ?need w = (Ok (area', new, missing), u)"
      and rest: "(if missing = [] then io_return (staged @ new, parts)
        else if n = 0 then io_fail (PartsDisappeared (length missing))
        else io_bind (query_active_parts h cfg) (\<lambda>parts'.
            stage_loop n env h cfg known root area' (staged @ new) parts')) u = (Ok (staged', parts'), w')"
      by (auto simp: Let_def case_prod_beta elim!: io_bind_OkE)
    have "entries_listed h cfg ?need"
      using needed_listed [OF answers_listed [OF Suc.prems(2)], of known] by (auto simp: entries_listed_def)
    with cas Suc.prems(3) have new: "area_true T root area'" "staged_true T new"
      using stage_all_true [OF site] by (auto simp: stage_parts_cas_def elim!: io_bind_OkE)
    note all = staged_true_append [OF Suc.prems(4) new(2)]
    show ?thesis
    proof (cases "missing = []")
      case True
      with rest all Suc.prems(2) show ?thesis by (auto simp: io_return_def)
    next
      case False
      with rest obtain ps v where q: "query_active_parts h cfg u = (Ok ps, v)"
        and l: "stage_loop n env h cfg known root area' (staged @ new) ps v = (Ok (staged', parts'), w')"
        by (auto simp: io_fail_def elim!: io_bind_OkE split: if_splits)
      from Suc.IH [OF l query_answers [OF q] new(1) all] show ?thesis .
    qed
  qed
qed

lemma metadata_loop_answers:
  "metadata_loop n env h cfg parts w = (Ok (files, parts'), w') \<Longrightarrow> answers h cfg parts \<Longrightarrow>
     answers h cfg parts'"
proof (induction n arbitrary: parts w)
  case 0
  then show ?case by (simp add: io_fail_def)
next
  case (Suc n)
  from Suc.prems(1) consider "parts' = parts"
    | ps u v where "query_active_parts h cfg u = (Ok ps, v)" "metadata_loop n env h cfg ps v = (Ok (files, parts'), w')"
    by (auto simp: io_match_def io_return_def io_fail_def elim!: io_bind_OkE split: prod.splits outcome.splits if_splits)
  then show ?case
  proof cases
    case 1
    with Suc.prems(2) show ?thesis by simp
  next
    case 2
    from Suc.IH [OF 2(2) query_answers [OF 2(1)]] show ?thesis .
  qed
qed

section \<open>Faithful buckets\<close>

definition archive_of :: "(bytes \<Rightarrow> u32) \<Rightarrow> dir_tree \<Rightarrow> bytes \<Rightarrow> bool" where
  "archive_of crc t z \<longleftrightarrow>
     (\<exists>dir files n. collect_files dir t = Inr files \<and> write_zip crc (tree_content dir t) files = Inr (z, n))"

definition faithful ::
  "(string \<Rightarrow> dir_tree) \<Rightarrow> (bytes \<Rightarrow> u32) \<Rightarrow> storage \<Rightarrow> (string \<Rightarrow> bytes option) \<Rightarrow> bool"
where
  "faithful T crc st c \<longleftrightarrow> (\<forall>x z. c (blob_object st x) = Some z \<longrightarrow> archive_of crc (T x) z)"

text \<open>A step that keeps \<open>P\<close> and whose value satisfies \<open>V\<close>, with no claim about its failure.\<close>

lemma triple_value:
  assumes "keeps P m" and "\<And>w x w'. m w = (Ok x, w') \<Longrightarrow> V x"
  shows "triple (\<lambda>_. True) P m (\<lambda>x s. P s \<and> V x)"
  using assms by (intro tripleI) (auto dest: keepsD split: outcome.split)

lemma triple_plain: "keeps P m \<Longrightarrow> triple (\<lambda>_. True) P m (\<lambda>_. P)"
  by (rule triple_keeps) simp_all

lemma attempts_all_Ok:
  assumes "\<And>e w x w'. e \<in> set es \<Longrightarrow> P (svc w) \<Longrightarrow> f e w = (Ok x, w') \<Longrightarrow> P (svc w')"
  shows "io_map (\<lambda>e. attempt (f e)) es w = (Ok rs, w') \<Longrightarrow> map_r (\<lambda>r. r) rs = Inr xs \<Longrightarrow> P (svc w) \<Longrightarrow> P (svc w')"
  using assms
proof (induction es arbitrary: w rs xs)
  case Nil
  then show ?case by (simp add: io_return_def)
next
  case (Cons e es)
  from Cons.prems(1) obtain r u rs' where r: "attempt (f e) w = (Ok r, u)" and rs: "rs = r # rs'"
    and rest: "io_map (\<lambda>e. attempt (f e)) es u = (Ok rs', w')"
    by (auto simp: io_return_def elim!: io_bind_OkE)
  from Cons.prems(2) rs obtain x ys where x: "r = Inr x" and ys: "map_r (\<lambda>r. r) rs' = Inr ys"
    by (auto simp: bind_r_Inr_iff)
  from r x have "f e w = (Ok x, u)" using attempt_Ok_Inr by metis
  then have "P (svc u)" using Cons.prems(3,4) by (meson list.set_intros(1))
  with Cons.IH [OF rest ys] Cons.prems(4) show ?case by (meson list.set_intros(2))
qed

section \<open>A backup keeps the bucket faithful\<close>

text \<open>The manifest names the parts of an answer, and is the object of its name.\<close>

definition part_names :: "part_info \<Rightarrow> string \<times> string \<times> string \<times> string" where
  "part_names p = (p_database p, p_table p, p_name p, p_hash p)"

definition entry_names :: "manifest_part \<Rightarrow> string \<times> string \<times> string \<times> string" where
  "entry_names p = (mp_database p, mp_table_name p, mp_part_name p, mp_blob_hash p)"

definition snapshot_of :: "'s host \<Rightarrow> manifest_codec \<Rightarrow> storage \<Rightarrow> config \<Rightarrow> string \<Rightarrow> (string \<Rightarrow> bytes option) \<Rightarrow> bool" where
  "snapshot_of h cd st cfg n c \<longleftrightarrow> (\<exists>ps m b. answers h cfg ps \<and>
     map entry_names (m_parts m) = map part_names ps \<and> enc_manifest cd m = Some b \<and>
     c (manifest_object st n) = Some b)"

context archive_site
begin

lemma upload_one_other:
  assumes "x \<noteq> hash"
  shows "unseen (\<lambda>c. c (blob_object st x) = b) (upload_one_archive env h st (hash, dir, t))"
proof -
  have put: "unseen (\<lambda>c. c (blob_object st x) = b)
      (put_object_multipart_reader env st (blob_remote_key hash) r sz (\<lambda>b. emit h (ev b)))" for r sz ev
    by (rule unseen_upload) (use assms in \<open>simp add: complete_frame\<close>)
  show ?thesis
    unfolding upload_one_archive_def prod.case Let_def
    by (auto intro!: keeps_intros put unseen_cleanup unseen_host split: prod.split)
qed

lemma upload_one_faithful:
  assumes run: "upload_one_archive env h st (hash, dir, T hash) w = (Ok y, w')"
    and site: "permuting env" "faithful_host h"
    and bounds: "MULTIPART_MIN_CHUNK \<le> min_chunk_size st" "MULTIPART_MIN_CHUNK \<le> max_chunk_size st"
    and old: "faithful T (crc32 env) st (objs (svc w))"
  shows "faithful T (crc32 env) st (objs (svc w'))"
  unfolding faithful_def
proof (intro allI impI)
  fix x z assume z: "objs (svc w') (blob_object st x) = Some z"
  show "archive_of (crc32 env) (T x) z"
  proof (cases "x = hash")
    case True
    from run obtain n where "upload_one_archive env h st (hash, dir, T hash) w = (Ok (fst y, n), w')"
      by (cases y) simp
    from archive_stored [OF this site bounds] z True show ?thesis by (auto simp: archive_of_def)
  next
    case False
    have "objs (svc w') (blob_object st x) = objs (svc w) (blob_object st x)"
      by (rule keepsD [where I = "\<lambda>s. objs s (blob_object st x) = objs (svc w) (blob_object st x)",
            OF upload_one_other [OF False] refl run])
    with z old show ?thesis by (simp add: faithful_def)
  qed
qed

lemma upload_archives_faithful:
  assumes site: "permuting env" "faithful_host h"
    and bounds: "MULTIPART_MIN_CHUNK \<le> min_chunk_size st" "MULTIPART_MIN_CHUNK \<le> max_chunk_size st"
    and dirs: "staged_true T dirs"
  shows "triple (\<lambda>_. True) (\<lambda>s. faithful T (crc32 env) st (objs s)) (upload_part_archives env h st dirs)
    (\<lambda>_ s. faithful T (crc32 env) st (objs s))"
proof (rule tripleI)
  fix w r w'
  assume old: "faithful T (crc32 env) st (objs (svc w))" and run: "upload_part_archives env h st dirs w = (r, w')"
  have "faithful T (crc32 env) st (objs (svc w'))" if ok: "r = Ok new" for new
  proof -
    from run ok obtain u rs where "timed_progress env (set_upload_total (word_of_nat (length dirs))) w = (Ok x, u)"
      and io: "io_map (\<lambda>e. attempt (upload_one_archive env h st e)) dirs u = (Ok rs, w')"
      and xs: "map_r (\<lambda>r. r) rs = Inr new" and same: "svc u = svc w" for x
      by (auto simp: upload_part_archives_def io_lift_def timed_progress_def with_progress_def io_bind_def
          split: sum.splits outcome.splits prod.splits)
    show ?thesis
    proof (rule attempts_all_Ok [where P = "\<lambda>s. faithful T (crc32 env) st (objs s)", OF _ io xs])
      fix e a x a'
      assume e: "e \<in> set dirs" and f: "faithful T (crc32 env) st (objs (svc a))"
        and one: "upload_one_archive env h st e a = (Ok x, a')"
      obtain hash dir t where h: "e = (hash, dir, t)" by (metis prod_cases3)
      with e dirs have "t = T hash" by (auto simp: staged_true_def)
      with one h have "upload_one_archive env h st (hash, dir, T hash) a = (Ok x, a')" by simp
      from upload_one_faithful [OF this site bounds f]
      show "faithful T (crc32 env) st (objs (svc a'))" .
    qed (use old same in simp)
  qed
  then show "case r of Ok _ \<Rightarrow> faithful T (crc32 env) st (objs (svc w')) | _ \<Rightarrow> True"
    by (simp split: outcome.split)
qed

lemma upload_phase_faithful:
  assumes site: "permuting env" "faithful_host h"
    and bounds: "MULTIPART_MIN_CHUNK \<le> min_chunk_size st" "MULTIPART_MIN_CHUNK \<le> max_chunk_size st"
    and staged: "staged_true T staged"
  shows "triple (\<lambda>_. True) (\<lambda>s. faithful T (crc32 env) st (objs s))
    (upload_phase env h st root known sizes head staged parts) (\<lambda>_ s. faithful T (crc32 env) st (objs s))"
proof -
  have dirs: "staged_true T (upload_dirs staged need head)" for need
    using staged by (auto simp: staged_true_def upload_dirs_def)
  note plain = triple_plain [where P = "\<lambda>s. faithful T (crc32 env) st (objs s)"]
  show ?thesis
    unfolding upload_phase_def Let_def
    by (rule triple_bind [OF plain [OF keeps_pure(5)]],
        rule triple_bind [OF plain [OF unseen_cleanups [where P = "faithful T (crc32 env) st"]]],
        rule triple_bind [OF upload_archives_faithful [OF site bounds dirs]],
        rule triple_bind [OF plain [OF unseen_remove_dir [where P = "faithful T (crc32 env) st"]]],
        rule plain [OF keeps_pure(5)])
qed

lemma write_manifest_faithful:
  "unseen (faithful T crc st) (write_manifest env cd st m)"
proof -
  have put: "faithful T crc st (objs (snd (s3_put env (manifest_object st n) b im inm s)))"
    if "faithful T crc st (objs s)" for n b im inm s
    using that by (simp add: faithful_def put_frame)
  show ?thesis
    unfolding write_manifest_def put_object_conditional_def Let_def
    by (auto intro!: keeps_intros put simp: manifest_object_def [symmetric] split: sum.split prod.split)
qed

lemma head_check_unseen: "unseen P (head_check_existing env h st hs)"
  unfolding head_check_existing_def head_check_one_def object_exists_def Let_def
  by (auto intro!: keeps_intros keeps_map unseen_host simp: head_reads split: sum.split option.split)

lemma load_known_unseen: "unseen P (load_known_from_latest_manifest env cd st sh re)"
  unfolding load_known_from_latest_manifest_def
  by (auto intro!: keeps_intros keeps_objs [OF list_names_keeps] keeps_objs [OF read_manifest_keeps]
      split: option.split)

lemma resolved_names:
  assumes "resolve_manifest_parts known new head ps = Inr mps"
  shows "map entry_names mps = map part_names ps"
proof -
  from assms obtain f where "map_r (manifest_part_of f) ps = Inr mps"
    by (auto simp: resolve_manifest_parts_def bind_r_Inr_iff)
  then show ?thesis
    by (induction ps arbitrary: mps)
       (auto simp: bind_r_Inr_iff manifest_part_of_def entry_names_def part_names_def split: option.splits)
qed

lemma upload_phase_names:
  "upload_phase env h st root known sizes head staged ps w = (Ok mps, w') \<Longrightarrow>
     map entry_names mps = map part_names ps"
  by (auto simp: upload_phase_def Let_def io_lift_def [of "resolve_manifest_parts _ _ _ _"]
      elim!: io_bind_OkE split: sum.splits intro: resolved_names)

lemma write_manifest_stored:
  assumes "write_manifest env cd st m w = (Ok x, w')"
  shows "\<exists>b. enc_manifest cd m = Some b \<and> objs (svc w') (manifest_object st (m_name m)) = Some b"
proof -
  from assms obtain b u v y where enc: "enc_manifest cd m = Some b"
    and put: "await env (ReqPut (manifest_object st (m_name m)) b None True)
      (s3_put env (manifest_object st (m_name m)) b None True) u = (Ok (Inr y), w')"
    by (auto simp: write_manifest_def encode_def io_lift_def put_object_conditional_def manifest_object_def
        io_return_def io_fail_def Let_def elim!: io_bind_OkE split: option.splits sum.splits if_splits)
  from await_svc [OF put] put_done have "objs (svc w') (manifest_object st (m_name m)) = Some b" by blast
  with enc show ?thesis by blast
qed

lemma snapshot_body_faithful:
  assumes site: "permuting env" "faithful_host h" "shows_parts T h cfg" "good_trees T"
    and bounds: "MULTIPART_MIN_CHUNK \<le> min_chunk_size st" "MULTIPART_MIN_CHUNK \<le> max_chunk_size st"
    and parts: "answers h cfg parts"
  shows "triple (\<lambda>_. True) (\<lambda>s. faithful T (crc32 env) st (objs s))
    (snapshot_body env h cd cfg st n ts sh re root known sizes parts)
    (\<lambda>x s. x = n \<and> faithful T (crc32 env) st (objs s) \<and> snapshot_of h cd st cfg n (objs s))"
proof -
  let ?F = "faithful T (crc32 env) st"
  note plain = triple_plain [where P = "\<lambda>s. ?F (objs s)"]
  have stage: "triple (\<lambda>_. True) (\<lambda>s. ?F (objs s))
      (stage_loop MAX_STAGING_ITERATIONS env h cfg known root empty_area [] parts)
      (\<lambda>x s. ?F (objs s) \<and> staged_true T (fst x) \<and> answers h cfg (snd x))"
  proof (rule triple_value [OF unseen_stage_loop])
    fix w x w'
    assume "stage_loop MAX_STAGING_ITERATIONS env h cfg known root empty_area [] parts w = (Ok x, w')"
    then show "staged_true T (fst x) \<and> answers h cfg (snd x)"
      using stage_loop_true [OF site(3,4) _ parts area_true_empty, of MAX_STAGING_ITERATIONS env known root "[]" w
          "fst x" "snd x" w'] by (simp add: staged_true_def)
  qed
  have meta: "triple (\<lambda>_. True) (\<lambda>s. ?F (objs s)) (metadata_loop MAX_STAGING_ITERATIONS env h cfg ps)
      (\<lambda>x s. ?F (objs s) \<and> answers h cfg (snd x))" if "answers h cfg ps" for ps
    by (rule triple_value [OF unseen_metadata_loop]) (metis metadata_loop_answers that prod.collapse)
  have upload: "triple (\<lambda>_. True) (\<lambda>s. ?F (objs s)) (upload_phase env h st root known sizes head staged ps)
      (\<lambda>mps s. ?F (objs s) \<and> map entry_names mps = map part_names ps)"
    if "staged_true T staged" for staged ps head
    using upload_phase_faithful [OF site(1,2) bounds that] upload_phase_names
    unfolding triple_def by (fastforce split: outcome.splits)
  have last: "triple (\<lambda>_. True) (\<lambda>s. ?F (objs s))
     (io_bind (write_manifest env cd st m) (\<lambda>_. io_bind (emit h (BackupComplete n)) (\<lambda>_. io_return n)))
     (\<lambda>x s. x = n \<and> ?F (objs s) \<and> snapshot_of h cd st cfg n (objs s))"
    if m: "m_name m = n" "map entry_names (m_parts m) = map part_names ps" and ps: "answers h cfg ps" for m ps
  proof (rule triple_bind)
    show "triple (\<lambda>_. True) (\<lambda>s. ?F (objs s)) (write_manifest env cd st m)
        (\<lambda>_ s. ?F (objs s) \<and> snapshot_of h cd st cfg n (objs s))"
    proof (rule tripleI)
      fix w r w'
      assume f: "?F (objs (svc w))" and run: "write_manifest env cd st m w = (r, w')"
      have "?F (objs (svc w'))"
        by (rule keepsD [where I = "\<lambda>s. ?F (objs s)", OF write_manifest_faithful f run])
      then show "case r of Ok _ \<Rightarrow> ?F (objs (svc w')) \<and> snapshot_of h cd st cfg n (objs (svc w')) | _ \<Rightarrow> True"
        using write_manifest_stored [of cd st m w _ w'] run m ps
        by (auto simp: snapshot_of_def split: outcome.split)
    qed
    show "triple (\<lambda>_. True) (\<lambda>s. ?F (objs s) \<and> snapshot_of h cd st cfg n (objs s))
        (io_bind (emit h (BackupComplete n)) (\<lambda>_. io_return n))
        (\<lambda>x s. x = n \<and> ?F (objs s) \<and> snapshot_of h cd st cfg n (objs s))"
      by (rule triple_bind [OF triple_plain [OF unseen_host(4)
            [where P = "\<lambda>c. ?F c \<and> snapshot_of h cd st cfg n c"]]], rule triple_return) simp
  qed
  show ?thesis
    unfolding snapshot_body_def case_prod_beta
    by (rule triple_bind [OF plain [OF head_check_unseen [where P = ?F]]],
        rule triple_bind [OF stage], rule triple_pure, elim conjE,
        rule triple_bind [OF meta], assumption, rule triple_pure,
        rule triple_bind [OF upload], assumption, rule triple_pure, rule last, simp,
        unfold manifest.select_convs, assumption, assumption)
qed

lemma create_snapshot_faithful:
  assumes site: "permuting env" "faithful_host h" "shows_parts T h cfg" "good_trees T"
    and st: "init_storage cfg = Inr (st, counters)"
    and bounds: "MULTIPART_MIN_CHUNK \<le> min_chunk_size st" "MULTIPART_MIN_CHUNK \<le> max_chunk_size st"
  shows "triple (\<lambda>_. True) (\<lambda>s. faithful T (crc32 env) st (objs s))
    (create_snapshot env h cd cfg name)
    (\<lambda>n s. faithful T (crc32 env) st (objs s) \<and> snapshot_of h cd st cfg n (objs s))"
proof -
  let ?F = "faithful T (crc32 env) st"
  note plain = triple_plain [where P = "\<lambda>s. ?F (objs s)"]
  note step = triple_bind [OF plain]
  have lift: "io_bind (io_lift (Inr x)) f = f x" for x and f :: "_ \<Rightarrow> ('s, 'c) io"
    by (simp add: io_lift_def io_bind_def fun_eq_iff)
  have query: "triple (\<lambda>_. True) (\<lambda>s. ?F (objs s)) (query_active_parts h cfg)
      (\<lambda>ps s. ?F (objs s) \<and> answers h cfg ps)"
    by (rule triple_value [OF unseen_active_parts query_answers])
  have auto_name: "unseen ?F (case name of Some n \<Rightarrow> io_return n | None \<Rightarrow>
      io_bind (host_call (h_uuid h)) (\<lambda>uuid. io_return (build_auto_name cd sh re ts uuid)))" for sh re ts
    by (auto intro!: keeps_intros unseen_host split: option.split)
  have body: "triple (\<lambda>_. True) (\<lambda>s. ?F (objs s))
      (with_staging_cleanup h root (snapshot_body env h cd cfg st n ts sh re root known sizes parts))
      (\<lambda>n s. ?F (objs s) \<and> snapshot_of h cd st cfg n (objs s))" if "answers h cfg parts" for n ts sh re root known sizes parts
  proof (rule tripleI)
    fix w r w'
    assume p: "?F (objs (svc w))"
      and run: "with_staging_cleanup h root (snapshot_body env h cd cfg st n ts sh re root known sizes parts) w = (r, w')"
    obtain x u where m: "snapshot_body env h cd cfg st n ts sh re root known sizes parts w = (x, u)" by fastforce
    obtain y v where y: "attempt (remove_dir_all_if_exists h root) u = (y, v)" by fastforce
    from run m y have r: "r = x" "w' = v" by (auto simp: with_staging_cleanup_def)
    have "objs (svc v) = objs (svc u)"
      by (rule keepsD [where I = "\<lambda>s. objs s = objs (svc u)", OF keeps_attempt [OF remove_dir_same] refl y])
    then show "case r of Ok n \<Rightarrow> ?F (objs (svc w')) \<and> snapshot_of h cd st cfg n (objs (svc w')) | _ \<Rightarrow> True"
      using snapshot_body_faithful [OF site bounds that, unfolded triple_def, rule_format, OF p m]
      by (simp add: r split: outcome.splits)
  qed
  show ?thesis
    unfolding create_snapshot_def Let_def st lift case_prod_beta prod.sel
    by (rule step [OF keeps_pure(6)], rule step [OF keeps_pure(7)],
        rule triple_bind [OF query], rule triple_pure,
        rule step [OF unseen_identity [where P = ?F]], rule step [OF auto_name],
        rule step [OF load_known_unseen [where P = ?F]],
        rule step [OF keeps_if [OF keeps_pure(7) keeps_pure(1)]],
        rule step [OF unseen_host(4) [where P = ?F]], rule step [OF unseen_create_dir [where P = ?F]],
        rule step [OF unseen_cleanup_dirs [where P = ?F]],
        rule step [OF unseen_create_dir [where P = ?F]], rule body)
qed

end

section \<open>Paths that do not meet\<close>

definition apart :: "path \<Rightarrow> path \<Rightarrow> bool" where
  "apart p q \<longleftrightarrow> \<not> prefix p q \<and> \<not> prefix q p"

lemma apart_branches: "prefix (a @ [m]) p \<Longrightarrow> prefix (a @ [n]) q \<Longrightarrow> m \<noteq> n \<Longrightarrow> apart p q"
  by (auto simp: apart_def prefix_def)

lemma apart_overlay: "apart p q \<Longrightarrow> overlay p g s (q @ r) = s (q @ r)"
  using prefix_same_cases [of p "q @ r" q] by (auto simp: apart_def overlay_def dest: append_prefixD)

lemma fresh_overlay:
  assumes "apart p q" and "fresh_dir q s"
  shows "fresh_dir q (overlay p g s)"
proof -
  have "overlay p g s r \<noteq> Some (FFile c)" if "prefix r q" for r c
  proof (cases "prefix p r")
    case True
    with that assms(1) show ?thesis by (auto simp: apart_def dest: prefix_order.trans)
  next
    case False
    with that assms(2) show ?thesis by (auto simp: overlay_def fresh_dir_def no_file_above_def)
  qed
  moreover have "overlay p g s r = None" if r: "strict_prefix q r" for r
  proof -
    have "\<not> prefix p r" using assms(1) r prefix_same_cases [of p r q] by (auto simp: apart_def strict_prefix_def)
    moreover have "\<not> prefix r p" using assms(1) r by (auto simp: apart_def strict_prefix_def dest: prefix_order.trans)
    ultimately show ?thesis using assms(2) r by (simp add: overlay_def fresh_dir_def)
  qed
  ultimately show ?thesis by (simp add: fresh_dir_def no_file_above_def)
qed

text \<open>Only nodes on the way to \<open>p\<close> change, to directories above it.\<close>

definition along :: "path \<Rightarrow> fs \<Rightarrow> fs \<Rightarrow> bool" where
  "along p s s' \<longleftrightarrow> (\<forall>q. s' q \<noteq> s q \<longrightarrow> prefix q p \<and> (s' q = Some FDir \<or> q = p))"

lemma along_refl [simp]: "along p s s"
  by (simp add: along_def)

lemma along_trans: "along p s s1 \<Longrightarrow> along p s1 s2 \<Longrightarrow> along p s s2"
  unfolding along_def by metis

lemma along_bind:
  assumes "\<And>s. along p s (fst (m s))" and "\<And>x s. along p s (fst (f x s))"
  shows "along p s (fst (fs_bind m f s))"
  using assms(1) [of s] assms(2) along_trans
  by (auto simp: fs_bind_def split: prod.splits sum.splits)

lemma along_mkdir: "prefix q p \<Longrightarrow> along p s (fst (mkdir_one os q s))"
  by (auto simp: mkdir_one_def along_def split: option.splits fnode.splits)

lemma along_dirs: "no_escape cs \<Longrightarrow> prefix (foldl step_path d cs) p \<Longrightarrow> along p s (fst (create_dirs_along os d cs s))"
proof (induction os d cs arbitrary: s rule: create_dirs_along.induct)
  case (2 os d n cs)
  have esc: "no_escape cs" using "2.prems"(1) by (simp add: no_escape_def)
  have "prefix (d @ [n]) (foldl step_path (d @ [n]) cs)" by (rule steps_under [OF esc]) simp
  with "2.prems"(2) have "prefix (d @ [n]) p" by (auto dest: prefix_order.trans)
  with "2.IH" [OF esc] "2.prems"(2) show ?case by (auto intro!: along_bind along_mkdir)
qed (auto simp: fs_return_def no_escape_def)

lemma along_write:
  assumes "no_escape (components rel)"
  shows "along (foldl step_path d (components rel)) s (fst (write_file_join os d rel content s))"
proof -
  let ?cs = "components rel" and ?p = "foldl step_path d (components rel)"
  have up: "prefix (foldl step_path d (butlast ?cs)) ?p"
  proof (cases "?cs = []")
    case False
    then have cs: "?cs = butlast ?cs @ [last ?cs]" by simp
    have "last ?cs \<in> set ?cs" using False by simp
    then have "no_escape [last ?cs]" using assms by (auto simp: no_escape_def)
    from steps_under [OF this, of "foldl step_path d (butlast ?cs)"]
    show ?thesis by (subst (2) cs) simp
  qed simp
  have "along ?p s (fst (create_dirs_along os d (butlast ?cs) s))" for s
    by (rule along_dirs [OF butlast_no_escape [OF assms] up])
  moreover have "along ?p s (fst (file_create os ?p s))" "along ?p s (fst (file_append os ?p a b s))" for s a b
    by (auto simp: file_create_def file_append_def along_def)
  moreover have "along ?p s (fst (fs_lift r s))" for s and r :: "unit result" by (simp add: fs_lift_def)
  ultimately show ?thesis
    unfolding write_file_join_def Let_def by (auto intro!: along_bind)
qed

lemma along_fresh:
  assumes "along p s s'" and "\<not> prefix p q" and "\<not> strict_prefix q p" and "fresh_dir q s"
  shows "fresh_dir q s'"
proof -
  have "s' r \<noteq> Some (FFile c)" if "prefix r q" for r c
    using assms that unfolding along_def fresh_dir_def no_file_above_def
    by (metis fnode.distinct(1) option.inject)
  moreover have "s' r = None" if "strict_prefix q r" for r
    using assms that unfolding along_def fresh_dir_def
    by (metis prefix_order.less_le_trans)
  ultimately show ?thesis by (simp add: fresh_dir_def no_file_above_def)
qed

section \<open>Restoring from a faithful bucket\<close>

lemma archive_extracted:
  assumes "archive_of crc t z" and "t = TDir es" "tree_ok t" "sizes_ok t"
    and "permits os" and "faithful_host h" and "fresh_dir dest s"
  shows "extract_zip os crc (h_chunks h z, False) dest s = (overlay dest (restored t) s, Inr ())"
proof -
  from assms(1) obtain dir files n where a: "collect_files dir t = Inr files"
    "write_zip crc (tree_content dir t) files = Inr (z, n)" by (auto simp: archive_of_def)
  have pend: "pending (h_chunks h z, False) = z" using assms(6) by (simp add: pending_def faithful_host_def)
  show ?thesis
    by (rule extract_tree [OF assms(5,3) _ a(1) tree_content_holds [OF assms(3,2)] assms(4) a(2) pend assms(7)])
       (use assms(2) in blast)
qed

definition reading_site ::
  "'s env \<Rightarrow> 's host \<Rightarrow> 's disk \<Rightarrow> ('s \<Rightarrow> string \<Rightarrow> bytes option) \<Rightarrow> bool"
where
  "reading_site env h d objs \<longleftrightarrow>
     private_disk env h d \<and> separate_disk env objs d \<and> reads_truly env objs \<and>
     (\<forall>k s. objs (snd (s3_get env k s)) = objs s) \<and> permits (d_os d) \<and> faithful_host h"

lemma restore_part_Ok:
  assumes site: "reading_site env h d objs" and T: "good_trees T"
    and store: "faithful T (crc32 env) st (objs (svc w))"
    and safe: "safe_part p" and fresh: "fresh_dir (part_dest out attach p) (d_get d (svc w))"
    and run: "restore_part env h d st out attach p w = (Ok x, w')"
  shows "d_get d (svc w') = overlay (part_dest out attach p) (restored (T (mp_blob_hash p))) (d_get d (svc w)) \<and>
    objs (svc w') = objs (svc w)"
proof -
  let ?dest = "part_dest out attach p" and ?cs = "part_components attach p"
  let ?key = "blob_object st (mp_blob_hash p)"
  have put: "d_get d (d_put d f s) = f" "objs (d_put d f s) = objs s" for f s
    using site by (simp_all add: reading_site_def private_disk_def separate_disk_def)
  have os: "permits (d_os d)" and host: "faithful_host h" using site by (simp_all add: reading_site_def)
  have "no_file_above ?dest (d_get d (svc w))" using fresh by (simp add: fresh_dir_def)
  from create_along_ok [OF os safe_part_components [OF safe] this [unfolded part_dest_def]] obtain s' where
    dirs: "create_dirs_along (d_os d) out ?cs (d_get d (svc w)) = (s', Inr ())"
    and same: "\<forall>q. s' q = d_get d (svc w) q \<or> prefix q ?dest \<and> s' q = Some FDir"
    unfolding part_dest_def by blast
  note ov = overlay_along [OF same]
  let ?u = "w\<lparr>svc := d_put d s' (svc w)\<rparr>"
  have made: "fs_io d (create_dirs_along (d_os d) out ?cs) w = (Ok (), ?u)" by (simp add: fs_io_def dirs)
  obtain u where u: "u = ?u" "svc u = d_put d s' (svc w)" by simp
  from run obtain reader v where get: "get_object_stream env h d st (blob_remote_key (mp_blob_hash p)) u = (Ok reader, v)"
    and ex: "fs_io d (extract_zip (d_os d) (crc32 env) reader ?dest) v = (Ok (), w')"
    unfolding restore_part_def Let_def part_dest_def [symmetric]
    unfolding io_bind_Ok [where m = "fs_io d (create_dirs_along (d_os d) out ?cs)" and w = w, OF made] u(1) [symmetric]
    by (auto simp: io_return_def elim!: io_bind_OkE)
  from get obtain body where body: "s3_get env ?key (svc u) = (Inr body, svc v)"
    and reader: "reader = (case body of Some b \<Rightarrow> (h_chunks h b, False)
      | None \<Rightarrow> (d_partial d (blob_remote_key (mp_blob_hash p)), True))"
    by (auto simp: get_object_stream_def send_def blob_object_def io_return_def io_fail_def Let_def
        elim!: io_bind_OkE dest!: await_svc split: sum.splits)
  obtain z where z: "body = Some z"
    using site body unfolding reading_site_def separate_disk_def by (metis fst_conv option.exhaust)
  have "objs (svc u) ?key = Some z"
    using site body z unfolding reading_site_def reads_truly_def by blast
  then have arch: "archive_of (crc32 env) (T (mp_blob_hash p)) z"
    using store by (simp add: u(2) put faithful_def)
  have dv: "d_get d (svc v) = s'" "objs (svc v) = objs (svc w)"
    using site body u(2) put unfolding reading_site_def private_disk_def by (metis snd_conv)+
  obtain es where t: "T (mp_blob_hash p) = TDir es" "tree_ok (T (mp_blob_hash p))" "sizes_ok (T (mp_blob_hash p))"
    using T by (rule good_treesE)
  have "extract_zip (d_os d) (crc32 env) reader ?dest s' = (overlay ?dest (restored (T (mp_blob_hash p))) s', Inr ())"
    unfolding reader z option.case
    by (rule archive_extracted [OF arch t os host ov(2) [OF fresh]])
  with ex dv put ov(1) show ?thesis by (auto simp: fs_io_def)
qed

text \<open>The directories of the parts do not meet, and the other files are not under \<open>data\<close>.\<close>

definition parts_apart :: "path \<Rightarrow> bool \<Rightarrow> manifest_part list \<Rightarrow> bool" where
  "parts_apart out attach ps \<longleftrightarrow>
     sorted_wrt (\<lambda>p q. apart (part_dest out attach p) (part_dest out attach q)) ps"

definition file_aside :: "manifest_file \<Rightarrow> bool" where
  "file_aside f \<longleftrightarrow> no_escape (components (mf_path f)) \<and>
     (\<exists>n cs. components (mf_path f) = Normal n # cs \<and> n \<noteq> ''data'')"

definition parts_fresh :: "path \<Rightarrow> bool \<Rightarrow> manifest_part list \<Rightarrow> fs \<Rightarrow> bool" where
  "parts_fresh out attach ps s \<longleftrightarrow> (\<forall>p \<in> set ps. fresh_dir (part_dest out attach p) s)"

definition part_restored :: "(string \<Rightarrow> dir_tree) \<Rightarrow> path \<Rightarrow> bool \<Rightarrow> fs \<Rightarrow> manifest_part \<Rightarrow> bool" where
  "part_restored T out attach s p \<longleftrightarrow>
     (\<forall>q. s (part_dest out attach p @ q) = restored (T (mp_blob_hash p)) q)"

lemma parts_restored:
  assumes site: "reading_site env h d objs" and T: "good_trees T"
  shows "io_map (\<lambda>p. attempt (restore_part env h d st out attach p)) ps w = (Ok rs, w') \<Longrightarrow>
    map_r (\<lambda>r. r) rs = Inr xs \<Longrightarrow> faithful T (crc32 env) st (objs (svc w)) \<Longrightarrow>
    list_all safe_part ps \<Longrightarrow> parts_apart out attach ps \<Longrightarrow> parts_fresh out attach ps (d_get d (svc w)) \<Longrightarrow>
    (\<forall>p \<in> set ps. part_restored T out attach (d_get d (svc w')) p) \<and>
    (\<forall>q r. (\<forall>p \<in> set ps. apart (part_dest out attach p) q) \<longrightarrow>
       d_get d (svc w') (q @ r) = d_get d (svc w) (q @ r))"
proof (induction ps arbitrary: w rs xs)
  case Nil
  then show ?case by (simp add: io_return_def)
next
  case (Cons p ps)
  let ?dest = "part_dest out attach p"
  from Cons.prems(1) obtain r u rs' where r: "attempt (restore_part env h d st out attach p) w = (Ok r, u)"
    and rs: "rs = r # rs'"
    and rest: "io_map (\<lambda>p. attempt (restore_part env h d st out attach p)) ps u = (Ok rs', w')"
    by (auto simp: io_return_def elim!: io_bind_OkE)
  from Cons.prems(2) rs obtain x ys where x: "r = Inr x" and ys: "map_r (\<lambda>r. r) rs' = Inr ys"
    by (auto simp: bind_r_Inr_iff)
  have safe: "safe_part p" "list_all safe_part ps" using Cons.prems(4) by simp_all
  have fresh: "fresh_dir ?dest (d_get d (svc w))" using Cons.prems(6) by (simp add: parts_fresh_def)
  have away: "\<forall>q \<in> set ps. apart ?dest (part_dest out attach q)" and apart: "parts_apart out attach ps"
    using Cons.prems(5) by (simp_all add: parts_apart_def)
  have "restore_part env h d st out attach p w = (Ok x, u)" using r x attempt_Ok_Inr by metis
  from restore_part_Ok [OF site T Cons.prems(3) safe(1) fresh this]
  have du: "d_get d (svc u) = overlay ?dest (restored (T (mp_blob_hash p))) (d_get d (svc w))"
    and ou: "objs (svc u) = objs (svc w)" by simp_all
  have "parts_fresh out attach ps (d_get d (svc u))"
    using Cons.prems(6) away fresh_overlay unfolding parts_fresh_def du by auto
  from Cons.IH [OF rest ys _ safe(2) apart this] Cons.prems(3) ou
  have ih: "\<forall>p \<in> set ps. part_restored T out attach (d_get d (svc w')) p"
    "\<forall>q r. (\<forall>p \<in> set ps. apart (part_dest out attach p) q) \<longrightarrow>
       d_get d (svc w') (q @ r) = d_get d (svc u) (q @ r)" by simp_all
  have "\<forall>q \<in> set ps. apart (part_dest out attach q) ?dest" using away by (simp add: apart_def)
  then have "part_restored T out attach (d_get d (svc w')) p"
    using ih(2) by (simp add: part_restored_def du overlay_def)
  moreover have "d_get d (svc w') (q @ r) = d_get d (svc w) (q @ r)"
    if "\<forall>p' \<in> set (p # ps). apart (part_dest out attach p') q" for q r
    using that ih(2) by (simp add: du apart_overlay)
  ultimately show ?case using ih(1) by auto
qed

lemma part_under_data: "safe_part p \<Longrightarrow> prefix (out @ [''data'']) (part_dest out attach p)"
proof -
  assume "safe_part p"
  from safe_part_components [OF this, of attach] have "no_escape (part_components attach p)" .
  moreover have "components ''data'' = [Normal ''data'']"
    by (simp add: components_def inner_components_def)
  ultimately show ?thesis
    unfolding part_dest_def part_components_def by (auto simp: no_escape_def intro!: steps_under)
qed

lemma keeps_fresh_file:
  assumes site: "reading_site env h d objs" and aside: "file_aside f" and safe: "list_all safe_part ps"
  shows "keeps (\<lambda>s. parts_fresh out attach ps (d_get d s) \<and> C (objs s)) (restore_file env d out f)"
proof -
  have put: "d_get d (d_put d g s) = g" "objs (d_put d g s) = objs s" for g s
    using site by (simp_all add: reading_site_def private_disk_def separate_disk_def)
  from aside obtain n cs where f: "no_escape (components (mf_path f))" "components (mf_path f) = Normal n # cs"
    "n \<noteq> ''data''" by (auto simp: file_aside_def)
  let ?p = "foldl step_path out (components (mf_path f))"
  have under: "prefix (out @ [n]) ?p"
    unfolding f(2) foldl.simps step_path.simps by (rule steps_under) (use f in \<open>simp_all add: no_escape_def\<close>)
  have away: "\<not> prefix ?p (part_dest out attach p)" "\<not> strict_prefix (part_dest out attach p) ?p"
    if "p \<in> set ps" for p
  proof -
    have "safe_part p" using safe that by (simp add: list_all_iff)
    then have "prefix (out @ [''data'']) (part_dest out attach p)" by (rule part_under_data)
    with under f(3) have "apart ?p (part_dest out attach p)" by (blast intro: apart_branches)
    then show "\<not> prefix ?p (part_dest out attach p)" "\<not> strict_prefix (part_dest out attach p) ?p"
      by (simp_all add: apart_def strict_prefix_def)
  qed
  have wf: "keeps (\<lambda>s. parts_fresh out attach ps (d_get d s) \<and> C (objs s))
      (fs_io d (write_file_join (d_os d) out (mf_path f) content))" for content
  proof (rule keepsI)
    fix w r w'
    assume p: "parts_fresh out attach ps (d_get d (svc w)) \<and> C (objs (svc w))"
      and run: "fs_io d (write_file_join (d_os d) out (mf_path f) content) w = (r, w')"
    obtain s' y where w: "write_file_join (d_os d) out (mf_path f) content (d_get d (svc w)) = (s', y)" by fastforce
    from run w put have "d_get d (svc w') = s'" "objs (svc w') = objs (svc w)" by (auto simp: fs_io_def)
    moreover have "along ?p (d_get d (svc w)) s'"
      using along_write [OF f(1), of out "d_get d (svc w)" "d_os d" content] w by simp
    ultimately show "parts_fresh out attach ps (d_get d (svc w')) \<and> C (objs (svc w'))"
      using p away along_fresh unfolding parts_fresh_def by auto
  qed
  show ?thesis
    unfolding restore_file_def by (intro keeps_intros wf)
qed

definition well_placed :: "path \<Rightarrow> bool \<Rightarrow> filtered_items \<Rightarrow> bool" where
  "well_placed out attach items \<longleftrightarrow> list_all safe_part (fi_parts items) \<and>
     parts_apart out attach (fi_parts items) \<and> (\<forall>f \<in> set (fi_files items). file_aside f)"

lemma fresh_create:
  assumes "create_dir_all os out s = (s', r)" and "prefix out q" and "fresh_dir q s"
  shows "fresh_dir q s'"
proof -
  note ch = create_dir_all_changes [OF assms(1)]
  have "s' x \<noteq> Some (FFile c)" if "prefix x q" for x c
    using ch [of x] assms(3) that unfolding fresh_dir_def no_file_above_def
    by (metis fnode.distinct(1) option.inject)
  moreover have "s' x = None" if "strict_prefix q x" for x
    using ch [of x] assms(2,3) that unfolding fresh_dir_def
    by (metis prefix_order.dual_order.strict_trans2 prefix_order.less_le_not_le)
  ultimately show ?thesis by (simp add: fresh_dir_def no_file_above_def)
qed

lemma restore_items_Ok:
  assumes site: "reading_site env h d objs" and T: "good_trees T"
    and store: "faithful T (crc32 env) st (objs (svc w))"
    and place: "well_placed out (cfg \<noteq> None) items"
    and fresh: "parts_fresh out (cfg \<noteq> None) (fi_parts items) (d_get d (svc w))"
    and run: "restore_items env h d st out cfg items w = (Ok (), w')"
  shows "\<forall>p \<in> set (fi_parts items). part_restored T out (cfg \<noteq> None) (d_get d (svc w')) p"
proof (cases "fi_parts items = []")
  case False
  let ?att = "cfg \<noteq> None" and ?ps = "fi_parts items"
  let ?I = "\<lambda>s. parts_fresh out ?att ?ps (d_get d s) \<and> faithful T (crc32 env) st (objs s)"
  have disk: "private_disk env h d" using site by (simp add: reading_site_def)
  have put: "d_get d (d_put d g s) = g" "objs (d_put d g s) = objs s" for g s
    using site by (simp_all add: reading_site_def private_disk_def separate_disk_def)
  have safe: "list_all safe_part ?ps" and apart: "parts_apart out ?att ?ps"
    using place by (simp_all add: well_placed_def)
  have under: "prefix out (part_dest out ?att p)" if "p \<in> set ?ps" for p
    using safe that unfolding part_dest_def list_all_iff
    by (intro steps_under safe_part_components) simp_all
  from run obtain u v x y xs z where dir: "fs_io d (create_dir_all (d_os d) out) w = (Ok x, u)"
    and files: "io_for (fi_files items) (restore_file env d out) u = (Ok y, v)"
    and parts: "attempt_all (restore_part env h d st out ?att) ?ps v = (Ok xs, z)"
    and att: "attach_parts h cfg xs z = (Ok (), w')"
    unfolding restore_items_def if_not_P [OF False] by (elim io_bind_OkE) blast
  obtain s' r' where s': "create_dir_all (d_os d) out (d_get d (svc w)) = (s', r')" by fastforce
  with dir put have u: "d_get d (svc u) = s'" "objs (svc u) = objs (svc w)" by (auto simp: fs_io_def)
  have iu: "?I (svc u)"
    using fresh under store fresh_create [OF s'] by (auto simp: parts_fresh_def u)
  have "keeps ?I (io_for (fi_files items) (restore_file env d out))"
    by (rule keeps_for, rule keeps_fresh_file [OF site _ safe]) (use place in \<open>simp add: well_placed_def\<close>)
  from keepsD [where I = ?I, OF this iu files] have iv: "?I (svc v)" .
  from parts obtain results where io: "io_map (\<lambda>p. attempt (restore_part env h d st out ?att p)) ?ps v = (Ok results, z)"
    and xs: "map_r (\<lambda>r. r) results = Inr xs"
    by (auto simp: attempt_all_def io_lift_def elim!: io_bind_OkE split: sum.splits)
  from parts_restored [OF site T io xs _ safe apart] iv
  have all: "\<forall>p \<in> set ?ps. part_restored T out ?att (d_get d (svc z)) p" by blast
  have "keeps (\<lambda>s. d_get d s = d_get d (svc z)) (attach_parts h cfg xs)"
    unfolding attach_parts_def
    by (auto intro!: keeps_intros keeps_attempt_all keeps_attach_disk [OF disk, where P = "\<lambda>f. f = d_get d (svc z)"]
        split: option.split prod.split)
  from keepsD [where I = "\<lambda>s. d_get d s = d_get d (svc z)", OF this refl att] all show ?thesis by simp
qed simp

text \<open>Whatever the options select of the manifest \<open>b\<close> has its place.\<close>

definition restorable :: "manifest_codec \<Rightarrow> restore_options \<Rightarrow> path \<Rightarrow> bytes \<Rightarrow> bool" where
  "restorable cd opts out b \<longleftrightarrow>
     (\<forall>m items. dec_manifest cd b = Some m \<longrightarrow>
        filter_restore_items (m_parts m) (m_files m) (ro_table_filter opts) (ro_exclude_tables opts) = Inr items \<longrightarrow>
        well_placed out (ro_attach_cfg opts \<noteq> None) items)"

text \<open>Nothing at or below \<open>out/data\<close> yet, and no file above it.\<close>

definition clear_output :: "path \<Rightarrow> fs \<Rightarrow> bool" where
  "clear_output out s \<longleftrightarrow>
     no_file_above out s \<and> (\<forall>q. prefix (out @ [''data'']) q \<longrightarrow> s q = None)"

lemma clear_fresh:
  assumes "clear_output out s" and "prefix (out @ [''data'']) q"
  shows "fresh_dir q s"
proof -
  have none: "s r = None" if "prefix q r" for r
    using assms that unfolding clear_output_def by (meson prefix_order.trans)
  have "s r \<noteq> Some (FFile c)" if r: "prefix r q" for r c
  proof (cases "prefix r out")
    case True
    with assms(1) show ?thesis by (simp add: clear_output_def no_file_above_def)
  next
    case False
    have "prefix out r \<or> prefix r out"
      using r append_prefixD [OF assms(2)] by (rule prefix_same_cases [THEN disj_commute [THEN iffD1]])
    with False obtain a as where "r = out @ a # as" by (metis prefixE neq_Nil_conv append_Nil2 prefix_order.refl)
    with r assms(2) have "prefix (out @ [''data'']) r" by (auto simp: prefix_def)
    with assms(1) show ?thesis by (simp add: clear_output_def)
  qed
  with none show ?thesis by (simp add: fresh_dir_def no_file_above_def strict_prefix_def)
qed

context archive_site
begin

lemma archive_reading_site:
  assumes "private_disk env h d" and "separate_disk env objs d" and "permits (d_os d)" and "faithful_host h"
  shows "reading_site env h d objs"
  using assms get_value get_reads by (auto simp: reading_site_def reads_truly_def)

lemma restore_snapshot_Ok:
  assumes disk: "private_disk env h d" "separate_disk env objs d" "permits (d_os d)"
    and host: "faithful_host h" and T: "good_trees T"
    and store: "faithful T (crc32 env) st (objs (svc v))"
    and manifest: "objs (svc v) (manifest_object st n) = Some b"
    and clear: "clear_output out (d_get d (svc v))"
    and place: "restorable cd opts out b"
    and run: "restore_snapshot env h cd d st n out opts v = (Ok (), w')"
  shows "\<exists>m items. dec_manifest cd b = Some m \<and>
    filter_restore_items (m_parts m) (m_files m) (ro_table_filter opts) (ro_exclude_tables opts) = Inr items \<and>
    (\<forall>p \<in> set (fi_parts items). part_restored T out (ro_attach_cfg opts \<noteq> None) (d_get d (svc w')) p)"
proof -
  from run obtain m' items u where read: "read_manifest env cd st n v = (Ok m', u)"
    and items: "filter_restore_items (m_parts m') (m_files m') (ro_table_filter opts) (ro_exclude_tables opts) = Inr items"
    and rest: "restore_items env h d st out (ro_attach_cfg opts) items u = (Ok (), w')"
    unfolding restore_snapshot_def by (auto simp: io_lift_def elim!: io_bind_OkE split: sum.splits)
  from read_manifest_Ok [OF read] manifest obtain m where m: "dec_manifest cd b = Some m"
    and m': "m_parts m' = m_parts m" "m_files m' = m_files m"
    by (auto simp: manifest_object_def)
  have ou: "objs (svc u) = objs (svc v)"
    by (rule keepsD [where I = "\<lambda>s. objs s = objs (svc v)", OF read_manifest_keeps refl read])
  have du: "d_get d (svc u) = d_get d (svc v)"
    by (rule keepsD [where I = "\<lambda>s. d_get d s = d_get d (svc v)",
          OF keeps_read_manifest_disk [OF disk(1), where P = "\<lambda>f. f = d_get d (svc v)"] refl read])
  have placed: "well_placed out (ro_attach_cfg opts \<noteq> None) items" using place m items unfolding restorable_def m' by blast
  have "parts_fresh out (ro_attach_cfg opts \<noteq> None) (fi_parts items) (d_get d (svc u))"
    using placed unfolding parts_fresh_def du well_placed_def list_all_iff
    by (auto intro!: clear_fresh [OF clear] part_under_data)
  from restore_items_Ok [OF archive_reading_site [OF disk host] T _ placed this rest] store ou items m
  show ?thesis by (auto simp: m')
qed

end

section \<open>The theorems\<close>

lemma init_storage_bounds:
  assumes "init_storage cfg = Inr (st, counters)"
  shows "MULTIPART_MIN_CHUNK \<le> min_chunk_size st" and "MULTIPART_MIN_CHUNK \<le> max_chunk_size st"
proof -
  from assms obtain p a b c k where st: "st = new_storage p True a b c k"
    by (auto simp: init_storage_def bind_r_Inr_iff)
  have "MULTIPART_MIN_CHUNK \<le> MULTIPART_MAX_CHUNK"
    by (simp add: MULTIPART_MIN_CHUNK_def MULTIPART_MAX_CHUNK_def)
  then show "MULTIPART_MIN_CHUNK \<le> min_chunk_size st" "MULTIPART_MIN_CHUNK \<le> max_chunk_size st"
    by (auto simp: st new_storage_def Let_def max_def min_def)
qed

text \<open>
  C1. The round trip of a snapshot. The directories of the parts are the trees of their hashes, and
  every blob in the bucket is the archive of the tree of its hash. When a backup succeeds, then that
  is still so, and its manifest names exactly the parts of an answer of the server; and a restore of
  it that succeeds, while nobody changed the bucket in between, into a directory without \<open>data\<close>,
  leaves every selected part as exactly the tree of its hash, file by file.
\<close>

theorem snapshot_roundtrip:
  assumes "archive_site env objs remaining h stored" and "permuting env" and "faithful_host h"
    and "good_trees T" and "shows_parts T h cfg" and "keeps_parts cd"
    and "init_storage cfg = Inr (st, counters)" and "faithful T (crc32 env) st (objs (svc w))"
    and "create_snapshot env h cd cfg name w = (Ok n, u)"
    and "objs (svc v) = objs (svc u)"
    and "private_disk env h d" and "separate_disk env objs d" and "permits (d_os d)"
    and "clear_output out (d_get d (svc v))"
    and "\<And>b. objs (svc v) (manifest_object st n) = Some b \<Longrightarrow> restorable cd opts out b"
    and "restore_snapshot env h cd d st n out opts v = (Ok (), w')"
  shows "faithful T (crc32 env) st (objs (svc u)) \<and>
    (\<exists>b m ps items. objs (svc u) (manifest_object st n) = Some b \<and> dec_manifest cd b = Some m \<and>
       answers h cfg ps \<and> map entry_names (m_parts m) = map part_names ps \<and>
       filter_restore_items (m_parts m) (m_files m) (ro_table_filter opts) (ro_exclude_tables opts) = Inr items \<and>
       (\<forall>p \<in> set (fi_parts items).
          part_restored T out (ro_attach_cfg opts \<noteq> None) (d_get d (svc w')) p))"
proof -
  note t = archive_site.create_snapshot_faithful [OF assms(1-3,5,4,7) init_storage_bounds [OF assms(7)]]
  from triple_Ok [OF t assms(8,9)] have f: "faithful T (crc32 env) st (objs (svc u))"
    and s: "snapshot_of h cd st cfg n (objs (svc u))" by simp_all
  from s obtain ps m b where ps: "answers h cfg ps" "map entry_names (m_parts m) = map part_names ps"
    and b: "enc_manifest cd m = Some b" "objs (svc u) (manifest_object st n) = Some b"
    by (auto simp: snapshot_of_def)
  have man: "objs (svc v) (manifest_object st n) = Some b" and fv: "faithful T (crc32 env) st (objs (svc v))"
    using b f assms(10) by simp_all
  from archive_site.restore_snapshot_Ok [OF assms(1,11-13,3,4) fv man assms(14) assms(15) [OF man] assms(16)]
  obtain m' items where m': "dec_manifest cd b = Some m'"
    "filter_restore_items (m_parts m') (m_files m') (ro_table_filter opts) (ro_exclude_tables opts) = Inr items"
    "\<forall>p \<in> set (fi_parts items). part_restored T out (ro_attach_cfg opts \<noteq> None) (d_get d (svc w')) p"
    by blast
  have "map entry_names (m_parts m') = map part_names ps"
    using ps(2) b(1) m'(1) assms(6) by (simp add: keeps_parts_def)
  with f b(2) ps(1) m' show ?thesis by blast
qed

end
