(* ===== verification/Snapshot_Run.thy ===== *)
theory Snapshot_Run
  imports Snapshot_Roundtrip
begin

text \<open>
  A server with one part, backed up into an empty bucket and restored on the same machine: the run
  that the round trip of a snapshot is applied to.
\<close>

section \<open>The machine\<close>

definition one_part :: part_info where
  "one_part = \<lparr>p_database = ''d'', p_table = ''t'', p_name = ''p'', p_path = ''/ch/p'',
     p_hash = replicate 32 CHR ''a'', p_bytes_on_disk = 7, p_rows_count = 0\<rparr>"

definition one_row :: json where
  "one_row = JObject [(''database'', JString ''d''), (''table'', JString ''t''), (''name'', JString ''p''),
     (''path'', JString ''/ch/p''), (''hash_of_all_files'', JString (replicate 32 CHR ''a'')),
     (''bytes_on_disk'', JString ''7'')]"

definition one_host :: "machine host" where
  "one_host = (answering 200 ''x'' (\<lambda>l. Some one_row))\<lparr>
     h_exists := \<lambda>f s. (True, s),
     h_tree := \<lambda>f s. (if f = ''/ch/p'' then Some small_tree else None, s),
     h_read_file := \<lambda>f s. (Some [], s)\<rparr>"

definition one_manifest :: manifest where
  "one_manifest = \<lparr>m_name = [], m_timestamp = 0, m_shard = [], m_replica = [], m_created_by = [],
     m_parts = [\<lparr>mp_database = ''d'', mp_table_name = ''t'', mp_part_name = ''p'',
        mp_blob_hash = replicate 32 CHR ''a'', mp_blob_size = 117\<rparr>], m_files = []\<rparr>"

definition one_codec :: manifest_codec where
  "one_codec = \<lparr>enc_manifest = \<lambda>m. if m_parts m = m_parts one_manifest then Some [1] else None,
     dec_manifest = \<lambda>b. Some one_manifest, fmt_timestamp = \<lambda>t. [], utc_day = \<lambda>t. None,
     date_in_range = \<lambda>d. True\<rparr>"

lemma one_host_simps [simp]:
  "h_http_post one_host u n p q s = (Some (200, ''x''), s)" "h_json one_host l = Some one_row"
  "h_emit one_host e s = s" "h_exists one_host f s = (True, s)"
  "h_tree one_host f s = (if f = ''/ch/p'' then Some small_tree else None, s)"
  "h_read_file one_host f s = (Some [], s)" "h_read_dir one_host f s = (Some [], s)"
  "h_remove_dir one_host f s = (NotThere, s)" "h_remove_file one_host f s = (NotThere, s)"
  "h_create_dir one_host f s = (True, s)" "h_open one_host = (\<lambda>p c. Some c)"
  "h_chunks one_host = (\<lambda>b. [b])" "h_is_terminal one_host = False" "h_hostname one_host = ''host''"
  "h_which one_host b s = (Some False, s)" "h_command one_host b a s = (None, s)" "h_uuid one_host s = (''0'', s)"
  "h_stage_os one_host f s = (\<lparr>so_remove = True, so_create = True, so_mkdir = \<lambda>p. True,
     so_link = \<lambda>p. Linked, so_marker = True\<rparr>, s)"
  by (simp_all add: one_host_def answering_def null_host_def)

lemma one_emit: "emit one_host e w = (Ok (), w)"
  by (simp add: emit_def host_call_def)

interpretation one: archive_site "mem_env {}" mem_lookup mem_remaining one_host mem_stored
proof (intro archive_site.intro backup_site.intro storing_bucket.intro)
  show "upload_bucket (mem_env {} :: machine env) mem_lookup mem_remaining"
    "storing_bucket_axioms (mem_env {} :: machine env) mem_lookup mem_stored"
    using stored.storing_bucket_axioms [where P = "{}"] unfolding storing_bucket_def by blast+
qed (unfold_locales, simp_all)

section \<open>The archive of the part\<close>

definition files_in :: "string \<Rightarrow> zip_file_entry list" where
  "files_in dir = [\<lparr>abs_path = dir @ ''/a'', rel_path = ''a'', file_size = 1\<rparr>]"

lemma tree_files: "collect_files dir small_tree = Inr (files_in dir)"
proof -
  have "validate_rel_path ''a'' = Inr ()" by code_simp
  then show ?thesis
    by (simp add: collect_files_def small_tree_def files_in_def Let_def)
qed

lemma tree_read: "tree_content dir small_tree (dir @ ''/a'') = Some [7]"
proof -
  have "strip_prefix (dir @ ''/'') (dir @ ''/a'') = Some ''a''" by (simp add: strip_prefix_Some)
  moreover have "split_on CHR ''/'' ''a'' = [''a'']" by code_simp
  ultimately show ?thesis by (simp add: tree_content_def small_tree_def)
qed

lemma tree_archive:
  "\<exists>out. write_zip crc (tree_content dir small_tree) (files_in dir) = Inr (out, word_of_nat (length out)) \<and>
     length out = 117"
  by (simp add: write_zip_def write_entry_def files_in_def tree_read small_name stream_file.simps
      try_u16_def write_central_def write_eocd_def Let_def local_header_fields_def
      local_sizes_def data_descriptor_def)

lemma tree_estimate: "estimate_zip_size (files_in dir) = 117"
  by (simp add: estimate_zip_size_def entry_estimate_def files_in_def small_name Let_def)

lemma one_put:
  fixes w :: "machine world"
  assumes "\<not> guarded w" and "length out = 117"
  shows "\<exists>v. put_object_multipart_reader (mem_env {}) demo_storage (blob_remote_key x) ([out], False) 117
      (\<lambda>b. emit one_host (PartUploadProgress x b 117)) w = (Ok (word_of_nat (length out)), v) \<and>
    \<not> guarded v \<and> mc_fs (svc v) = mc_fs (svc w)"
proof -
  have chunk: "compute_chunk_size (max 117 1) (min_chunk_size demo_storage) (max_chunk_size demo_storage)
      (target_parts demo_storage) = 16777216" by code_simp
  have "read_chunks (unat (compute_chunk_size (max 117 1) (min_chunk_size demo_storage)
      (max_chunk_size demo_storage) (target_parts demo_storage))) 0 ([out], False) = ([(1, out)], False)"
    unfolding chunk by (rule read_one_chunk) (use assms in \<open>auto simp: pending_def\<close>)
  with assms(1) show ?thesis
    by (simp add: put_object_multipart_reader_def multipart_inner_def s3_retry_def with_retry_def
        s3_retry_config_def upt_rec await_def Let_def io_bind_def io_return_def io_match_def
        classify_s3_def upload_one_def handle_completed_part_def completed_part_from_upload_def
        one_emit mem_complete_def mem_machine with_progress_def)
qed

lemma one_upload:
  assumes "\<not> guarded w"
  shows "\<exists>u. upload_one_archive (mem_env {}) one_host demo_storage (x, dir, small_tree) w = (Ok (x, 117), u) \<and>
     \<not> guarded u \<and> mc_fs (svc u) = mc_fs (svc w)"
proof -
  have content: "(\<lambda>path. Option.bind (tree_content dir small_tree path) (\<lambda>c. Some c))
      = tree_content dir small_tree" by simp
  obtain out where out: "write_zip (\<lambda>bs. 0) (tree_content dir small_tree) (files_in dir)
      = Inr (out, word_of_nat (length out))" "length out = 117"
    using tree_archive by blast
  let ?w = "snd (with_progress (add_upload_total_bytes_est 117) w)"
  have w: "\<not> guarded ?w" "svc ?w = svc w" using assms by (simp_all add: with_progress_def)
  obtain v where v: "put_object_multipart_reader (mem_env {}) demo_storage (blob_remote_key x) ([out], False) 117
      (\<lambda>b. emit one_host (PartUploadProgress x b 117)) ?w = (Ok (word_of_nat (length out)), v)"
    "\<not> guarded v" "mc_fs (svc v) = mc_fs (svc w)"
    using one_put [OF w(1) out(2)] w(2) by auto
  have clean: "cleanup_staged_part one_host d u = (Ok (), u)" for d u
    by (simp add: cleanup_staged_part_def remove_dir_all_if_exists_def remove_file_if_exists_def
        io_bind_def host_call_def io_return_def)
  show ?thesis
    unfolding upload_one_archive_def prod.case one_host_simps content machine_crc Let_def tree_files
    using v out
    by (simp add: io_bind_def io_lift_def tree_estimate with_progress_def one_emit zip_sink_ok clean
        timed_progress_def io_return_def)
qed

section \<open>The backup\<close>

lemma one_hash: "normalize_hash (replicate 32 CHR ''a'') = Inr (replicate 32 CHR ''a'')"
proof -
  have "trim (replicate 32 CHR ''a'') = replicate 32 CHR ''a''"
    by (rule trim_plain) (simp_all add: plain_byte_def)
  then show ?thesis
    by (simp add: normalize_hash_def list_all_iff is_ascii_hexdigit_def to_ascii_lowercase_def ascii_lower_def)
qed

lemma one_query: "query_active_parts one_host demo_site w = (Ok [one_part], w)"
proof -
  have "part_of_line one_host ''x'' = Inr [one_part]"
    by (simp add: part_of_line_def one_row_def one_part_def parse_hash_of_all_files_hex_def one_hash
        str_or_def parse_u64_def parse_u64_str_def parse_uint_def strip_plus_def digit_val_def)
  then have "parse_active_parts one_host ''x'' = Inr [one_part]"
    by (simp add: parse_active_parts_def lines_def)
  moreover have "run_query one_host demo_site sql w = (Ok ''x'', w)" for sql
    by (simp add: run_query_def io_bind_def host_call_def io_return_def)
  ultimately show ?thesis by (simp add: query_active_parts_def io_bind_def io_lift_def)
qed

lemma one_needed: "parts_to_upload [one_part] {} = ([(p_hash one_part, one_part)], 1)"
  by (simp add: parts_to_upload_def)

lemma one_heads: "head_check_existing env one_host st [(p_hash one_part, p_bytes_on_disk one_part)] w = (Ok [], w)"
  by (simp add: head_check_existing_def one_part_def HEAD_CHECK_THRESHOLD_def io_bind_def io_return_def)

definition one_dir :: string where
  "one_dir = stage_dst (path_join (cfg_output_dir demo_site) STAGING_DIR_NAME) (p_hash one_part)"

lemma one_stage:
  "\<exists>w'. stage_loop MAX_STAGING_ITERATIONS env one_host demo_site {} (path_join (cfg_output_dir demo_site) STAGING_DIR_NAME)
      empty_area [] [one_part] w = (Ok ([(p_hash one_part, one_dir, small_tree)], [one_part]), w') \<and>
    svc w' = svc w \<and> guarded w' = guarded w"
proof -
  have path: "p_path one_part = ''/ch/p''" by (simp add: one_part_def)
  have "starts_with ''/'' ''/ch/p''" by code_simp
  then have "resolve_part_path one_host one_part dp w = (Ok ''/ch/p'', w)" for dp w
    by (simp add: resolve_part_path_def path io_bind_def host_call_def io_return_def)
  moreover have "stage_part_dir \<lparr>so_remove = True, so_create = True, so_mkdir = \<lambda>p. True,
      so_link = \<lambda>p. Linked, so_marker = True\<rparr> src (Some small_tree) (empty_area dst)
    = (\<lparr>slot_dir = Some small_tree, slot_marker = True\<rparr>, Inr 1)" for src dst
    by (simp add: stage_part_dir_def empty_area_def small_tree_def stage_root_def stage_file_def Let_def)
  ultimately show ?thesis
    by (simp add: MAX_STAGING_ITERATIONS_def numeral_eq_Suc one_needed staged_hashes_def stage_parts_cas_def
        stage_one_def timed_progress_def with_progress_def io_bind_def io_return_def one_emit host_call_def
        one_dir_def Let_def)
qed

lemma one_metadata:
  "\<exists>files. metadata_loop MAX_STAGING_ITERATIONS env one_host demo_site [one_part] w = (Ok (files, [one_part]), w)"
proof -
  have tables: "table_map_from_parts [one_part] = [(''d'', [''t''])]"
    by (simp add: table_map_from_parts_def one_part_def)
  have ch: "cfg_ch_data_path demo_site = ''/ch''" by (simp add: demo_site_def)
  have none: "path_join ''/ch'' ''user_defined'' \<noteq> ''/ch/p''"
    "path_join ''/ch'' ''user_scripts'' \<noteq> ''/ch/p''" "\<not> inner_table ''t''"
    by code_simp+
  have dir: "collect_directory_files env one_host d pre w = (Ok [], w)" if "d \<noteq> ''/ch/p''" for d pre w
    using that by (simp add: collect_directory_files_def io_bind_def host_call_def io_return_def)
  have read: "read_metadata_file env one_host f n w = (Ok (manifest_file_from_bytes env n []), w)" for f n w
    by (simp add: read_metadata_file_def io_bind_def host_call_def io_return_def)
  show ?thesis
    by (simp add: MAX_STAGING_ITERATIONS_def numeral_eq_Suc io_match_def collect_metadata_files_def tables
        collect_database_files_def ch none dir read io_bind_def io_return_def Let_def)
qed

abbreviation one_entry :: manifest_part where
  "one_entry \<equiv> \<lparr>mp_database = ''d'', mp_table_name = ''t'', mp_part_name = ''p'',
     mp_blob_hash = replicate 32 CHR ''a'', mp_blob_size = 117\<rparr>"

lemma one_phase:
  assumes "\<not> guarded w" and "mem_objs (svc w) = []"
  shows "\<exists>u. upload_phase (mem_env {}) one_host demo_storage root {} Map.empty []
      [(p_hash one_part, one_dir, small_tree)] [one_part] w = (Ok [one_entry], u) \<and>
    \<not> guarded u \<and> mc_fs (svc u) = mc_fs (svc w) \<and> mem_lookup (svc u) (manifest_object demo_storage n) = None"
proof -
  define w0 where "w0 = w\<lparr>progress := fst (set_upload_total 1 (elapsed_ms (mem_env {}) (svc w)) (progress w))\<rparr>"
  have w: "\<not> guarded w0" "svc w0 = svc w" "timed_progress (mem_env {}) (set_upload_total 1) w = (Ok (), w0)"
    using assms(1) by (simp_all add: timed_progress_def with_progress_def w0_def)
  obtain u where u: "upload_one_archive (mem_env {}) one_host demo_storage (p_hash one_part, one_dir, small_tree) w0
      = (Ok (p_hash one_part, 117), u)" "\<not> guarded u" "mc_fs (svc u) = mc_fs (svc w)"
    using one_upload [OF w(1)] w(2) by auto
  have "grown demo_storage (mem_lookup (svc w)) (mem_lookup (svc u))"
    by (rule keepsD [where I = "\<lambda>s. grown demo_storage (mem_lookup (svc w)) (mem_lookup s)",
          OF one.upload_one_adds _ u(1)]) (simp add: w(2) grown_refl)
  from grown_manifest [OF this, of n] assms(2) have none: "mem_lookup (svc u) (manifest_object demo_storage n) = None"
    by (simp add: mem_lookup_def)
  have dirs: "upload_dirs [(p_hash one_part, one_dir, small_tree)] [(p_hash one_part, one_part)] []
      = [(p_hash one_part, one_dir, small_tree)]" "unused_dirs [(p_hash one_part, one_dir, small_tree)]
      [(p_hash one_part, one_part)] [] = []" "check_staged [(p_hash one_part, one_dir, small_tree)]
      [(p_hash one_part, one_part)] [] = Inr ()"
    by (simp_all add: upload_dirs_def unused_dirs_def check_staged_def)
  have entries: "resolve_manifest_parts Map.empty [(p_hash one_part, 117)] [] [one_part] = Inr [one_entry]"
    by (simp add: resolve_manifest_parts_def uploaded_sizes_def merge_size_def manifest_part_of_def one_part_def)
  have "upload_part_archives (mem_env {}) one_host demo_storage [(p_hash one_part, one_dir, small_tree)] w
      = (Ok [(p_hash one_part, 117)], u)"
    using u(1) w(3) by (simp add: upload_part_archives_def io_bind_def attempt_def io_match_def io_return_def io_lift_def)
  then have "upload_phase (mem_env {}) one_host demo_storage root {} Map.empty []
      [(p_hash one_part, one_dir, small_tree)] [one_part] w = (Ok [one_entry], u)"
    by (simp add: upload_phase_def one_needed dirs entries io_lift_def io_bind_def cleanup_staged_parts_def
        remove_dir_all_if_exists_def host_call_def io_return_def Let_def)
  with u(2,3) none show ?thesis by blast
qed

lemma one_write:
  assumes "\<not> guarded w" and "mem_lookup (svc w) (manifest_object demo_storage (m_name m)) = None"
    and "m_parts m = [one_entry]"
  shows "\<exists>u. write_manifest (mem_env {}) one_codec demo_storage m w = (Ok (), u) \<and>
    \<not> guarded u \<and> mc_fs (svc u) = mc_fs (svc w)"
  using assms
  by (simp add: write_manifest_def encode_def one_codec_def one_manifest_def io_lift_def io_bind_def io_return_def
      put_object_conditional_def await_def mem_put_def manifest_object_def Let_def)

lemma one_body:
  assumes "\<not> guarded w" and "mem_objs (svc w) = []"
  shows "\<exists>u. snapshot_body (mem_env {}) one_host one_codec demo_site demo_storage ''n'' ts sh re
      (path_join (cfg_output_dir demo_site) STAGING_DIR_NAME) {} Map.empty [one_part] w = (Ok ''n'', u) \<and>
    \<not> guarded u \<and> mc_fs (svc u) = mc_fs (svc w)"
proof -
  let ?root = "path_join (cfg_output_dir demo_site) STAGING_DIR_NAME"
  obtain a where a: "stage_loop MAX_STAGING_ITERATIONS (mem_env {}) one_host demo_site {} ?root empty_area []
      [one_part] w = (Ok ([(p_hash one_part, one_dir, small_tree)], [one_part]), a)" "svc a = svc w" "guarded a = guarded w"
    using one_stage by blast
  obtain files where f: "metadata_loop MAX_STAGING_ITERATIONS (mem_env {}) one_host demo_site [one_part] a
      = (Ok (files, [one_part]), a)" using one_metadata by blast
  obtain b where b: "upload_phase (mem_env {}) one_host demo_storage ?root {} Map.empty []
      [(p_hash one_part, one_dir, small_tree)] [one_part] a = (Ok [one_entry], b)"
    "\<not> guarded b" "mc_fs (svc b) = mc_fs (svc w)" "mem_lookup (svc b) (manifest_object demo_storage ''n'') = None"
    using one_phase [of a ?root "''n''"] assms a(2,3) by auto
  let ?m = "\<lparr>m_name = ''n'', m_timestamp = ts, m_shard = sh, m_replica = re,
      m_created_by = to_string_lossy ''host'', m_parts = [one_entry], m_files = files\<rparr>"
  obtain c where c: "write_manifest (mem_env {}) one_codec demo_storage ?m b = (Ok (), c)"
    "\<not> guarded c" "mc_fs (svc c) = mc_fs (svc w)"
    using one_write [of b ?m] b(2-4) by auto
  show ?thesis
    unfolding snapshot_body_def
    using c by (simp add: one_needed one_heads a(1) f b(1) one_emit io_bind_def io_return_def)
qed

lemma one_backup:
  "\<exists>u. create_snapshot (mem_env {}) one_host one_codec demo_site (Some ''n'') new_machine = (Ok ''n'', u) \<and>
     \<not> guarded u \<and> mc_fs (svc u) = [[] \<mapsto> FDir]"
proof -
  let ?root = "path_join (cfg_output_dir demo_site) STAGING_DIR_NAME"
  let ?a = "new_machine\<lparr>progress := new_progress\<rparr>"
  let ?b = "?a\<lparr>trace := trace ?a @ [ReqList (prefixed_key demo_storage MANIFEST_PREFIX) None]\<rparr>"
  have names: "list_manifest_names (mem_env {}) demo_storage ?a = (Ok [], ?b)"
    by (rule empty_names) (simp_all add: new_machine_def start_world_def)
  obtain u where u: "snapshot_body (mem_env {}) one_host one_codec demo_site demo_storage ''n''
      (word_of_int (mem_now (svc new_machine) div 1000000000)) ''s'' ''r'' ?root {} Map.empty [one_part] ?b = (Ok ''n'', u)"
    "\<not> guarded u" "mc_fs (svc u) = [[] \<mapsto> FDir]"
    using one_body [where w = ?b and ts = "word_of_int (mem_now (svc new_machine) div 1000000000)"
        and sh = "''s''" and re = "''r''"] by (auto simp: new_machine_def start_world_def)
  have "create_snapshot (mem_env {}) one_host one_codec demo_site (Some ''n'') new_machine = (Ok ''n'', u)"
    using u(1)
    by (simp add: create_snapshot_def io_bind_def clock_def Let_def demo_site_storage io_lift_def
        with_progress_def one_query resolve_shard_replica_def io_return_def
        load_known_from_latest_manifest_def names latest_name_def one_emit host_call_def
        create_dir_all_io_def cleanup_staging_dirs_def with_staging_cleanup_def attempt_def io_match_def
        remove_dir_all_if_exists_def)
  with u(2,3) show ?thesis by blast
qed

section \<open>The restore\<close>

definition one_trees :: "string \<Rightarrow> dir_tree" where
  "one_trees x = small_tree"

lemma one_site:
  "permuting (mem_env {} :: machine env)" "faithful_host one_host" "good_trees one_trees"
  "shows_parts one_trees one_host demo_site" "keeps_parts one_codec"
  "private_disk (mem_env {}) one_host machine_disk" "separate_disk (mem_env {}) mem_lookup machine_disk"
  "permits (d_os machine_disk)"
proof -
  show "permuting (mem_env {} :: machine env)" by (simp add: permuting_def mem_machine)
  show "faithful_host one_host" by (simp add: faithful_host_def)
  have ok: "tree_ok small_tree" by code_simp
  have "sizes_ok small_tree" unfolding sizes_ok_def walk_files [OF ok] by (simp add: small_tree_def)
  moreover have "plain_tree small_tree" by code_simp
  ultimately show "good_trees one_trees" using ok by (simp add: good_trees_def one_trees_def) (simp add: small_tree_def)
  show "shows_parts one_trees one_host demo_site"
    by (auto simp: shows_parts_def one_trees_def fresh_links_def split: if_splits)
  show "keeps_parts one_codec" by (simp add: keeps_parts_def one_codec_def)
  show "private_disk (mem_env {}) one_host machine_disk" by (simp add: private_disk_def machine_disk_def)
  show "separate_disk (mem_env {}) mem_lookup machine_disk"
    by (auto simp: separate_disk_def machine_disk_def mem_lookup_def fun_eq_iff split: option.split)
  show "permits (d_os machine_disk)" by (simp add: machine_disk_def)
qed

lemma one_names: "components ''d'' = [Normal ''d'']" "components ''t'' = [Normal ''t'']"
  "components ''p'' = [Normal ''p'']" "components ''data'' = [Normal ''data'']"
  by (simp_all add: components_def inner_components_def)

lemma one_dest: "part_dest [''out''] False one_entry = [''out'', ''data'', ''d'', ''t'', ''p'']"
  by (simp add: part_dest_def part_components_def one_names)

lemma one_safe: "safe_part one_entry"
  by (simp add: safe_part_def one_names no_escape_def)

definition one_items :: filtered_items where
  "one_items = \<lparr>fi_parts = [one_entry], fi_files = [], fi_skipped = []\<rparr>"

lemma one_filter: "filter_restore_items [one_entry] [] (ro_table_filter whole_restore)
    (ro_exclude_tables whole_restore) = Inr one_items"
  by (simp add: filter_restore_items_def select_table_def whole_restore_def one_items_def)

lemma one_restorable: "restorable one_codec whole_restore [''out''] b"
proof -
  have "dec_manifest one_codec b = Some m \<Longrightarrow> m_parts m = [one_entry] \<and> m_files m = []" for m
    by (auto simp: one_codec_def one_manifest_def)
  then show ?thesis
    using one_filter one_safe
    by (auto simp: restorable_def well_placed_def parts_apart_def one_items_def whole_restore_def)
qed

lemma one_restore_run:
  assumes "\<not> guarded v" and "mc_fs (svc v) = [[] \<mapsto> FDir]"
    and "mem_lookup (svc v) (manifest_object demo_storage ''n'') = Some b"
    and "faithful one_trees (crc32 (mem_env {} :: machine env)) demo_storage (mem_lookup (svc v))"
    and "mem_lookup (svc v) (blob_object demo_storage (replicate 32 CHR ''a'')) \<noteq> None"
  shows "\<exists>w'. restore_snapshot (mem_env {}) one_host one_codec machine_disk demo_storage ''n'' [''out''] whole_restore v
    = (Ok (), w')"
proof -
  let ?dest = "[''out'', ''data'', ''d'', ''t'', ''p'']"
  obtain u where read: "read_manifest (mem_env {}) one_codec demo_storage ''n'' v = (Ok (one_manifest\<lparr>m_name := ''n''\<rparr>), u)"
    "svc u = svc v" "\<not> guarded u"
    using assms(1,3)
    by (simp add: read_manifest_def get_object_def send_def await_def io_bind_def io_return_def io_lift_def
        decode_def one_codec_def manifest_object_def Let_def)
  define s where "s = [[] \<mapsto> FDir, [''out''] \<mapsto> FDir]"
  define a where "a = u\<lparr>svc := (svc u)\<lparr>mc_fs := s\<rparr>\<rparr>"
  have dir: "fs_io machine_disk (create_dir_all (d_os machine_disk) [''out'']) u = (Ok (), a)"
    using assms(2) read(2)
    by (simp add: fs_io_def machine_disk_def create_dir_all_def fs_bind_def mkdir_one_def allow_all_def a_def s_def)
  have a: "\<not> guarded a" "mc_fs (svc a) = s" "mem_lookup (svc a) = mem_lookup (svc v)"
    using read(2,3) by (simp_all add: a_def mem_lookup_def fun_eq_iff)
  obtain r w' where part: "restore_part (mem_env {}) one_host machine_disk demo_storage [''out''] False one_entry a = (r, w')"
    by fastforce
  have fresh: "fresh_dir (part_dest [''out''] False one_entry) (d_get machine_disk (svc a))"
    unfolding one_dest by (auto simp: fresh_dir_def no_file_above_def machine_disk_def a(2) s_def strict_prefix_def prefix_def)
  have val: "reads_truly (mem_env {} :: machine env) mem_lookup"
    by (auto simp: reads_truly_def split: option.splits)
  obtain es where t: "small_tree = TDir es" "tree_ok small_tree" "sizes_ok small_tree"
    using one_site(3) by (rule good_treesE [where x = "[]"]) (simp add: one_trees_def)
  have r: "r = Ok (''d'', ''t'', ''p'')"
    using restore_part_run [OF one_site(6,7) val one_site(8) one_safe fresh a(1) part]
  proof
    assume "\<exists>e s s'. s3_get (mem_env {}) (blob_object demo_storage (mp_blob_hash one_entry)) s = (Inl e, s') \<and>
      mem_lookup s = mem_lookup (svc a) \<and> r = Err (S3Failure e)"
    with assms(5) show ?thesis by (auto simp: a(3) split: option.splits)
  next
    assume "\<exists>b s'. mem_lookup (svc a) (blob_object demo_storage (mp_blob_hash one_entry)) = Some b \<and>
       fresh_dir (part_dest [''out''] False one_entry) s' \<and>
       (\<forall>g. overlay (part_dest [''out''] False one_entry) g s' =
          overlay (part_dest [''out''] False one_entry) g (d_get machine_disk (svc a))) \<and>
       (case extract_zip (d_os machine_disk) (crc32 (mem_env {} :: machine env)) (h_chunks one_host b, False)
          (part_dest [''out''] False one_entry) s' of
          (f, x) \<Rightarrow> d_get machine_disk (svc w') = f \<and>
            r = (case x of Inl e \<Rightarrow> Err e
                 | Inr _ \<Rightarrow> Ok (mp_database one_entry, mp_table_name one_entry, mp_part_name one_entry)))"
    then obtain z s' where z: "mem_lookup (svc v) (blob_object demo_storage (replicate 32 CHR ''a'')) = Some z"
      and s': "fresh_dir (part_dest [''out''] False one_entry) s'"
      and x: "case extract_zip (d_os machine_disk) (crc32 (mem_env {} :: machine env)) (h_chunks one_host z, False)
          (part_dest [''out''] False one_entry) s' of
          (f, x) \<Rightarrow> d_get machine_disk (svc w') = f \<and>
            r = (case x of Inl e \<Rightarrow> Err e
                 | Inr _ \<Rightarrow> Ok (mp_database one_entry, mp_table_name one_entry, mp_part_name one_entry))"
      by (auto simp: a(3))
    from z assms(4) have "archive_of (crc32 (mem_env {} :: machine env)) small_tree z"
      by (simp add: faithful_def one_trees_def)
    from archive_extracted [OF this t one_site(8,2) s'] x show ?thesis by simp
  qed
  have "restore_items (mem_env {}) one_host machine_disk demo_storage [''out''] None one_items u = (Ok (), w')"
    using part r by (simp add: restore_items_def dir one_items_def attempt_all_def attempt_def attach_parts_def
        io_match_def io_bind_def io_return_def io_lift_def)
  then show ?thesis
    using one_filter
    by (simp add: restore_snapshot_def read(1) io_bind_def io_lift_def check_identity_def whole_restore_def
        one_manifest_def)
qed

theorem snapshot_roundtrip_witness:
  "\<exists>u w'. create_snapshot (mem_env {}) one_host one_codec demo_site (Some ''n'') new_machine = (Ok ''n'', u) \<and>
    restore_snapshot (mem_env {}) one_host one_codec machine_disk demo_storage ''n'' [''out''] whole_restore u = (Ok (), w') \<and>
    mc_fs (svc w') [''out'', ''data'', ''d'', ''t'', ''p'', ''a''] = Some (FFile [7])"
proof -
  let ?crc = "crc32 (mem_env {} :: machine env)"
  obtain u where u: "create_snapshot (mem_env {}) one_host one_codec demo_site (Some ''n'') new_machine = (Ok ''n'', u)"
    "\<not> guarded u" "mc_fs (svc u) = [[] \<mapsto> FDir]" using one_backup by blast
  have empty: "mem_lookup (svc new_machine) k = None" for k
    by (simp add: new_machine_def start_world_def mem_lookup_def)
  have start: "faithful one_trees ?crc demo_storage (mem_lookup (svc new_machine))"
    by (simp add: faithful_def empty)
  note t = one.create_snapshot_faithful [OF one_site(1,2,4,3) demo_site_storage init_storage_bounds [OF demo_site_storage]]
  from triple_Ok [OF t start u(1)] have f: "faithful one_trees ?crc demo_storage (mem_lookup (svc u))"
    and "snapshot_of one_host one_codec demo_storage demo_site ''n'' (mem_lookup (svc u))" by simp_all
  then obtain b where b: "mem_lookup (svc u) (manifest_object demo_storage ''n'') = Some b"
    by (auto simp: snapshot_of_def)
  have c: "consistent one_codec demo_storage (mem_lookup (svc new_machine))"
    by (simp add: consistent_def empty)
  have "grown demo_storage (with_blobs demo_storage {} (mem_lookup (svc new_machine))) (mem_lookup (svc new_machine))"
    by (simp add: grown_with_blobs grown_refl)
  from triple_Ok [OF one.create_snapshot_triple [OF demo_site_storage c one_site(5)] this u(1)]
  have "consistent one_codec demo_storage (mem_lookup (svc u))" by simp
  then have "mem_lookup (svc u) (blob_object demo_storage (replicate 32 CHR ''a'')) \<noteq> None"
    using b unfolding consistent_def by (auto simp: one_codec_def one_manifest_def)
  from one_restore_run [OF u(2,3) b f this] obtain w' where w': "restore_snapshot (mem_env {}) one_host one_codec
      machine_disk demo_storage ''n'' [''out''] whole_restore u = (Ok (), w')" by blast
  have clear: "clear_output [''out''] (d_get machine_disk (svc u))"
    by (auto simp: clear_output_def no_file_above_def machine_disk_def u(3))
  from snapshot_roundtrip [OF one.archive_site_axioms one_site(1-5) demo_site_storage start u(1) refl
      one_site(6-8) clear one_restorable w'] obtain b' m items where
    m: "dec_manifest one_codec b' = Some m" and items: "filter_restore_items (m_parts m) (m_files m)
      (ro_table_filter whole_restore) (ro_exclude_tables whole_restore) = Inr items"
    and all: "\<forall>p \<in> set (fi_parts items).
      part_restored one_trees [''out''] (ro_attach_cfg whole_restore \<noteq> None) (d_get machine_disk (svc w')) p" by blast
  from m items one_filter have "items = one_items" by (auto simp: one_codec_def one_manifest_def)
  with all have "part_restored one_trees [''out''] False (mc_fs (svc w')) one_entry"
    by (simp add: one_items_def whole_restore_def machine_disk_def)
  then have "mc_fs (svc w') ([''out'', ''data'', ''d'', ''t'', ''p''] @ [''a'']) = restored small_tree [''a'']"
    unfolding part_restored_def one_dest one_trees_def by blast
  then have "mc_fs (svc w') [''out'', ''data'', ''d'', ''t'', ''p'', ''a''] = Some (FFile [7])"
    by (simp add: restored_def small_tree_def)
  with u(1) w' show ?thesis by blast
qed

end
