(* ===== verification/Lock_Protocol.thy ===== *)
theory Lock_Protocol
  imports Gc_Lock_Theorems
begin

text \<open>
  \<open>src/gc/lock.rs\<close> as a protocol: the requests of \<open>acquire\<close>, \<open>refresh\<close> and \<open>release\<close> as atomic steps
  of instances that share the lock object and the clock, in any interleaving, and mutual exclusion
  in the runs where no lock that is read has gone stale. A failed request may have taken effect.
\<close>

section \<open>The steps\<close>

text \<open>Where an instance is: \<open>Judging\<close> holds what it read, \<open>Holding\<close> the lock it last wrote.\<close>

datatype lock_phase =
    Trying
  | Looking
  | Judging "lock_info option"
  | Breaking
  | Retrying
  | Unavailable
  | Holding lock_info
  | Lost
  | Releasing
  | Released

text \<open>The object at the key of the lock, \<open>Some None\<close> if its body does not decode.\<close>

record lock_system =
  lk_object :: "lock_info option option"
  lk_now :: i64
  lk_phase :: "string \<Rightarrow> lock_phase"

definition goto_phase :: "string \<Rightarrow> lock_phase \<Rightarrow> lock_system \<Rightarrow> lock_system" where
  "goto_phase i p s = s\<lparr>lk_phase := (lk_phase s)(i := p)\<rparr>"

text \<open>The payload an instance writes; the clock may have moved on since it was read.\<close>

definition fresh_lock :: "string \<Rightarrow> lock_system \<Rightarrow> lock_info \<Rightarrow> bool" where
  "fresh_lock i s l \<longleftrightarrow>
     li_instance_id l = i \<and> li_ttl_secs l = TTL_SECS \<and> sint (li_acquired_at l) \<le> sint (lk_now s)"

definition put_lock :: "lock_info \<Rightarrow> lock_system \<Rightarrow> lock_system" where
  "put_lock l s = s\<lparr>lk_object := Some (Some l)\<rparr>"

definition drop_lock :: "lock_system \<Rightarrow> lock_system" where
  "drop_lock s = s\<lparr>lk_object := None\<rparr>"

inductive lock_step :: "string \<Rightarrow> lock_system \<Rightarrow> lock_system \<Rightarrow> bool" where
  put_done: "lk_phase s i \<in> {Trying, Retrying} \<Longrightarrow> lk_object s = None \<Longrightarrow> fresh_lock i s l \<Longrightarrow>
    lock_step i s (goto_phase i (Holding l) (put_lock l s))"
| put_refused: "lk_phase s i = Trying \<Longrightarrow> lk_object s \<noteq> None \<Longrightarrow> lock_step i s (goto_phase i Looking s)"
| put_refused_again: "lk_phase s i = Retrying \<Longrightarrow> lk_object s \<noteq> None \<Longrightarrow>
    lock_step i s (goto_phase i Unavailable s)"
| put_failed: "lk_phase s i \<in> {Trying, Retrying} \<Longrightarrow> lock_step i s (goto_phase i Trying s)"
| put_unanswered: "lk_phase s i \<in> {Trying, Retrying} \<Longrightarrow> lk_object s = None \<Longrightarrow> fresh_lock i s l \<Longrightarrow>
    lock_step i s (goto_phase i Trying (put_lock l s))"
| look: "lk_phase s i = Looking \<Longrightarrow> lk_object s = Some b \<Longrightarrow> lock_step i s (goto_phase i (Judging b) s)"
| look_failed: "lk_phase s i = Looking \<Longrightarrow> lock_step i s (goto_phase i Retrying s)"
| judge_corrupt: "lk_phase s i = Judging None \<Longrightarrow> lock_step i s (goto_phase i Breaking s)"
| judge_expired: "lk_phase s i = Judging (Some l) \<Longrightarrow> is_expired (lk_now s) l \<Longrightarrow>
    lock_step i s (goto_phase i Breaking s)"
| judge_valid: "lk_phase s i = Judging (Some l) \<Longrightarrow> \<not> is_expired (lk_now s) l \<Longrightarrow>
    lock_step i s (goto_phase i Unavailable s)"
| break_done: "lk_phase s i = Breaking \<Longrightarrow> lock_step i s (goto_phase i Retrying (drop_lock s))"
| break_failed: "lk_phase s i = Breaking \<Longrightarrow> lock_step i s (goto_phase i Retrying s)"
| try_again: "lk_phase s i = Unavailable \<Longrightarrow> lock_step i s (goto_phase i Trying s)"
| refresh_done: "lk_phase s i = Holding l \<Longrightarrow> lk_object s = Some (Some l) \<Longrightarrow> fresh_lock i s l' \<Longrightarrow>
    lock_step i s (goto_phase i (Holding l') (put_lock l' s))"
| refresh_unanswered: "lk_phase s i = Holding l \<Longrightarrow> lk_object s = Some (Some l) \<Longrightarrow> fresh_lock i s l' \<Longrightarrow>
    lock_step i s (put_lock l' s)"
| refresh_lost: "lk_phase s i = Holding l \<Longrightarrow> lk_object s \<noteq> Some (Some l) \<Longrightarrow>
    lock_step i s (goto_phase i Lost s)"
| release_other: "lk_phase s i = Holding l \<Longrightarrow> lk_object s = Some (Some x) \<Longrightarrow> li_instance_id x \<noteq> i \<Longrightarrow>
    lock_step i s (goto_phase i Released s)"
| release_own: "lk_phase s i = Holding l \<Longrightarrow> lk_object s = Some b \<Longrightarrow>
    (case b of None \<Rightarrow> True | Some x \<Rightarrow> li_instance_id x = i) \<Longrightarrow> lock_step i s (goto_phase i Releasing s)"
| release_blind: "lk_phase s i = Holding l \<Longrightarrow> lock_step i s (goto_phase i Releasing s)"
| release_done: "lk_phase s i = Releasing \<Longrightarrow> lock_step i s (goto_phase i Released (drop_lock s))"
| release_failed: "lk_phase s i = Releasing \<Longrightarrow> lock_step i s (goto_phase i Released s)"

inductive lock_tick :: "lock_system \<Rightarrow> lock_system \<Rightarrow> bool" where
  tick: "sint (lk_now s) \<le> sint t \<Longrightarrow> lock_tick s (s\<lparr>lk_now := t\<rparr>)"

definition lock_run :: "lock_system \<Rightarrow> lock_system \<Rightarrow> bool" where
  "lock_run = (\<lambda>s s'. (\<exists>i. lock_step i s s') \<or> lock_tick s s')\<^sup>*\<^sup>*"

inductive_cases lock_stepE: "lock_step i s s'"
inductive_cases lock_tickE: "lock_tick s s'"

lemma goto_phase_simps [simp]:
  "lk_object (goto_phase i p s) = lk_object s" "lk_now (goto_phase i p s) = lk_now s"
  "lk_phase (goto_phase i p s) j = (if j = i then p else lk_phase s j)"
  by (simp_all add: goto_phase_def)

lemma put_lock_simps [simp]:
  "lk_object (put_lock l s) = Some (Some l)" "lk_now (put_lock l s) = lk_now s"
  "lk_phase (put_lock l s) = lk_phase s"
  "lk_object (drop_lock s) = None" "lk_now (drop_lock s) = lk_now s" "lk_phase (drop_lock s) = lk_phase s"
  by (simp_all add: put_lock_def drop_lock_def)

lemma fresh_lock_simps [simp]:
  "fresh_lock i (goto_phase j p s) l = fresh_lock i s l"
  "fresh_lock i s (new_lock_info lc i' t) \<longleftrightarrow> i' = i \<and> sint t \<le> sint (lk_now s)"
  by (simp_all add: fresh_lock_def new_lock_info_def)

section \<open>Mutual exclusion\<close>

text \<open>
  A run in which no lock that was read is found stale: a holder that is alive refreshes its lock in
  time, and no instance died holding it.
\<close>

definition none_stale :: "lock_system \<Rightarrow> bool" where
  "none_stale s \<longleftrightarrow>
     (\<forall>i b. lk_phase s i = Judging b \<longrightarrow> (\<exists>l. b = Some l \<and> \<not> is_expired (lk_now s) l))"

inductive calm_run :: "lock_system \<Rightarrow> lock_system \<Rightarrow> bool" for s0 where
  start: "calm_run s0 s0"
| step: "calm_run s0 s \<Longrightarrow> none_stale s \<Longrightarrow> lock_step i s s' \<Longrightarrow> calm_run s0 s'"
| time: "calm_run s0 s \<Longrightarrow> lock_tick s s' \<Longrightarrow> calm_run s0 s'"

text \<open>Who has the lock, or is about to delete it as its own.\<close>

definition holds_lock :: "lock_system \<Rightarrow> string \<Rightarrow> bool" where
  "holds_lock s i \<longleftrightarrow> lk_phase s i = Releasing \<or> (\<exists>l. lk_phase s i = Holding l)"

definition owned_by :: "lock_system \<Rightarrow> string \<Rightarrow> bool" where
  "owned_by s i \<longleftrightarrow> (\<exists>l. lk_object s = Some (Some l) \<and> li_instance_id l = i)"

definition lock_inv :: "lock_system \<Rightarrow> bool" where
  "lock_inv s \<longleftrightarrow> (\<forall>i. lk_phase s i \<noteq> Breaking \<and> (holds_lock s i \<longrightarrow> owned_by s i))"

lemma owned_by_unique: "owned_by s i \<Longrightarrow> owned_by s j \<Longrightarrow> i = j"
  by (auto simp: owned_by_def)

text \<open>What an instance may do to the invariant: the others keep what they have.\<close>

lemma lock_step_frame:
  assumes "lock_step i s s'"
  shows "lk_phase s' j = (if j = i then lk_phase s' i else lk_phase s j)"
  using assms by (cases rule: lock_step.cases) simp_all

lemma lock_step_own:
  assumes "lock_step i s s'" and "lock_inv s" and "none_stale s"
  shows "lk_phase s' i \<noteq> Breaking \<and> (holds_lock s' i \<longrightarrow> owned_by s' i)"
proof -
  have "holds_lock s i \<longrightarrow> owned_by s i" and "lk_phase s i \<noteq> Breaking" using assms(2) by (simp_all add: lock_inv_def)
  with assms(1,3) show ?thesis
    by (cases rule: lock_step.cases) (auto simp: holds_lock_def owned_by_def none_stale_def fresh_lock_def)
qed

lemma lock_step_object:
  assumes "lock_step i s s'" and "lock_inv s"
  shows "lk_object s' = lk_object s \<or> owned_by s i \<or> lk_object s = None"
proof -
  have "holds_lock s i \<longrightarrow> owned_by s i" and "lk_phase s i \<noteq> Breaking" using assms(2) by (simp_all add: lock_inv_def)
  with assms(1) show ?thesis by (cases rule: lock_step.cases) (auto simp: holds_lock_def)
qed

lemma lock_inv_step:
  assumes "lock_step i s s'" and "lock_inv s" and "none_stale s"
  shows "lock_inv s'"
  unfolding lock_inv_def
proof
  fix j
  show "lk_phase s' j \<noteq> Breaking \<and> (holds_lock s' j \<longrightarrow> owned_by s' j)"
  proof (cases "j = i")
    case True
    with lock_step_own [OF assms] show ?thesis by simp
  next
    case False
    then have eq: "lk_phase s' j = lk_phase s j" using lock_step_frame [OF assms(1), of j] by simp
    have j: "lk_phase s j \<noteq> Breaking" "holds_lock s j \<longrightarrow> owned_by s j"
      using assms(2) by (simp_all add: lock_inv_def)
    have "holds_lock s j \<longrightarrow> lk_object s' = lk_object s"
      using j lock_step_object [OF assms(1,2)] owned_by_unique [of s i j] False
      by (auto simp: owned_by_def)
    with eq j show ?thesis by (auto simp: holds_lock_def owned_by_def)
  qed
qed

lemma lock_inv_tick: "lock_tick s s' \<Longrightarrow> lock_inv s \<Longrightarrow> lock_inv s'"
  by (auto elim!: lock_tickE simp: lock_inv_def holds_lock_def owned_by_def)

lemma calm_run_inv: "calm_run s0 s \<Longrightarrow> lock_inv s0 \<Longrightarrow> lock_inv s"
  by (induction rule: calm_run.induct) (auto intro: lock_inv_step lock_inv_tick)

definition lock_free :: "lock_system \<Rightarrow> bool" where
  "lock_free s \<longleftrightarrow> lk_object s = None \<and> (\<forall>i. lk_phase s i = Trying)"

lemma lock_free_inv: "lock_free s \<Longrightarrow> lock_inv s"
  by (simp add: lock_free_def lock_inv_def holds_lock_def)

text \<open>
  C15. Mutual exclusion: from a bucket without a lock, in every interleaving of the instances'
  requests, lost answers included, in which no lock that is read has expired, two instances that
  have the lock are the same, and the object of the lock is that instance's.
\<close>

theorem lock_mutual_exclusion:
  assumes "lock_free s0" and "calm_run s0 s" and "holds_lock s i" and "holds_lock s j"
  shows "i = j \<and> owned_by s i"
proof -
  have inv: "lock_inv s" by (rule calm_run_inv [OF assms(2) lock_free_inv [OF assms(1)]])
  with assms(3,4) have "owned_by s i" "owned_by s j" by (simp_all add: lock_inv_def)
  then show ?thesis using owned_by_unique by blast
qed

text \<open>A run of two instances: one puts its lock, the other is refused, reads it and finds it valid.\<close>

definition free_system :: lock_system where
  "free_system = \<lparr>lk_object = None, lk_now = 100, lk_phase = \<lambda>_. Trying\<rparr>"

definition lock_of_a :: lock_info where
  "lock_of_a = \<lparr>li_instance_id = ''a'', li_hostname = [], li_acquired_at = 100, li_ttl_secs = TTL_SECS\<rparr>"

definition contended_system :: lock_system where
  "contended_system = goto_phase ''b'' Unavailable (goto_phase ''b'' (Judging (Some lock_of_a))
     (goto_phase ''b'' Looking (goto_phase ''a'' (Holding lock_of_a) (put_lock lock_of_a free_system))))"

lemma free_system_simps [simp]:
  "lk_object free_system = None" "lk_now free_system = 100" "lk_phase free_system i = Trying"
  by (simp_all add: free_system_def)

lemma contended_run: "calm_run free_system contended_system"
proof -
  let ?l = lock_of_a
  let ?s1 = "goto_phase ''a'' (Holding ?l) (put_lock ?l free_system)"
  let ?s2 = "goto_phase ''b'' Looking ?s1"
  let ?s3 = "goto_phase ''b'' (Judging (Some ?l)) ?s2"
  have valid: "\<not> is_expired 100 ?l" by (simp add: is_expired_def lock_of_a_def TTL_SECS_def)
  have "calm_run free_system ?s1"
    by (rule calm_run.step [OF calm_run.start, where i = "''a''"])
       (auto simp: none_stale_def lock_of_a_def fresh_lock_def intro!: put_done)
  then have "calm_run free_system ?s2"
    by (rule calm_run.step [where i = "''b''"]) (auto simp: none_stale_def intro!: put_refused)
  then have "calm_run free_system ?s3"
    by (rule calm_run.step [where i = "''b''"]) (auto simp: none_stale_def intro!: look)
  then show ?thesis unfolding contended_system_def
    by (rule calm_run.step [where i = "''b''"]) (auto simp: none_stale_def valid intro!: judge_valid)
qed

theorem lock_mutual_exclusion_witness:
  "holds_lock contended_system ''a'' \<and> owned_by contended_system ''a''"
proof -
  have a: "holds_lock contended_system ''a''" by (simp add: holds_lock_def contended_system_def)
  have "lock_free free_system" by (simp add: lock_free_def)
  from a lock_mutual_exclusion [OF this contended_run a a] show ?thesis by simp
qed

end
