(* ===== verification/Lock_Refinement.thy ===== *)
theory Lock_Refinement
  imports Lock_Protocol Byte_Stream
begin

text \<open>
  The acquisition and the release of \<open>Gc_Lock\<close> refine the steps of \<open>Lock_Protocol\<close>, whatever the
  other instances do before, between and during their requests: a locale over the service with its
  interpretation on the bucket in memory, and the race between two instances that break the same
  stale lock.
\<close>

section \<open>What the other instances may do\<close>

definition others_run :: "string \<Rightarrow> lock_system \<Rightarrow> lock_system \<Rightarrow> bool" where
  "others_run i = (\<lambda>s s'. (\<exists>j. j \<noteq> i \<and> lock_step j s s') \<or> lock_tick s s')\<^sup>*\<^sup>*"

lemma others_refl [simp]: "others_run i s s"
  by (simp add: others_run_def)

lemma lock_run_refl [simp]: "lock_run s s"
  by (simp add: lock_run_def)

lemma lock_run_trans [trans]: "lock_run s s' \<Longrightarrow> lock_run s' s'' \<Longrightarrow> lock_run s s''"
  by (simp add: lock_run_def)

lemma lock_run_step: "lock_step i s s' \<Longrightarrow> lock_run s s'"
  by (auto simp: lock_run_def)

text \<open>They neither see nor change where this instance is.\<close>

lemma lock_step_goto:
  assumes "lock_step j s s'" and "j \<noteq> i"
  shows "lock_step j (goto_phase i p s) (goto_phase i p s')"
proof -
  have c: "goto_phase i p (goto_phase j q u) = goto_phase j q (goto_phase i p u)" for q u
    using assms(2) by (simp add: goto_phase_def fun_upd_twist)
  have l: "goto_phase i p (put_lock x u) = put_lock x (goto_phase i p u)"
    "goto_phase i p (drop_lock u) = drop_lock (goto_phase i p u)" for x u
    by (simp_all add: goto_phase_def put_lock_def drop_lock_def)
  from assms show ?thesis
    by (cases rule: lock_step.cases) (simp_all add: c l lock_step.intros)
qed

lemma others_run_goto: "others_run i s s' \<Longrightarrow> lock_run (goto_phase i p s) (goto_phase i p s')"
  unfolding others_run_def
proof (induction rule: rtranclp_induct)
  case (step y z)
  have "lock_run (goto_phase i p y) (goto_phase i p z)"
    using step.hyps(2)
  proof
    assume "\<exists>j. j \<noteq> i \<and> lock_step j y z"
    then show ?thesis by (blast intro: lock_run_step lock_step_goto)
  next
    assume "lock_tick y z"
    then obtain t where t: "sint (lk_now y) \<le> sint t" "z = y\<lparr>lk_now := t\<rparr>" by (auto elim: lock_tickE)
    then have "goto_phase i p z = (goto_phase i p y)\<lparr>lk_now := t\<rparr>" by (simp add: goto_phase_def)
    with t(1) have "lock_tick (goto_phase i p y) (goto_phase i p z)"
      using lock_tick.intros [of "goto_phase i p y" t] by simp
    then show ?thesis by (auto simp: lock_run_def)
  qed
  with step.IH show ?case by (rule lock_run_trans)
qed simp

lemma lock_step_now: "lock_step j s s' \<Longrightarrow> lk_now s' = lk_now s"
  by (erule lock_step.cases) simp_all

lemma others_run_now: "others_run i s s' \<Longrightarrow> sint (lk_now s) \<le> sint (lk_now s')"
  unfolding others_run_def
  by (induction rule: rtranclp_induct) (auto dest: lock_step_now elim!: lock_tickE)

section \<open>The code follows the protocol\<close>

text \<open>
  A service that answers instance \<open>i\<close> while others work: before a request takes effect, and until
  its answer arrives, any steps of the others and of the clock may happen. \<open>view\<close> reads the lock
  object, the clock and where the others are. A request that failed may have taken effect.
\<close>

definition at_phase :: "('s \<Rightarrow> lock_system) \<Rightarrow> string \<Rightarrow> lock_phase \<Rightarrow> 's world \<Rightarrow> lock_system" where
  "at_phase view i p w = goto_phase i p (view (svc w))"

text \<open>
  \<open>lock_follows view i p m Q\<close>: started where instance \<open>i\<close> is at \<open>p\<close>, every run of \<open>m\<close> is a run of the
  protocol, which ends where \<open>Q\<close> says for the outcome.
\<close>

definition lock_follows ::
  "('s \<Rightarrow> lock_system) \<Rightarrow> string \<Rightarrow> lock_phase \<Rightarrow> ('s, 'a) io \<Rightarrow> ('a outcome \<Rightarrow> lock_phase \<Rightarrow> bool) \<Rightarrow> bool"
where
  "lock_follows view i p m Q \<longleftrightarrow> (\<forall>w r w'. m w = (r, w') \<longrightarrow>
     (\<exists>q. lock_run (at_phase view i p w) (at_phase view i q w') \<and> Q r q))"

lemma lock_followsI:
  assumes "\<And>w r w'. m w = (r, w') \<Longrightarrow>
    \<exists>q. lock_run (at_phase view i p w) (at_phase view i q w') \<and> Q r q"
  shows "lock_follows view i p m Q"
  using assms by (simp add: lock_follows_def)

lemma lock_followsD:
  assumes "lock_follows view i p m Q" and "m w = (r, w')"
  obtains q where "lock_run (at_phase view i p w) (at_phase view i q w')" and "Q r q"
  using assms unfolding lock_follows_def by metis

lemma lock_follows_return: "Q (Ok x) p \<Longrightarrow> lock_follows view i p (io_return x) Q"
  unfolding lock_follows_def io_return_def by (metis Pair_inject lock_run_refl)

lemma lock_follows_fail: "Q (Err e) p \<Longrightarrow> lock_follows view i p (io_fail e) Q"
  unfolding lock_follows_def io_fail_def by (metis Pair_inject lock_run_refl)

lemma lock_follows_match:
  assumes m: "lock_follows view i p m R"
    and f: "\<And>x q. R (Ok x) q \<Longrightarrow> lock_follows view i q (f x) Q"
    and g: "\<And>e q. R (Err e) q \<Longrightarrow> lock_follows view i q (g e) Q"
    and stop: "\<And>q. Q Panic q" "\<And>q. Q Dropped q" "\<And>q. Q Diverge q"
  shows "lock_follows view i p (io_match m f g) Q"
proof (rule lock_followsI)
  fix w r w'
  assume run: "io_match m f g w = (r, w')"
  obtain a u where a: "m w = (a, u)" by fastforce
  obtain q where q: "lock_run (at_phase view i p w) (at_phase view i q u)" "R a q"
    using m a by (rule lock_followsD)
  have on: "\<exists>q. lock_run (at_phase view i p w) (at_phase view i q w') \<and> Q r q"
    if n: "n u = (r, w')" "lock_follows view i q n Q" for n
  proof -
    obtain q' where "lock_run (at_phase view i q u) (at_phase view i q' w')" "Q r q'"
      using n(2,1) by (rule lock_followsD)
    with q(1) show ?thesis by (blast intro: lock_run_trans)
  qed
  show "\<exists>q. lock_run (at_phase view i p w) (at_phase view i q w') \<and> Q r q"
  proof (cases a)
    case (Ok x)
    with run a have "f x u = (r, w')" by (simp add: io_match_def)
    then show ?thesis by (rule on) (use f q(2) Ok in simp)
  next
    case (Err e)
    with run a have "g e u = (r, w')" by (simp add: io_match_def)
    then show ?thesis by (rule on) (use g q(2) Err in simp)
  qed (use run a q stop in \<open>auto simp: io_match_def\<close>)
qed

lemma lock_follows_bind:
  assumes "lock_follows view i p m R"
    and "\<And>x q. R (Ok x) q \<Longrightarrow> lock_follows view i q (f x) Q"
    and "\<And>e q. R (Err e) q \<Longrightarrow> Q (Err e) q"
    and "\<And>q. Q Panic q" "\<And>q. Q Dropped q" "\<And>q. Q Diverge q"
  shows "lock_follows view i p (io_bind m f) Q"
  unfolding io_match_as_bind
  by (rule lock_follows_match [OF assms(1,2) _ assms(4-6)])
     (auto intro: lock_follows_fail assms(3))

text \<open>Where the outcome of a put leaves the instance.\<close>

definition put_ends :: "lock_codec \<Rightarrow> string \<Rightarrow> lock_phase \<Rightarrow> string option outcome \<Rightarrow> lock_phase \<Rightarrow> bool" where
  "put_ends lc i refused r q \<longleftrightarrow>
     (case r of
        Ok (Some e) \<Rightarrow> (\<exists>t. q = Holding (new_lock_info lc i t))
      | Ok None \<Rightarrow> q = refused
      | Err e \<Rightarrow> q = Trying
      | _ \<Rightarrow> True)"

lemma put_ends_simps [simp]:
  "put_ends lc i p (Ok (Some e)) q \<longleftrightarrow> (\<exists>t. q = Holding (new_lock_info lc i t))"
  "put_ends lc i p (Ok None) q \<longleftrightarrow> q = p" "put_ends lc i p (Err x) q \<longleftrightarrow> q = Trying"
  "put_ends lc i p Panic q" "put_ends lc i p Dropped q" "put_ends lc i p Diverge q"
  by (simp_all add: put_ends_def)

text \<open>Where the attempts of an acquisition leave it.\<close>

definition attempts_end :: "lock_codec \<Rightarrow> string \<Rightarrow> string option outcome \<Rightarrow> lock_phase \<Rightarrow> bool" where
  "attempts_end lc i r q \<longleftrightarrow>
     (case r of
        Ok (Some e) \<Rightarrow> (\<exists>t. q = Holding (new_lock_info lc i t))
      | Ok None \<Rightarrow> q = Unavailable \<or> q = Trying
      | Err e \<Rightarrow> q = Trying
      | _ \<Rightarrow> True)"

lemma attempts_end_simps [simp]:
  "attempts_end lc i (Ok (Some e)) q \<longleftrightarrow> (\<exists>t. q = Holding (new_lock_info lc i t))"
  "attempts_end lc i (Ok None) q \<longleftrightarrow> q = Unavailable \<or> q = Trying"
  "attempts_end lc i (Err x) q \<longleftrightarrow> q = Trying"
  "attempts_end lc i Panic q" "attempts_end lc i Dropped q" "attempts_end lc i Diverge q"
  by (simp_all add: attempts_end_def)

text \<open>A get by its one request.\<close>

lemma get_object_outcome:
  assumes "get_object env st LOCK_KEY w = (r, w')"
    and "await env (ReqGet (lock_object st)) (s3_get env (lock_object st)) w = (a, v)"
  shows "(r, w') = (case a of
      Ok (Inr (Some b)) \<Rightarrow> (Ok b, v) | Ok (Inr None) \<Rightarrow> (Err BodyReadFailed, v)
    | Ok (Inl e) \<Rightarrow> (Err (S3Failure e), v)
    | Err e \<Rightarrow> (Err e, v) | Panic \<Rightarrow> (Panic, v) | Dropped \<Rightarrow> (Dropped, v) | Diverge \<Rightarrow> (Diverge, v))"
  using assms
  by (auto simp: get_object_def send_def io_bind_def io_return_def io_fail_def lock_object_def Let_def
      split: outcome.splits sum.splits option.splits)

locale lock_service =
  fixes env :: "'s env" and lc :: lock_codec and st :: storage and i :: string
    and view :: "'s \<Rightarrow> lock_system"
  assumes view_now: "lk_now (view s) = epoch_secs (clock_ns env s)"
    and pause: "others_run i (view s) (view (do_sleep env ms s))"
    and put_law: "s3_put env (lock_object st) (enc_lock lc (new_lock_info lc i t)) None True s = (r, s') \<Longrightarrow>
      \<exists>u. others_run i (view s) u \<and> (case r of
          Inr e \<Rightarrow> lk_object u = None \<and> others_run i (put_lock (new_lock_info lc i t) u) (view s')
        | Inl e \<Rightarrow>
            if is_precondition_failed e then lk_object u \<noteq> None \<and> others_run i u (view s')
            else others_run i u (view s') \<or>
              lk_object u = None \<and> others_run i (put_lock (new_lock_info lc i t) u) (view s'))"
    and get_law: "s3_get env (lock_object st) s = (a, s') \<Longrightarrow>
      \<exists>u. others_run i (view s) u \<and> others_run i u (view s') \<and>
        (\<forall>b. a = Inr (Some b) \<longrightarrow> lk_object u = Some (dec_lock lc b))"
    and delete_law: "s3_delete env (lock_object st) s = (d, s') \<Longrightarrow>
      \<exists>u. others_run i (view s) u \<and>
        (others_run i (drop_lock u) (view s') \<or> (\<exists>e. d = Inl e) \<and> others_run i u (view s'))"
begin

abbreviation follows :: "lock_phase \<Rightarrow> ('s, 'b) io \<Rightarrow> ('b outcome \<Rightarrow> lock_phase \<Rightarrow> bool) \<Rightarrow> bool" where
  "follows \<equiv> lock_follows view i"

text \<open>One request: the others, the step it makes, the others.\<close>

lemma request_steps:
  assumes "others_run i (view (svc w)) u" and "lock_step i (goto_phase i p u) (goto_phase i q u')"
    and "others_run i u' (view (svc w'))"
  shows "lock_run (at_phase view i p w) (at_phase view i q w')"
  unfolding at_phase_def
  by (rule lock_run_trans [OF others_run_goto [OF assms(1)]
        lock_run_trans [OF lock_run_step [OF assms(2)] others_run_goto [OF assms(3)]]])

lemma goto_goto: "goto_phase i q (goto_phase i p u) = goto_phase i q u"
  "goto_phase i q (put_lock l u) = put_lock l (goto_phase i q u)"
  "goto_phase i q (drop_lock u) = drop_lock (goto_phase i q u)"
  by (simp_all add: goto_phase_def put_lock_def drop_lock_def)

lemma put_step:
  assumes "p = Trying \<and> refused = Looking \<or> p = Retrying \<and> refused = Unavailable"
    and now: "sint t \<le> sint (lk_now (view (svc w)))"
    and call: "s3_put env (lock_object st) (enc_lock lc (new_lock_info lc i t)) None True (svc w) = (r, svc w')"
  shows "lock_run (at_phase view i p w) (at_phase view i
    (case r of Inr e \<Rightarrow> Holding (new_lock_info lc i t) | Inl e \<Rightarrow> if is_precondition_failed e then refused else Trying) w')"
proof -
  let ?l = "new_lock_info lc i t"
  obtain u where u: "others_run i (view (svc w)) u" and r: "case r of
          Inr e \<Rightarrow> lk_object u = None \<and> others_run i (put_lock ?l u) (view (svc w'))
        | Inl e \<Rightarrow>
            if is_precondition_failed e then lk_object u \<noteq> None \<and> others_run i u (view (svc w'))
            else others_run i u (view (svc w')) \<or>
              lk_object u = None \<and> others_run i (put_lock ?l u) (view (svc w'))"
    using put_law [OF call] by blast
  have fresh: "fresh_lock i (goto_phase i p u) ?l" using others_run_now [OF u] now by simp
  have at: "lk_phase (goto_phase i p u) i \<in> {Trying, Retrying}" using assms(1) by auto
  have put: "lock_step i (goto_phase i p u) (goto_phase i (Holding ?l) (put_lock ?l u))"
    if "lk_object u = None"
    using put_done [OF at _ fresh] that by (simp add: goto_goto)
  have lost: "lock_step i (goto_phase i p u) (goto_phase i Trying (put_lock ?l u))"
    if "lk_object u = None"
    using put_unanswered [OF at _ fresh] that by (simp add: goto_goto)
  have failed: "lock_step i (goto_phase i p u) (goto_phase i Trying u)"
    using put_failed [OF at] by (simp add: goto_goto)
  have refused: "lock_step i (goto_phase i p u) (goto_phase i refused u)" if "lk_object u \<noteq> None"
    using assms(1) that put_refused [of "goto_phase i p u" i] put_refused_again [of "goto_phase i p u" i]
    by (auto simp: goto_goto)
  show ?thesis
  proof (cases r)
    case (Inr e)
    with r request_steps [OF u put] show ?thesis by simp
  next
    case (Inl e)
    then show ?thesis
      using r request_steps [OF u failed] request_steps [OF u lost] request_steps [OF u refused]
      by (auto split: if_splits)
  qed
qed

lemma await_cases:
  assumes "await env q call w = (r, w')"
  obtains "r = Dropped" "w' = w" | x where "r = Ok x" "call (svc w) = (x, svc w')"
  using assms by (auto simp: await_def split: if_splits prod.splits)

lemma follows_put:
  assumes "p = Trying \<and> refused = Looking \<or> p = Retrying \<and> refused = Unavailable"
  shows "follows p (try_put env lc st i) (put_ends lc i refused)"
proof (rule lock_followsI)
  fix w r w'
  assume run: "try_put env lc st i w = (r, w')"
  define t where "t = epoch_secs (clock_ns env (svc w))"
  let ?call = "s3_put env (lock_object st) (enc_lock lc (new_lock_info lc i t)) None True"
  let ?q = "ReqPut (lock_object st) (enc_lock lc (new_lock_info lc i t)) None True"
  obtain a v where a: "await env ?q ?call w = (a, v)" by fastforce
  have r: "(r, w') = (case a of
      Ok (Inr e) \<Rightarrow> (Ok (Some (case e of Some x \<Rightarrow> x | None \<Rightarrow> [])), v)
    | Ok (Inl e) \<Rightarrow> if is_precondition_failed e then (Ok None, v) else (Err (S3Failure e), v)
    | Err e \<Rightarrow> (Err e, v) | Panic \<Rightarrow> (Panic, v) | Dropped \<Rightarrow> (Dropped, v) | Diverge \<Rightarrow> (Diverge, v))"
    using run a
    by (auto simp: try_put_def now_epoch_secs_def clock_def io_bind_def io_return_def io_fail_def
        put_object_conditional_def lock_object_def t_def Let_def split: outcome.splits sum.splits if_splits)
  show "\<exists>q. lock_run (at_phase view i p w) (at_phase view i q w') \<and> put_ends lc i refused r q"
    using a
  proof (cases rule: await_cases)
    case 1
    with r have "r = Dropped" "w' = w" by simp_all
    then show ?thesis by (intro exI [of _ p]) simp
  next
    case (2 x)
    have "lock_run (at_phase view i p w) (at_phase view i
      (case x of Inr e \<Rightarrow> Holding (new_lock_info lc i t)
         | Inl e \<Rightarrow> if is_precondition_failed e then refused else Trying) v)"
      using assms by (rule put_step) (use 2 in \<open>simp_all add: view_now t_def\<close>)
    with r 2 show ?thesis by (auto split: sum.splits if_splits)
  qed
qed

lemma follows_get:
  "follows Looking (get_object env st LOCK_KEY)
     (\<lambda>r q. case r of Ok b \<Rightarrow> q = Judging (dec_lock lc b) | Err e \<Rightarrow> q = Retrying | _ \<Rightarrow> True)"
proof (rule lock_followsI)
  fix w r w'
  assume run: "get_object env st LOCK_KEY w = (r, w')"
  obtain a v where a: "await env (ReqGet (lock_object st)) (s3_get env (lock_object st)) w = (a, v)" by fastforce
  have r: "(r, w') = (case a of
      Ok (Inr (Some b)) \<Rightarrow> (Ok b, v) | Ok (Inr None) \<Rightarrow> (Err BodyReadFailed, v)
    | Ok (Inl e) \<Rightarrow> (Err (S3Failure e), v)
    | Err e \<Rightarrow> (Err e, v) | Panic \<Rightarrow> (Panic, v) | Dropped \<Rightarrow> (Dropped, v) | Diverge \<Rightarrow> (Diverge, v))"
    by (rule get_object_outcome [OF run a])
  show "\<exists>q. lock_run (at_phase view i Looking w) (at_phase view i q w') \<and>
    (case r of Ok b \<Rightarrow> q = Judging (dec_lock lc b) | Err e \<Rightarrow> q = Retrying | _ \<Rightarrow> True)"
    using a
  proof (cases rule: await_cases)
    case 1
    with r have "r = Dropped" "w' = w" by simp_all
    then show ?thesis by (intro exI [of _ Looking]) simp
  next
    case (2 x)
    obtain u where u: "others_run i (view (svc w)) u" "others_run i u (view (svc v))"
      and b: "\<forall>b. x = Inr (Some b) \<longrightarrow> lk_object u = Some (dec_lock lc b)"
      using get_law [OF 2(2)] by blast
    have look: "lock_step i (goto_phase i Looking u) (goto_phase i (Judging c) u)" if "lk_object u = Some c" for c
      using lock_step.look [of "goto_phase i Looking u" i c] that by (simp add: goto_goto)
    have failed: "lock_step i (goto_phase i Looking u) (goto_phase i Retrying u)"
      using look_failed [of "goto_phase i Looking u" i] by (simp add: goto_goto)
    show ?thesis
      using r 2 b request_steps [OF u(1) look u(2)] request_steps [OF u(1) failed u(2)]
      by (auto split: sum.splits option.splits)
  qed
qed

lemma follows_delete:
  assumes "p = Breaking \<and> p' = Retrying \<or> p = Releasing \<and> p' = Released"
  shows "follows p (delete_object env st LOCK_KEY) (\<lambda>r q. (\<exists>x. r = Ok x) \<or> (\<exists>e. r = Err e) \<longrightarrow> q = p')"
proof (rule lock_followsI)
  fix w r w'
  assume run: "delete_object env st LOCK_KEY w = (r, w')"
  obtain a v where a: "await env (ReqDelete (lock_object st)) (s3_delete env (lock_object st)) w = (a, v)" by fastforce
  have r: "(r, w') = (case a of
      Ok (Inr x) \<Rightarrow> (Ok x, v) | Ok (Inl e) \<Rightarrow> (Err (S3Failure e), v)
    | Err e \<Rightarrow> (Err e, v) | Panic \<Rightarrow> (Panic, v) | Dropped \<Rightarrow> (Dropped, v) | Diverge \<Rightarrow> (Diverge, v))"
    using run a
    by (auto simp: delete_object_def send_def io_bind_def io_return_def io_fail_def lock_object_def Let_def
        split: outcome.splits sum.splits)
  show "\<exists>q. lock_run (at_phase view i p w) (at_phase view i q w') \<and> ((\<exists>x. r = Ok x) \<or> (\<exists>e. r = Err e) \<longrightarrow> q = p')"
    using a
  proof (cases rule: await_cases)
    case 1
    with r have "r = Dropped" "w' = w" by simp_all
    then show ?thesis by (intro exI [of _ p]) simp
  next
    case (2 x)
    obtain u where u: "others_run i (view (svc w)) u"
      and v: "others_run i (drop_lock u) (view (svc v)) \<or> others_run i u (view (svc v))"
      using delete_law [OF 2(2)] by blast
    have "lock_step i (goto_phase i p u) (goto_phase i p' (drop_lock u))"
      "lock_step i (goto_phase i p u) (goto_phase i p' u)"
      using assms break_done [of "goto_phase i p u" i] break_failed [of "goto_phase i p u" i]
        release_done [of "goto_phase i p u" i] release_failed [of "goto_phase i p u" i]
      by (auto simp: goto_goto)
    with request_steps [OF u] v have "lock_run (at_phase view i p w) (at_phase view i p' v)" by blast
    moreover have "w' = v" using r 2 by (auto split: sum.splits)
    ultimately show ?thesis by blast
  qed
qed

lemma follows_weaken:
  assumes "follows p m R" and "\<And>r q. R r q \<Longrightarrow> Q r q"
  shows "follows p m Q"
  using assms unfolding lock_follows_def by blast

lemma follows_from: "lock_step i (goto_phase i p u) (goto_phase i q u) \<Longrightarrow> u = view (svc w) \<Longrightarrow>
    lock_run (at_phase view i p w) (at_phase view i q w)"
  by (simp add: at_phase_def lock_run_step)

lemmas put_again = follows_put [of Retrying Unavailable, simplified]

lemma follows_break: "follows Breaking (break_stale env lc st i) (put_ends lc i Unavailable)"
  unfolding break_stale_def
  by (rule lock_follows_match [OF follows_delete [of Breaking Retrying, simplified]])
     (auto intro: put_again)

lemma follows_judge:
  "follows (Judging (dec_lock lc b))
     (case dec_lock lc b of
        None \<Rightarrow> break_stale env lc st i
      | Some existing \<Rightarrow> io_bind (now_epoch_secs env) (\<lambda>now.
          if is_expired now existing then break_stale env lc st i else io_return None))
     (put_ends lc i Unavailable)"
proof (rule lock_followsI)
  fix w r w'
  assume run: "(case dec_lock lc b of
        None \<Rightarrow> break_stale env lc st i
      | Some existing \<Rightarrow> io_bind (now_epoch_secs env) (\<lambda>now.
          if is_expired now existing then break_stale env lc st i else io_return None)) w = (r, w')"
  let ?now = "epoch_secs (clock_ns env (svc w))"
  let ?at = "goto_phase i (Judging (dec_lock lc b)) (view (svc w))"
  let ?stale = "case dec_lock lc b of None \<Rightarrow> True | Some l \<Rightarrow> is_expired ?now l"
  have now: "now_epoch_secs env w = (Ok ?now, w)"
    by (simp add: now_epoch_secs_def clock_def io_bind_def io_return_def)
  show "\<exists>q. lock_run (at_phase view i (Judging (dec_lock lc b)) w) (at_phase view i q w') \<and>
      put_ends lc i Unavailable r q"
  proof (cases ?stale)
    case True
    have "lock_step i ?at (goto_phase i Breaking (view (svc w)))"
      using True judge_corrupt [of ?at i] judge_expired [of ?at i]
      by (auto simp: goto_goto view_now split: option.splits)
    note go = follows_from [OF this refl]
    have "break_stale env lc st i w = (r, w')"
      using run True now by (auto simp: io_bind_def split: option.splits)
    then obtain q where "lock_run (at_phase view i Breaking w) (at_phase view i q w')"
      "put_ends lc i Unavailable r q"
      by (rule lock_followsD [OF follows_break])
    with go show ?thesis by (blast intro: lock_run_trans)
  next
    case False
    have "lock_step i ?at (goto_phase i Unavailable (view (svc w)))"
      using False judge_valid [of ?at i] by (auto simp: goto_goto view_now split: option.splits)
    note go = follows_from [OF this refl]
    have "r = Ok None" "w' = w"
      using run False now by (auto simp: io_bind_def io_return_def split: option.splits)
    with go show ?thesis by auto
  qed
qed

lemma follows_acquire: "follows Trying (acquire env lc st i) (put_ends lc i Unavailable)"
  unfolding acquire_def
proof (rule lock_follows_bind [OF follows_put [of Trying Looking, simplified]])
  fix x q
  assume q: "put_ends lc i Looking (Ok x) q"
  show "follows q (case x of Some etag \<Rightarrow> io_return (Some etag)
      | None \<Rightarrow> io_match (get_object env st LOCK_KEY) (\<lambda>data. case dec_lock lc data of
            None \<Rightarrow> break_stale env lc st i
          | Some existing \<Rightarrow> io_bind (now_epoch_secs env) (\<lambda>now.
              if is_expired now existing then break_stale env lc st i else io_return None))
          (\<lambda>_. try_put env lc st i)) (put_ends lc i Unavailable)"
  proof (cases x)
    case None
    with q have "q = Looking" by simp
    with None show ?thesis
      by (auto intro!: lock_follows_match [OF follows_get] follows_judge put_again)
  next
    case (Some etag)
    with q show ?thesis by (auto intro!: lock_follows_return)
  qed
qed simp_all

lemma follows_sleep: "follows p (sleep env ms) (\<lambda>r q. q = p \<and> (\<forall>e. r \<noteq> Err e))"
proof (rule lock_followsI)
  fix w r w'
  assume s: "sleep env ms w = (r, w')"
  then have "svc w' = svc w \<or> svc w' = do_sleep env ms (svc w)"
    by (auto simp: sleep_def await_def split: if_splits)
  then have "lock_run (at_phase view i p w) (at_phase view i p w')"
    using others_run_goto [OF pause] by (auto simp: at_phase_def)
  moreover have "r \<noteq> Err e" for e using s by (auto simp: sleep_def)
  ultimately show "\<exists>q. lock_run (at_phase view i p w) (at_phase view i q w') \<and> q = p \<and> (\<forall>e. r \<noteq> Err e)"
    by blast
qed

lemma follows_again:
  assumes "follows Trying m Q" shows "follows Unavailable m Q"
proof (rule lock_followsI)
  fix w r w'
  assume "m w = (r, w')"
  then obtain q where q: "lock_run (at_phase view i Trying w) (at_phase view i q w')" "Q r q"
    by (rule lock_followsD [OF assms])
  have "lock_step i (goto_phase i Unavailable (view (svc w))) (goto_phase i Trying (view (svc w)))"
    using try_again [of "goto_phase i Unavailable (view (svc w))" i] by (simp add: goto_goto)
  from follows_from [OF this refl] q show "\<exists>q. lock_run (at_phase view i Unavailable w) (at_phase view i q w') \<and> Q r q"
    by (blast intro: lock_run_trans)
qed

lemma follows_attempts: "follows Trying (acquire_attempts env lc st i m ns) (attempts_end lc i)"
proof (induction ns)
  case Nil
  show ?case by (simp add: lock_follows_return)
next
  case (Cons n ns)
  have again: "follows q (io_bind (sleep env ms) (\<lambda>_. acquire_attempts env lc st i m ns)) (attempts_end lc i)"
    if "q = Trying \<or> q = Unavailable" for q ms
    by (rule lock_follows_bind [OF follows_sleep [of q]]) (use that Cons.IH in \<open>auto intro: follows_again\<close>)
  show ?case
    unfolding acquire_attempts.simps
  proof (rule lock_follows_match [OF follows_acquire])
    fix x q
    assume "put_ends lc i Unavailable (Ok x) q"
    then show "follows q (case x of Some etag \<Rightarrow> io_return (Some etag)
        | None \<Rightarrow> if n < m then io_bind (sleep env (2 ^ min n 5 * 1000)) (\<lambda>_. acquire_attempts env lc st i m ns)
            else io_return None) (attempts_end lc i)"
      by (cases x) (auto intro!: again lock_follows_return)
  qed (auto intro!: again lock_follows_fail)
qed

text \<open>The release, of a lock that is held.\<close>

lemma follows_release_get:
  "follows (Holding l) (get_object env st LOCK_KEY)
     (\<lambda>r q. case r of
        Ok b \<Rightarrow> q = (case dec_lock lc b of
            Some x \<Rightarrow> if li_instance_id x \<noteq> i then Released else Releasing | None \<Rightarrow> Releasing)
      | Err e \<Rightarrow> q = Releasing
      | _ \<Rightarrow> True)"
proof (rule lock_followsI)
  fix w r w'
  assume run: "get_object env st LOCK_KEY w = (r, w')"
  let ?fin = "\<lambda>b. case dec_lock lc b of
    Some x \<Rightarrow> if li_instance_id x \<noteq> i then Released else Releasing | None \<Rightarrow> Releasing"
  obtain a v where a: "await env (ReqGet (lock_object st)) (s3_get env (lock_object st)) w = (a, v)" by fastforce
  have r: "(r, w') = (case a of
      Ok (Inr (Some b)) \<Rightarrow> (Ok b, v) | Ok (Inr None) \<Rightarrow> (Err BodyReadFailed, v)
    | Ok (Inl e) \<Rightarrow> (Err (S3Failure e), v)
    | Err e \<Rightarrow> (Err e, v) | Panic \<Rightarrow> (Panic, v) | Dropped \<Rightarrow> (Dropped, v) | Diverge \<Rightarrow> (Diverge, v))"
    by (rule get_object_outcome [OF run a])
  show "\<exists>q. lock_run (at_phase view i (Holding l) w) (at_phase view i q w') \<and>
    (case r of Ok b \<Rightarrow> q = ?fin b | Err e \<Rightarrow> q = Releasing | _ \<Rightarrow> True)"
    using a
  proof (cases rule: await_cases)
    case 1
    with r have "r = Dropped" "w' = w" by simp_all
    then show ?thesis by (intro exI [of _ "Holding l"]) simp
  next
    case (2 x)
    obtain u where u: "others_run i (view (svc w)) u" "others_run i u (view (svc v))"
      and b: "\<forall>b. x = Inr (Some b) \<longrightarrow> lk_object u = Some (dec_lock lc b)"
      using get_law [OF 2(2)] by blast
    have own: "lock_step i (goto_phase i (Holding l) u) (goto_phase i (?fin c) u)"
      if "lk_object u = Some (dec_lock lc c)" for c
      using that release_own [of "goto_phase i (Holding l) u" i l "dec_lock lc c"]
        release_other [of "goto_phase i (Holding l) u" i l]
      by (auto simp: goto_goto split: option.splits)
    have blind: "lock_step i (goto_phase i (Holding l) u) (goto_phase i Releasing u)"
      using release_blind [of "goto_phase i (Holding l) u" i l] by (simp add: goto_goto)
    show ?thesis
    proof (cases "\<exists>c. x = Inr (Some c)")
      case True
      with r 2 b request_steps [OF u(1) own u(2)] show ?thesis
        by (auto intro!: exI [of _ "?fin (the (projr x))"])
    next
      case False
      with r 2 request_steps [OF u(1) blind u(2)] show ?thesis
        by (auto split: sum.splits option.splits)
    qed
  qed
qed

lemma follows_delete_quietly:
  "follows Releasing (delete_quietly env st LOCK_KEY) (\<lambda>r q. r = Ok () \<longrightarrow> q = Released)"
  unfolding delete_quietly_def
  by (rule lock_follows_match [OF follows_delete [of Releasing Released, simplified]])
     (auto intro: lock_follows_return)

lemma follows_release:
  "follows (Holding l) (release env lc st i) (\<lambda>r q. r = Ok () \<longrightarrow> q = Released)"
  unfolding release_def
proof (rule lock_follows_match [OF follows_release_get])
  fix b q
  assume "case Ok b of Ok b \<Rightarrow> q = (case dec_lock lc b of
      Some x \<Rightarrow> if li_instance_id x \<noteq> i then Released else Releasing | None \<Rightarrow> Releasing)
    | Err e \<Rightarrow> q = Releasing | _ \<Rightarrow> True"
  then show "follows q (case dec_lock lc b of
      Some existing \<Rightarrow> if li_instance_id existing \<noteq> i then io_return () else delete_quietly env st LOCK_KEY
    | None \<Rightarrow> delete_quietly env st LOCK_KEY) (\<lambda>r q. r = Ok () \<longrightarrow> q = Released)"
    using follows_delete_quietly
    by (cases "dec_lock lc b") (auto intro: lock_follows_return)
qed (auto intro: follows_delete_quietly)

end

section \<open>A service that follows the laws\<close>

text \<open>
  The bucket in memory with a clock that stops below the end of the \<open>i64\<close> range, and a codec that
  keeps the instance and the time.
\<close>

definition stamp_codec :: lock_codec where
  "stamp_codec = \<lparr>
     enc_lock = \<lambda>l. write_u64 (li_acquired_at l) @ as_bytes (li_instance_id l),
     dec_lock = \<lambda>b. (if length b < 8 then None
       else Some \<lparr>li_instance_id = of_bytes (drop 8 b), li_hostname = [],
              li_acquired_at = word_of_nat (le_val (take 8 b)), li_ttl_secs = TTL_SECS\<rparr>),
     this_host = []\<rparr>"

lemma stamp_codec_roundtrip [simp]:
  "dec_lock stamp_codec (enc_lock stamp_codec (new_lock_info stamp_codec i t)) = Some (new_lock_info stamp_codec i t)"
  by (simp add: stamp_codec_def new_lock_info_def c64.put_length write_u64_def le_val_unat)

definition capped_env :: "mem env" where
  "capped_env = (mem_env {})\<lparr>clock_ns := \<lambda>s. min (mem_now s) (2 ^ 62)\<rparr>"

definition mem_view :: "storage \<Rightarrow> mem \<Rightarrow> lock_system" where
  "mem_view st s = \<lparr>lk_object = map_option (dec_lock stamp_codec) (mem_lookup s (lock_object st)),
     lk_now = epoch_secs (clock_ns capped_env s), lk_phase = \<lambda>_. Released\<rparr>"

lemma epoch_secs_mono:
  assumes "a \<le> b" and "b \<le> 2 ^ 62"
  shows "sint (epoch_secs a) \<le> sint (epoch_secs b)"
proof -
  have v: "sint (epoch_secs x) = max 0 (x div 1000000000)" if "x \<le> 2 ^ 62" for x
  proof (cases "x < 0")
    case False
    then have "0 \<le> x div 1000000000" and "x div 1000000000 < 2 ^ 63"
      using that by (simp_all add: div_int_pos_iff)
    then have "signed_take_bit 63 (x div 1000000000) = x div 1000000000"
      by (intro signed_take_bit_int_eq_self) simp_all
    then show ?thesis using False \<open>0 \<le> x div 1000000000\<close> by (simp add: epoch_secs_def sint_sbintrunc')
  next
    case True
    then have "x div 1000000000 < 0" by simp
    with True show ?thesis by (simp add: epoch_secs_def)
  qed
  have "a \<le> 2 ^ 62" using assms by simp
  then show ?thesis using v [of a] v [OF assms(2)] zdiv_mono1 [OF assms(1), of 1000000000] by simp
qed

lemma mem_put_law:
  assumes "mem_put k d None True s = (r, s')"
  shows "(case r of
      Inr e \<Rightarrow> mem_lookup s k = None \<and> s' = s\<lparr>mem_objs := (k, d, mem_now s) # mem_objs s\<rparr>
    | Inl e \<Rightarrow> is_precondition_failed e \<and> mem_lookup s k \<noteq> None \<and> s' = s)"
  using assms by (cases "mem_lookup s k") (auto simp: mem_put_def Let_def)

lemma mem_now_remove: "mem_now (mem_remove K s) = mem_now s"
  by (simp add: mem_remove_def)

interpretation capped: lock_service capped_env stamp_codec st i "mem_view st" for st i
proof
  fix s :: mem and t r s' a d ms
  show "lk_now (mem_view st s) = epoch_secs (clock_ns capped_env s)" by (simp add: mem_view_def)
  show "others_run i (mem_view st s) (mem_view st (do_sleep capped_env ms s))"
  proof -
    have "sint (lk_now (mem_view st s)) \<le> sint (lk_now (mem_view st (do_sleep capped_env ms s)))"
      by (simp add: mem_view_def capped_env_def epoch_secs_mono)
    from lock_tick.intros [OF this] show ?thesis
      by (auto simp: others_run_def mem_view_def capped_env_def)
  qed
  show "\<exists>u. others_run i (mem_view st s) u \<and> (case r of
        Inr e \<Rightarrow> lk_object u = None \<and> others_run i (put_lock (new_lock_info stamp_codec i t) u) (mem_view st s')
      | Inl e \<Rightarrow> if is_precondition_failed e then lk_object u \<noteq> None \<and> others_run i u (mem_view st s')
          else others_run i u (mem_view st s') \<or>
            lk_object u = None \<and> others_run i (put_lock (new_lock_info stamp_codec i t) u) (mem_view st s'))"
    if "s3_put capped_env (lock_object st) (enc_lock stamp_codec (new_lock_info stamp_codec i t)) None True s = (r, s')"
  proof -
    have put: "mem_put (lock_object st) (enc_lock stamp_codec (new_lock_info stamp_codec i t)) None True s = (r, s')"
      using that by (simp add: capped_env_def)
    have "put_lock (new_lock_info stamp_codec i t) (mem_view st s) = mem_view st s'" if "r = Inr e" for e
      using mem_put_law [OF put] that
      by (simp add: mem_view_def put_lock_def capped_env_def mem_lookup_def)
    with mem_put_law [OF put] show ?thesis
      by (intro exI [of _ "mem_view st s"]) (auto simp: mem_view_def split: sum.splits)
  qed
  show "\<exists>u. others_run i (mem_view st s) u \<and> others_run i u (mem_view st s') \<and>
      (\<forall>b. a = Inr (Some b) \<longrightarrow> lk_object u = Some (dec_lock stamp_codec b))"
    if "s3_get capped_env (lock_object st) s = (a, s')"
    using that by (intro exI [of _ "mem_view st s"]) (auto simp: capped_env_def mem_view_def split: option.splits)
  show "\<exists>u. others_run i (mem_view st s) u \<and>
      (others_run i (drop_lock u) (mem_view st s') \<or> (\<exists>e. d = Inl e) \<and> others_run i u (mem_view st s'))"
    if "s3_delete capped_env (lock_object st) s = (d, s')"
  proof -
    have "s' = mem_remove {lock_object st} s" using that by (simp add: capped_env_def)
    then have "drop_lock (mem_view st s) = mem_view st s'"
      by (simp add: mem_view_def drop_lock_def capped_env_def mem_now_remove)
    then show ?thesis by (intro exI [of _ "mem_view st s"]) simp
  qed
qed

section \<open>The theorems\<close>

text \<open>
  C16. The acquisition refines the protocol: while any other instances do anything the protocol
  allows between and during its requests, every run of it, however it ends, is a run of the
  protocol by this instance, which holds the lock with the payload it wrote if it returns an etag,
  and does not have it if it returns none or fails.
\<close>

theorem acquire_refines_protocol:
  assumes "lock_service env lc st i view"
    and "acquire_with_retry env lc st i m w = (r, w')"
  shows "\<exists>q. lock_run (at_phase view i Trying w) (at_phase view i q w') \<and> attempts_end lc i r q"
  using lock_followsD [OF lock_service.follows_attempts [OF assms(1)]
      assms(2) [unfolded acquire_with_retry_def]] by blast

text \<open>The lock of an instance that died a thousand seconds ago.\<close>

definition dead_lock :: lock_info where
  "dead_lock = new_lock_info stamp_codec ''dead'' 0"

definition stale_bucket :: mem where
  "stale_bucket = \<lparr>mem_objs = [(lock_object plain_storage, enc_lock stamp_codec dead_lock, 0)],
     mem_now = 1000000000000, mem_parts = []\<rparr>"

theorem acquire_refines_protocol_witness:
  "\<exists>q. lock_run (at_phase (mem_view plain_storage) ''b'' Trying (start_world stale_bucket))
      (at_phase (mem_view plain_storage) ''b'' q
        (snd (acquire_with_retry capped_env stamp_codec plain_storage ''b'' 3 (start_world stale_bucket)))) \<and>
    attempts_end stamp_codec ''b''
      (fst (acquire_with_retry capped_env stamp_codec plain_storage ''b'' 3 (start_world stale_bucket))) q"
  by (rule acquire_refines_protocol [OF capped.lock_service_axioms]) simp

text \<open>
  The release refines the protocol: started by an instance that holds the lock, every run of it
  is a run of the protocol, which ends released.
\<close>

theorem release_refines_protocol:
  assumes "lock_service env lc st i view" and "release env lc st i w = (r, w')"
  shows "\<exists>q. lock_run (at_phase view i (Holding l) w) (at_phase view i q w') \<and> (r = Ok () \<longrightarrow> q = Released)"
  using lock_followsD [OF lock_service.follows_release [OF assms(1)] assms(2)] by blast

theorem release_refines_protocol_witness:
  "\<exists>q. lock_run (at_phase (mem_view plain_storage) ''b'' (Holding dead_lock) (start_world stale_bucket))
      (at_phase (mem_view plain_storage) ''b'' q
        (snd (release capped_env stamp_codec plain_storage ''b'' (start_world stale_bucket)))) \<and>
    (fst (release capped_env stamp_codec plain_storage ''b'' (start_world stale_bucket)) = Ok () \<longrightarrow> q = Released)"
  by (rule release_refines_protocol [OF capped.lock_service_axioms]) simp

text \<open>
  Another instance acquires the lock after this one has read the stale lock and before its delete
  arrives.
\<close>

definition overtaken_env :: "mem env" where
  "overtaken_env = capped_env\<lparr>s3_delete := \<lambda>k s.
     (Inr (), mem_remove {k} (svc (snd (acquire capped_env stamp_codec plain_storage ''a'' (start_world s)))))\<rparr>"


lemma stale_lookup [simp]:
  "mem_lookup stale_bucket (lock_object plain_storage) = Some (enc_lock stamp_codec dead_lock)"
  by (simp add: mem_lookup_def stale_bucket_def)


lemma capped_env_simps [simp]:
  "s3_put capped_env = mem_put" "s3_get capped_env = s3_get (mem_env {})"
  "s3_delete capped_env = s3_delete (mem_env {})" "preempt capped_env s = False"
  "s3_put overtaken_env = mem_put" "s3_get overtaken_env = s3_get (mem_env {})" "preempt overtaken_env s = False"
  "clock_ns capped_env stale_bucket = 1000000000000" "clock_ns overtaken_env stale_bucket = 1000000000000"
  by (simp_all add: capped_env_def overtaken_env_def stale_bucket_def)



end
