(* ===== verification/Spec2Isabelle.thy ===== *)
theory Spec2Isabelle
  imports Part_Zip_Theorems Multipart Gc_Dangling Backup_Safety Restore_Props
    Command_Props Tui_Loop Snapshot_Run Lock_Refinement
begin

text \<open>
  chbk backs up the data parts of a ClickHouse server to a bucket and restores them.

  The program. A backup (\<open>create\_snapshot\<close> in \<open>src/snapshots.rs\<close>) asks ClickHouse for its active
  parts (\<open>src/clickhouse.rs\<close>), hard-links their directories into a staging area, and uploads each
  directory as one ZIP archive (\<open>src/part\_zip.rs\<close>) through a multipart upload (\<open>src/storage.rs\<close>) to
  the key of the part's content hash (\<open>src/util.rs\<close>, \<open>src/blob\_hash.rs\<close>), unless the latest manifest or
  a head request shows that the hash is already in the bucket. The manifest (\<open>src/manifest.rs\<close>) is
  written last and names the hash of every part. A restore (\<open>restore\_snapshot\<close>) downloads a
  manifest, selects parts, extracts their archives and may attach them. Garbage collection
  (\<open>src/gc.rs\<close>) deletes the blobs that no manifest names, removes a snapshot, or prunes old ones, under
  a lock that is an object of the bucket (\<open>src/gc/lock.rs\<close>). A backup reports to a progress display
  or a plain log (\<open>src/tui.rs\<close>). \<open>src/main.rs\<close> checks the arguments and dispatches the command.

  How code is translated. An operation is a function on a \<open>world\<close> (theory \<open>World\<close>): the state of all
  that is outside the process, the progress counters, and the log of requests. It ends with a value, an
  error (a datatype with the errors the code makes), a panic, dropped by \<open>select!\<close>, or out of
  fuel. The S3 client, the clock, the random source (\<open>env\<close>), the local machine, sub-processes and
  the HTTP client (\<open>host\<close>), JSON, compression, CRC-32, dates and floating point are parameters; what
  a theorem needs of them is a named hypothesis, mostly a locale. A call may change the outside state in
  any way its laws allow, so a failed request may have taken effect. Machine integers have their
  width and wrap as in the release profile; strings are lists of bytes.

  Foundations. \<open>Prelude\<close>: integer types, errors, results. \<open>Rust\_Std\<close>, \<open>Rust\_Text\<close>: what is used of
  the standard library on strings, paths and numbers. \<open>File\_System\<close>: directories and files with the
  refusals of the operating system. \<open>Byte\_Stream\<close>: readers over a stream cut into chunks, and the
  locale \<open>fixed\_codec\<close> of the fixed-width integers. \<open>World\<close>, \<open>Host\<close>: effects.
  \<open>Bucket\<close>: the laws of S3 as locales (\<open>s3\_bucket\<close>, \<open>upload\_bucket\<close>), interpreted in \<open>Mem\_Bucket\<close> by a
  bucket in memory, on which the witnesses run.

  Archives: \<open>Part\_Zip\<close> is \<open>write\_zip\<close>, \<open>collect\_files\<close>, \<open>estimate\_zip\_size\<close>, \<open>extract\_zip\<close> and their
  helpers; \<open>Zip\_Sink\<close> is what is in the pipe when the writer stops, also with an error.
  \<open>Part\_Zip\_Props\<close> (confinement, independence of the chunks), \<open>Part\_Zip\_Roundtrip\<close> and \<open>Part\_Tree\<close>
  (the reader undoes the writer, up to the tree), \<open>Part\_Sizes\<close> (counts and estimate) lead to
  \<open>Part\_Zip\_Theorems\<close>.

  Storage: \<open>Retry\<close> is \<open>with\_retry\<close>; \<open>Storage\<close> is the classification of errors, single objects,
  listings, bulk delete and the multipart upload; \<open>Upload\_Progress\<close> its counters. \<open>Storage\_Props\<close> and
  \<open>Multipart\<close> show the bounds of the chunks, what a bulk delete reports, that a successful upload
  completes exactly the chunks of the stream in order, and that a failed one is aborted.
  \<open>Blob\_Hash\<close>, \<open>Util\<close>, \<open>Manifest\<close> are the files of the same names.

  Backup: \<open>Clickhouse\<close> (with \<open>src/parts.rs\<close>), \<open>Staging\<close> and \<open>Snapshots\<close> model the queries, the staging
  passes and \<open>create\_snapshot\<close>. \<open>Snapshot\_Plan\<close>: what is uploaded and what the manifest says.
  \<open>Backup\_Safety\<close>: however a backup ends, every manifest still has its blobs.

  Restore: \<open>Restore\<close> is \<open>restore\_snapshot\<close>; \<open>Restore\_Props\<close> shows the selection, the confinement to the
  output directory, and the manifest that escapes it. \<open>Backup\_Roundtrip\<close> composes archive, upload,
  download and extraction: what a successful upload stored is what a restore puts on the disk.
  \<open>Snapshot\_Roundtrip\<close> lifts that to whole snapshots: with hashes that stand for trees, a successful
  backup keeps every blob the archive of its tree, and a successful restore puts the trees of all selected
  parts in their places; \<open>Snapshot\_Run\<close> is a run of both, from the query to the restored file.

  Garbage collection: \<open>Gc\<close> is \<open>src/gc.rs\<close>, \<open>Gc\_Lock\<close> is \<open>src/gc/lock.rs\<close>. \<open>Gc\_Requests\<close> bounds the
  requests of the commands, \<open>Gc\_Safety\<close> what they leave alone, \<open>Gc\_Theorems\<close> states that no command
  deletes what a remaining manifest names. \<open>Prune\_Set\<close>: which snapshots are pruned. \<open>Gc\_Grace\<close> and
  \<open>Gc\_Dangling\<close>: young blobs, wrapped periods, and the pruning that leaves a manifest without blobs.
  \<open>Gc\_Lock\_Theorems\<close>: a valid lock is not taken. \<open>Lock\_Protocol\<close> is the lock as a step relation of
  interleaved instances with its mutual exclusion, \<open>Lock\_Refinement\<close> the proof that the acquisition
  and the release of \<open>Gc\_Lock\<close> are runs of it under any interference, and the race on a stale lock.

  Commands and display: \<open>Config\<close> and \<open>Commands\<close> are \<open>src/main.rs\<close> and \<open>src/upload.rs\<close> from the parsed
  arguments on; \<open>Command\_Props\<close> shows that bad arguments are refused before any request, that the
  commands that only look write nothing, and that a restore without \<open>--force\<close> overwrites nothing.
  \<open>Tui\_Events\<close>, \<open>Tui\_State\<close>, \<open>Tui\_Text\<close> and \<open>Tui\_Loop\<close> are \<open>src/tui.rs\<close>: events, rows, the texts of a
  frame, the loop of frames and the plain logger. \<open>Tui\_Props\<close>: no event panics, parts only move
  forward, lists and summaries are those specified.

  Bounds and fuel. A paginated listing runs for at most \<open>page\_fuel\<close> pages of the \<open>env\<close> and then
  diverges: a service that hands out continuation tokens for ever is one on which the code does
  not return, and theorems about results hold for every fuel. Retries are bounded by the
  configuration, staging by five passes, the attempts at the lock by ten, a frame of the display by 32
  events, as in the code; \<open>tui\_ends\<close> gives the number of frames after which a closed channel ends the
  display. Everything else is structural recursion or has a termination proof.

  Not modelled. The parsing of the command line, the asynchronous runtime and the panic hook, the
  drawing of widgets, colours and layout, entering and leaving the terminal, and most printing are
  libraries or output only. Tasks that run side by side run one after the other here, in an order
  that is a parameter where it can be seen (completions of an upload, shards, downloads); interference by
  other processes is in the calls of the \<open>env\<close>. The theorems about the bucket as a whole are for a
  bucket that only this process changes; those about the lock are not. The tests are not modelled.
\<close>

end
